(* ===== verification/Prelude.thy ===== *)
theory Prelude
  imports Main "HOL-Library.Char_ord" "HOL-Library.List_Lexorder" "HOL-Library.Product_Lexorder"
begin

text \<open>
  Shared vocabulary of the development: identifiers, errors, 64-bit arithmetic, and the
  relational-table operations (SELECT, UPDATE, DELETE on lists of rows) with the lemmas the
  component proofs rest on.

  A \<open>uuid.UUID\<close> is represented by its canonical 36-character text, so \<open>String()\<close> is the
  identity; byte order on UUIDs and lexicographic order on their canonical text agree.
  Instants and durations are integers counting nanoseconds.
\<close>

named_theorems row_simps \<open>rewrite rules for table updates and row records\<close>
named_theorems keeps_intros \<open>rules that decompose a transaction for a preservation proof\<close>
named_theorems guar_intros \<open>rules that decompose a program for a guarantee proof\<close>

section \<open>Identifiers, times, errors\<close>

type_synonym uuid = string
type_synonym time = int
type_synonym duration = int

text \<open>\<open>uuid.Nil\<close>, the all-zero UUID.\<close>

definition uuid_nil :: uuid where
  "uuid_nil = ''00000000-0000-0000-0000-000000000000''"

text \<open>
  The sentinel errors of the packages. A Go error value is modelled by the list of the
  sentinels in its wrap chain, outermost first: \<open>fmt.Errorf("text: %w", err)\<close> leaves the
  list as it is, \<open>fmt.Errorf("%w: %w", A, err)\<close> puts A in front, and \<open>errors.Is\<close> is
  membership. An error with no sentinel (a network error, \<open>errors.New\<close> at the point of use)
  is \<open>Opaque\<close> with a short tag. \<open>PgError\<close> is \<open>pgconn.PgError\<close> with its code and
  constraint name; \<open>NoRows\<close> is \<open>pgx.ErrNoRows\<close>.
\<close>

datatype sentinel =
    Opaque string
  | NoRows
  | PgError string string
  | ErrUnknownSeat
  | ErrConfirmMismatch
  | ErrEventNotFound
  | ErrNotQueued
  | ErrBadRequest
  | ErrUnauthorized
  | ErrInvalidAdmission
  | ErrBadSignature
  | ErrInvalidWebhook
  | ErrValidation string string
  | ErrSeatsUnavailable "string list"
  | ErrActiveOrderExists
  | ErrIdempotencyKeyReused
  | ErrIdempotencyKeyInProgress
  | ErrTemporarilyUnavailable
  | ErrNotFound
  | ErrNotCancellable string
  | ErrAdmissionRequired
  | ErrAdmissionAlreadyUsed
  | ErrRefundNotFound
  | ErrInvalidRequest
  | Permanent

type_synonym goerror = "sentinel list"
type_synonym 'a res = "goerror + 'a"

abbreviation infra_error :: goerror where
  "infra_error \<equiv> [Opaque ''infrastructure'']"

definition errors_is :: "goerror \<Rightarrow> sentinel \<Rightarrow> bool" where
  [simp]: "errors_is e s \<longleftrightarrow> s \<in> set e"

section \<open>Machine integers\<close>

text \<open>Two's complement wrap-around of Go's \<open>int64\<close>, \<open>uint64\<close> and \<open>int32\<close>.\<close>

definition int32 :: "int \<Rightarrow> int" where
  "int32 n = (n + 2 ^ 31) mod 2 ^ 32 - 2 ^ 31"

lemma int32_id: "0 \<le> n \<Longrightarrow> n < 2 ^ 31 \<Longrightarrow> int32 n = n"
  by (simp add: int32_def)

definition int64 :: "int \<Rightarrow> int" where
  "int64 n = (n + 2 ^ 63) mod 2 ^ 64 - 2 ^ 63"

definition uint64 :: "int \<Rightarrow> int" where
  "uint64 n = n mod 2 ^ 64"

definition in_int64 :: "int \<Rightarrow> bool" where
  "in_int64 n \<longleftrightarrow> - (2 ^ 63) \<le> n \<and> n < 2 ^ 63"

lemma int64_id: "in_int64 n \<Longrightarrow> int64 n = n"
  by (simp add: int64_def in_int64_def)

lemma in_int64_int64: "in_int64 (int64 n)"
proof -
  have "0 \<le> (n + 2 ^ 63) mod 2 ^ 64" and "(n + 2 ^ 63) mod 2 ^ 64 < (2 ^ 64 :: int)"
    by simp_all
  then show ?thesis by (simp add: int64_def in_int64_def)
qed

lemma int64_add_left: "int64 (int64 a + b) = int64 (a + b)"
proof -
  have "(int64 a + b + 2 ^ 63) mod 2 ^ 64 = ((a + 2 ^ 63) mod 2 ^ 64 + b) mod 2 ^ 64"
    by (simp add: int64_def)
  also have "\<dots> = (a + 2 ^ 63 + b) mod 2 ^ 64" by (simp add: mod_add_left_eq)
  finally show ?thesis by (simp add: int64_def algebra_simps)
qed

text \<open>The accumulator loop \<open>for ... { total += x }\<close> over \<open>int64\<close>.\<close>

fun sum64 :: "int \<Rightarrow> int list \<Rightarrow> int" where
  "sum64 acc [] = acc"
| "sum64 acc (x # xs) = sum64 (int64 (acc + x)) xs"

lemma sum64_eq: "in_int64 acc \<Longrightarrow> sum64 acc xs = int64 (acc + sum_list xs)"
  by (induction xs arbitrary: acc)
    (simp_all add: int64_id in_int64_int64 int64_add_left add.assoc)

section \<open>Tables as lists of rows\<close>

text \<open>\<open>UPDATE t SET ... WHERE P\<close> and \<open>DELETE FROM t WHERE P\<close>.\<close>

definition update_where :: "('r \<Rightarrow> bool) \<Rightarrow> ('r \<Rightarrow> 'r) \<Rightarrow> 'r list \<Rightarrow> 'r list" where
  "update_where P f = map (\<lambda>r. if P r then f r else r)"

definition delete_where :: "('r \<Rightarrow> bool) \<Rightarrow> 'r list \<Rightarrow> 'r list" where
  "delete_where P = filter (\<lambda>r. \<not> P r)"

text \<open>\<open>SELECT * FROM t WHERE key = k\<close> on a key column.\<close>

definition row_by :: "('r \<Rightarrow> 'k) \<Rightarrow> 'k \<Rightarrow> 'r list \<Rightarrow> 'r option" where
  "row_by key k = find (\<lambda>r. key r = k)"

lemma row_by_Nil [simp, row_simps]: "row_by key k [] = None"
  by (simp add: row_by_def)

lemma row_by_Cons [simp, row_simps]:
  "row_by key k (r # rs) = (if key r = k then Some r else row_by key k rs)"
  by (simp add: row_by_def)

lemma update_where_Nil [simp, row_simps]: "update_where P f [] = []"
  by (simp add: update_where_def)

lemma update_where_Cons [simp, row_simps]:
  "update_where P f (r # rs) = (if P r then f r else r) # update_where P f rs"
  by (simp add: update_where_def)

lemma update_where_append [simp]:
  "update_where P f (xs @ ys) = update_where P f xs @ update_where P f ys"
  by (simp add: update_where_def)

lemma update_where_id: "(\<And>r. r \<in> set rs \<Longrightarrow> \<not> P r) \<Longrightarrow> update_where P f rs = rs"
  by (induction rs) auto

lemma row_by_SomeD: "row_by key k rs = Some r \<Longrightarrow> r \<in> set rs \<and> key r = k"
  by (induction rs) (auto split: if_splits)

lemma row_by_None_iff: "row_by key k rs = None \<longleftrightarrow> k \<notin> key ` set rs"
  by (induction rs) auto

lemma row_by_in: "distinct (map key rs) \<Longrightarrow> r \<in> set rs \<Longrightarrow> row_by key (key r) rs = Some r"
  by (induction rs) (auto simp: rev_image_eqI)

lemma row_by_Some_iff:
  "distinct (map key rs) \<Longrightarrow> row_by key k rs = Some r \<longleftrightarrow> r \<in> set rs \<and> key r = k"
  using row_by_in row_by_SomeD by metis

lemma distinct_key_eq:
  "distinct (map key rs) \<Longrightarrow> r \<in> set rs \<Longrightarrow> r' \<in> set rs \<Longrightarrow> key r = key r' \<Longrightarrow> r = r'"
  by (metis option.inject row_by_in)

lemma row_by_append:
  "row_by key k (xs @ ys) = (case row_by key k xs of None \<Rightarrow> row_by key k ys | Some r \<Rightarrow> Some r)"
  by (induction xs) auto

lemma map_update_where:
  "(\<And>r. P r \<Longrightarrow> key (f r) = key r) \<Longrightarrow> map key (update_where P f rs) = map key rs"
  by (simp add: update_where_def)

lemma image_update_where:
  "(\<And>r. P r \<Longrightarrow> key (f r) = key r) \<Longrightarrow> key ` set (update_where P f rs) = key ` set rs"
  using map_update_where[of P key f rs] by (metis list.set_map)

lemma set_update_where:
  "set (update_where P f rs) = (\<lambda>r. if P r then f r else r) ` set rs"
  by (simp add: update_where_def)

lemma row_by_update_where:
  assumes "\<And>r. P r \<Longrightarrow> key (f r) = key r"
  shows "row_by key k (update_where P f rs)
    = map_option (\<lambda>r. if P r then f r else r) (row_by key k rs)"
  using assms by (induction rs) auto

lemma filter_update_where:
  assumes "\<And>r. P r \<Longrightarrow> Q (f r) = Q r"
  shows "filter Q (update_where P f rs) = update_where P f (filter Q rs)"
  using assms by (induction rs) auto

text \<open>A uniqueness constraint restricted to the rows that satisfy Q (a partial unique index).\<close>

lemma distinct_map_filter_update:
  assumes "distinct (map key (filter Q rs))"
    and "\<And>r. P r \<Longrightarrow> r \<in> set rs \<Longrightarrow> \<not> Q (f r)"
  shows "distinct (map key (filter Q (update_where P f rs)))"
  using assms
proof (induction rs)
  case (Cons r rs)
  have sub: "set (filter Q (update_where P f rs)) \<subseteq> set (filter Q rs)"
    using Cons.prems(2) by (auto simp: set_update_where)
  have "distinct (map key (filter Q (update_where P f rs)))"
    using Cons by (auto split: if_splits)
  moreover have "key r \<notin> key ` set (filter Q (update_where P f rs))" if "Q r"
    using Cons.prems(1) that sub by auto
  ultimately show ?case using Cons.prems(2)[of r] by auto
qed simp

section \<open>Strings\<close>

text \<open>\<open>strings.HasPrefix\<close>, \<open>strings.TrimPrefix\<close>.\<close>

fun has_prefix :: "string \<Rightarrow> string \<Rightarrow> bool" where
  "has_prefix s [] = True"
| "has_prefix [] (p # ps) = False"
| "has_prefix (c # s) (p # ps) = (c = p \<and> has_prefix s ps)"

definition trim_prefix :: "string \<Rightarrow> string \<Rightarrow> string" where
  "trim_prefix s p = (if has_prefix s p then drop (length p) s else s)"

lemma has_prefix_append [simp]: "has_prefix (p @ s) p"
  by (induction p) auto

lemma trim_prefix_append [simp]: "trim_prefix (p @ s) p = s"
  by (simp add: trim_prefix_def)

lemma has_prefix_iff: "has_prefix s p \<longleftrightarrow> (\<exists>t. s = p @ t)"
  by (induction s p rule: has_prefix.induct) auto

text \<open>\<open>strconv.FormatInt(n, 10)\<close> and \<open>strconv.ParseInt(s, 10, 64)\<close>.\<close>

fun digits_of :: "nat \<Rightarrow> string" where
  "digits_of n = (if n < 10 then [char_of (n + 48)] else digits_of (n div 10) @ [char_of (n mod 10 + 48)])"

declare digits_of.simps [simp del]

definition format_int :: "int \<Rightarrow> string" where
  "format_int n = (if n < 0 then ''-'' @ digits_of (nat (- n)) else digits_of (nat n))"

definition digit_val :: "char \<Rightarrow> nat option" where
  "digit_val c = (let n = of_char c in if 48 \<le> n \<and> n \<le> 57 then Some (n - 48) else None)"

fun parse_digits :: "nat \<Rightarrow> string \<Rightarrow> nat option" where
  "parse_digits acc [] = Some acc"
| "parse_digits acc (c # cs) = (case digit_val c of
     None \<Rightarrow> None
   | Some v \<Rightarrow> parse_digits (10 * acc + v) cs)"

definition parse_nat :: "string \<Rightarrow> nat option" where
  "parse_nat s = (if s = [] then None else parse_digits 0 s)"

definition parse_int :: "string \<Rightarrow> int option" where
  "parse_int s =
    (let r = (if has_prefix s ''-'' then map_option (\<lambda>n. - int n) (parse_nat (tl s))
              else if has_prefix s ''+'' then map_option int (parse_nat (tl s))
              else map_option int (parse_nat s))
     in case r of None \<Rightarrow> None | Some n \<Rightarrow> if in_int64 n then Some n else None)"

lemma parse_digits_append:
  "parse_digits acc (xs @ ys) = (case parse_digits acc xs of None \<Rightarrow> None | Some n \<Rightarrow> parse_digits n ys)"
  by (induction xs arbitrary: acc) (auto split: option.split)

lemma digit_val_char [simp]: "n < 10 \<Longrightarrow> digit_val (char_of (n + 48)) = Some n"
  by (simp add: digit_val_def Let_def)

lemma digits_of_nonempty [simp]: "digits_of n \<noteq> []"
  by (subst digits_of.simps) simp

lemma parse_digits_of: "parse_digits 0 (digits_of n) = Some n"
proof (induction n rule: digits_of.induct)
  case (1 n)
  then show ?case
    by (cases "n < 10") (simp_all add: digits_of.simps[of n] parse_digits_append)
qed

lemma parse_nat_digits [simp]: "parse_nat (digits_of n) = Some n"
  by (simp add: parse_nat_def parse_digits_of)

lemma digits_of_inject [simp]: "digits_of m = digits_of n \<longleftrightarrow> m = n"
  by (metis option.inject parse_nat_digits)

definition is_digit :: "char \<Rightarrow> bool" where
  "is_digit c \<longleftrightarrow> digit_val c \<noteq> None"

lemma digits_of_digit: "c \<in> set (digits_of n) \<Longrightarrow> is_digit c"
proof (induction n rule: digits_of.induct)
  case (1 n)
  then show ?case
    by (cases "n < 10") (auto simp: digits_of.simps[of n] is_digit_def)
qed

lemma digits_of_no_sign: "\<not> has_prefix (digits_of n) ''-''" "\<not> has_prefix (digits_of n) ''+''"
proof -
  obtain c cs where c: "digits_of n = c # cs" using digits_of_nonempty by (metis list.exhaust)
  then have "is_digit c" using digits_of_digit[of c n] by simp
  then have "c \<noteq> CHR ''-''" "c \<noteq> CHR ''+''" by (auto simp: is_digit_def digit_val_def)
  with c show "\<not> has_prefix (digits_of n) ''-''" "\<not> has_prefix (digits_of n) ''+''" by simp_all
qed

lemma parse_format_int: "in_int64 n \<Longrightarrow> parse_int (format_int n) = Some n"
  by (auto simp: parse_int_def format_int_def digits_of_no_sign Let_def)

lemma format_int_inject: "format_int m = format_int n \<longleftrightarrow> m = n"
proof
  assume a: "format_int m = format_int n"
  have neg: "has_prefix (format_int k) ''-'' \<longleftrightarrow> k < 0" for k
    by (simp add: format_int_def digits_of_no_sign)
  then have s: "m < 0 \<longleftrightarrow> n < 0" using a by metis
  show "m = n"
  proof (cases "m < 0")
    case True
    then have "nat (- m) = nat (- n)" using a s by (simp add: format_int_def)
    then show ?thesis using True s by linarith
  next
    case False
    then have "nat m = nat n" using a s by (simp add: format_int_def)
    then show ?thesis using False s by linarith
  qed
qed simp

lemma format_int_chars: "c \<in> set (format_int n) \<Longrightarrow> is_digit c \<or> c = CHR ''-''"
  by (auto simp: format_int_def dest: digits_of_digit split: if_splits)

text \<open>Two strings split at their first occurrence of a separator.\<close>

lemma append_sep_inject:
  assumes "c \<notin> set xs" and "c \<notin> set ys" and "xs @ c # us = ys @ c # vs"
  shows "xs = ys \<and> us = vs"
  using assms
proof (induction xs arbitrary: ys)
  case Nil
  then show ?case by (cases ys) auto
next
  case (Cons x xs)
  then show ?case by (cases ys) auto
qed

text \<open>Integer division of Go truncates towards zero.\<close>

definition go_div :: "int \<Rightarrow> int \<Rightarrow> int" where
  "go_div a b = sgn a * sgn b * (\<bar>a\<bar> div \<bar>b\<bar>)"

lemma go_div_nonneg: "0 \<le> a \<Longrightarrow> 0 < b \<Longrightarrow> go_div a b = a div b"
  by (cases "a = 0") (simp_all add: go_div_def)

end
