(* ===== verification/Effects.thy ===== *)
theory Effects
  imports Prelude
begin

text \<open>
  How the development models effects. A database transaction is a function on the database
  that either rolls back with an error or commits a new database with a result
  (\<open>tx\<close>). A handler is a program (\<open>prog\<close>): a finite tree of atomic steps, one for each
  transaction, statement outside a transaction, Redis script or remote call. Between two
  steps other programs may run. Each step is subject to a fault chosen by the environment:
  the call may succeed, fail without effect, or take effect and lose its reply, so that every
  error branch of the source is reachable. A step has a guard; a step whose guard is false
  waits (a row lock held by another transaction).

  \<open>keeps\<close> and \<open>guar\<close> state that a transaction or every step of a program respects a
  relation between the states before and after; the rules collected in \<open>keeps_intros\<close> and
  \<open>guar_intros\<close> decompose them along the program text. The locale at the end turns the
  guarantees of the programs into invariants of every interleaving; \<open>rg\<close> is the form of a
  guarantee for programs whose later steps rely on their earlier ones.
\<close>

section \<open>Transactions\<close>

type_synonym ('d, 'a) tx = "'d \<Rightarrow> goerror + 'd \<times> 'a"

definition tx_return :: "'a \<Rightarrow> ('d, 'a) tx" where
  "tx_return x d = Inr (d, x)"

definition tx_fail :: "goerror \<Rightarrow> ('d, 'a) tx" where
  "tx_fail e d = Inl e"

definition tx_bind :: "('d, 'a) tx \<Rightarrow> ('a \<Rightarrow> ('d, 'b) tx) \<Rightarrow> ('d, 'b) tx" where
  "tx_bind m k d = (case m d of Inl e \<Rightarrow> Inl e | Inr (d', x) \<Rightarrow> k x d')"

text \<open>\<open>err\<close> tested by the caller instead of being returned at once.\<close>

definition tx_try :: "('d, 'a) tx \<Rightarrow> (goerror \<Rightarrow> ('d, 'b) tx) \<Rightarrow> ('a \<Rightarrow> ('d, 'b) tx) \<Rightarrow> ('d, 'b) tx" where
  "tx_try m h k d = (case m d of Inl e \<Rightarrow> h e d | Inr (d', x) \<Rightarrow> k x d')"

text \<open>A read-only statement.\<close>

definition tx_read :: "('d \<Rightarrow> 'a) \<Rightarrow> ('d, 'a) tx" where
  "tx_read f d = Inr (d, f d)"

text \<open>A \<open>for\<close> loop over a slice whose body may return an error.\<close>

fun tx_each :: "('x \<Rightarrow> ('d, unit) tx) \<Rightarrow> 'x list \<Rightarrow> ('d, unit) tx" where
  "tx_each f [] = tx_return ()"
| "tx_each f (x # xs) = tx_bind (f x) (\<lambda>_. tx_each f xs)"

lemma tx_return_Inr [simp]: "tx_return x d = Inr (d', y) \<longleftrightarrow> d' = d \<and> y = x"
  by (auto simp: tx_return_def)

lemma tx_return_Inl [simp]: "tx_return x d \<noteq> Inl e"
  by (simp add: tx_return_def)

lemma tx_fail_Inr [simp]: "tx_fail e d \<noteq> Inr r"
  by (simp add: tx_fail_def)

lemma tx_fail_Inl [simp]: "tx_fail e d = Inl e' \<longleftrightarrow> e' = e"
  by (auto simp: tx_fail_def)

lemma tx_read_Inr [simp]: "tx_read f d = Inr (d', x) \<longleftrightarrow> d' = d \<and> x = f d"
  by (auto simp: tx_read_def)

lemma tx_read_Inl [simp]: "tx_read f d \<noteq> Inl e"
  by (simp add: tx_read_def)

lemma tx_bind_Inr:
  "tx_bind m k d = Inr (d', y) \<longleftrightarrow> (\<exists>d1 x. m d = Inr (d1, x) \<and> k x d1 = Inr (d', y))"
  by (auto simp: tx_bind_def split: sum.splits)

lemma tx_bind_InrE:
  assumes "tx_bind m k d = Inr (d', y)"
  obtains d1 x where "m d = Inr (d1, x)" and "k x d1 = Inr (d', y)"
  using assms by (auto simp: tx_bind_Inr)

lemma tx_try_InrE:
  assumes "tx_try m h k d = Inr (d', y)"
  obtains (ok) d1 x where "m d = Inr (d1, x)" and "k x d1 = Inr (d', y)"
  | (err) e where "m d = Inl e" and "h e d = Inr (d', y)"
  using assms by (auto simp: tx_try_def split: sum.splits)

lemma tx_bind_ok [simp]: "m d = Inr (d1, x) \<Longrightarrow> tx_bind m k d = k x d1"
  by (simp add: tx_bind_def)

lemma tx_bind_err [simp]: "m d = Inl e \<Longrightarrow> tx_bind m k d = Inl e"
  by (simp add: tx_bind_def)

lemma tx_try_ok [simp]: "m d = Inr (d1, x) \<Longrightarrow> tx_try m h k d = k x d1"
  by (simp add: tx_try_def)

lemma tx_try_err [simp]: "m d = Inl e \<Longrightarrow> tx_try m h k d = h e d"
  by (simp add: tx_try_def)

section \<open>Relations kept by transactions\<close>

definition keeps :: "('d \<Rightarrow> 'd \<Rightarrow> bool) \<Rightarrow> ('d, 'a) tx \<Rightarrow> bool" where
  "keeps R m \<longleftrightarrow> (\<forall>d d' x. m d = Inr (d', x) \<longrightarrow> R d d')"

lemma keepsI: "(\<And>d d' x. m d = Inr (d', x) \<Longrightarrow> R d d') \<Longrightarrow> keeps R m"
  by (simp add: keeps_def)

lemma keepsD: "keeps R m \<Longrightarrow> m d = Inr (d', x) \<Longrightarrow> R d d'"
  by (simp add: keeps_def)

lemma keeps_return: "reflp R \<Longrightarrow> keeps R (tx_return x)"
  by (simp add: keeps_def reflp_def)

lemma keeps_fail [keeps_intros, simp]: "keeps R (tx_fail e)"
  by (simp add: keeps_def)

lemma keeps_read: "reflp R \<Longrightarrow> keeps R (tx_read f)"
  by (simp add: keeps_def reflp_def)

lemma keeps_bind:
  assumes "transp R" "keeps R m" "\<And>x. keeps R (k x)"
  shows "keeps R (tx_bind m k)"
  using assms by (force simp: keeps_def tx_bind_Inr dest: transpD)

lemma keeps_try:
  assumes "transp R" "keeps R m" "\<And>x. keeps R (k x)" "\<And>e. keeps R (h e)"
  shows "keeps R (tx_try m h k)"
  unfolding keeps_def
proof (intro allI impI)
  fix d d' y
  assume "tx_try m h k d = Inr (d', y)"
  then show "R d d'"
  proof (cases rule: tx_try_InrE)
    case (ok d1 x)
    then show ?thesis using assms(1) keepsD[OF assms(2)] keepsD[OF assms(3)] by (blast dest: transpD)
  next
    case (err e)
    then show ?thesis using keepsD[OF assms(4)] by blast
  qed
qed

lemma keeps_if [keeps_intros]:
  "(b \<Longrightarrow> keeps R m) \<Longrightarrow> (\<not> b \<Longrightarrow> keeps R m') \<Longrightarrow> keeps R (if b then m else m')"
  by simp

lemma keeps_each:
  assumes "reflp R" "transp R" "\<And>x. x \<in> set xs \<Longrightarrow> keeps R (f x)"
  shows "keeps R (tx_each f xs)"
  using assms(3)
proof (induction xs)
  case Nil
  then show ?case using assms(1) by (simp add: keeps_return)
next
  case (Cons x xs)
  then show ?case using assms(2) by (auto intro: keeps_bind)
qed

text \<open>An observation of the state that a transaction leaves alone is a relation it keeps.\<close>

definition same :: "('d \<Rightarrow> 'v) \<Rightarrow> 'd \<Rightarrow> 'd \<Rightarrow> bool" where
  "same f d d' \<longleftrightarrow> f d' = f d"

lemma reflp_same [simp]: "reflp (same f)"
  by (simp add: same_def reflp_def)

lemma transp_same [simp]: "transp (same f)"
  by (simp add: same_def transp_def)

section \<open>Programs\<close>

datatype fault = Reply | Fail | Lost

datatype (dead 'w, 'a) prog =
    Ret 'a
  | Step "'w \<Rightarrow> bool" "fault \<Rightarrow> 'w \<Rightarrow> 'w" "fault \<Rightarrow> 'w \<Rightarrow> ('w, 'a) prog"

lemma prog_induct [case_names Ret Step, induct type: prog]:
  assumes "\<And>a. Q (Ret a)" and "\<And>g e c. (\<And>x w. Q (c x w)) \<Longrightarrow> Q (Step g e c)"
  shows "Q p"
proof (induction p rule: prog.induct)
  case (Ret a)
  show ?case by (rule assms(1))
next
  case (Step g e c)
  show ?case by (rule assms(2), rule Step, rule rangeI, rule rangeI)
qed

primrec bindp :: "('w, 'a) prog \<Rightarrow> ('a \<Rightarrow> ('w, 'b) prog) \<Rightarrow> ('w, 'b) prog" where
  "bindp (Ret a) k = k a"
| "bindp (Step g e c) k = Step g e (\<lambda>x w. bindp (c x w) k)"

text \<open>
  One remote call: \<open>op\<close> gives the state after the call and the reply. On \<open>Fail\<close> it has no
  effect, on \<open>Lost\<close> it takes effect and the caller sees an error all the same.
\<close>

definition call_when :: "('w \<Rightarrow> bool) \<Rightarrow> ('w \<Rightarrow> 'w \<times> 'r res) \<Rightarrow> ('w, 'r res) prog" where
  "call_when g op = Step g (\<lambda>x w. if x = Fail then w else fst (op w))
     (\<lambda>x w. Ret (if x = Reply then snd (op w) else Inl infra_error))"

abbreviation call :: "('w \<Rightarrow> 'w \<times> 'r res) \<Rightarrow> ('w, 'r res) prog" where
  "call \<equiv> call_when (\<lambda>_. True)"

text \<open>A step that cannot fail: reading a clock or the process's own memory.\<close>

definition local_step :: "('w \<Rightarrow> 'w \<times> 'r) \<Rightarrow> ('w, 'r) prog" where
  "local_step op = Step (\<lambda>_. True) (\<lambda>x w. fst (op w)) (\<lambda>x w. Ret (snd (op w)))"

text \<open>A \<open>for\<close> loop over a slice whose body's errors are only logged.\<close>

fun progs_each :: "('x \<Rightarrow> ('w, 'r) prog) \<Rightarrow> 'x list \<Rightarrow> ('w, unit) prog" where
  "progs_each f [] = Ret ()"
| "progs_each f (x # xs) = bindp (f x) (\<lambda>_. progs_each f xs)"

text \<open>A run of one program alone, with the faults of its steps given as a list.\<close>

fun run :: "fault list \<Rightarrow> 'w \<Rightarrow> ('w, 'a) prog \<Rightarrow> ('w \<times> 'a) option" where
  "run xs w (Ret a) = Some (w, a)"
| "run [] w (Step g e c) = None"
| "run (x # xs) w (Step g e c) = (if g w then run xs (e x w) (c x w) else None)"

lemma run_call [simp]:
  "run (x # xs) w (call_when g op) =
    (if g w then Some (if x = Fail then w else fst (op w),
       if x = Reply then snd (op w) else Inl infra_error) else None)"
  by (cases xs) (simp_all add: call_when_def)

lemma run_bind_call [simp]:
  "run (x # xs) w (bindp (call_when g op) k) =
    (if g w then run xs (if x = Fail then w else fst (op w))
       (k (if x = Reply then snd (op w) else Inl infra_error)) else None)"
  by (simp add: call_when_def)

lemma run_bind_local [simp]:
  "run (x # xs) w (bindp (local_step op) k) = run xs (fst (op w)) (k (snd (op w)))"
  by (simp add: local_step_def)

lemma run_call_Some:
  "run fs w (call_when g op) = Some (w', r) \<longleftrightarrow>
    (\<exists>x xs. fs = x # xs \<and> g w \<and> w' = (if x = Fail then w else fst (op w))
       \<and> r = (if x = Reply then snd (op w) else Inl infra_error))"
  by (cases fs) (auto simp: call_when_def)

lemma run_bind_call_Some:
  "run fs w (bindp (call_when g op) k) = Some (w', r) \<longleftrightarrow>
    (\<exists>x xs. fs = x # xs \<and> g w \<and> run xs (if x = Fail then w else fst (op w))
       (k (if x = Reply then snd (op w) else Inl infra_error)) = Some (w', r))"
  by (cases fs) (auto simp: call_when_def)

lemma run_Ret [simp]: "run fs w (Ret a) = Some (w, a)"
  by (cases fs) simp_all

lemma run_bindE:
  assumes "run fs w (bindp p k) = Some (w', r)"
  obtains fs1 fs2 w1 a where "run fs1 w p = Some (w1, a)" "run fs2 w1 (k a) = Some (w', r)"
  using assms
proof (induction p arbitrary: fs w thesis)
  case (Ret a)
  then show ?case by fastforce
next
  case (Step g e c)
  obtain x xs where fs: "fs = x # xs" "g w" "run xs (e x w) (bindp (c x w) k) = Some (w', r)"
    using Step.prems(2) by (cases fs) (auto split: if_splits)
  obtain fs1 fs2 w1 a where 1: "run fs1 (e x w) (c x w) = Some (w1, a)" "run fs2 w1 (k a) = Some (w', r)"
    using Step.IH fs(3) by blast
  have "run (x # fs1) w (Step g e c) = Some (w1, a)" using 1(1) fs(2) by simp
  then show ?case using Step.prems(1) 1(2) by blast
qed

lemma run_bindI:
  assumes "run fs w p = Some (w1, a)"
  shows "\<exists>n \<le> length fs. \<forall>gs. run (take n fs @ gs) w (bindp p k) = run gs w1 (k a)"
  using assms
proof (induction p arbitrary: fs w)
  case (Ret a)
  then show ?case by auto
next
  case (Step g e c)
  obtain x xs where fs: "fs = x # xs" "g w" "run xs (e x w) (c x w) = Some (w1, a)"
    using Step.prems by (cases fs) (auto split: if_splits)
  obtain n where "n \<le> length xs" "\<forall>gs. run (take n xs @ gs) (e x w) (bindp (c x w) k) = run gs w1 (k a)"
    using Step.IH[OF fs(3)] by blast
  then show ?case using fs by (intro exI[of _ "Suc n"]) simp
qed

lemma bindp_assoc [simp]: "bindp (bindp p k) h = bindp p (\<lambda>x. bindp (k x) h)"
  by (induction p) auto

lemma bindp_Ret [simp]: "bindp p Ret = p"
  by (induction p) auto

section \<open>Guarantees of programs\<close>

text \<open>Every step of the program, whatever the fault and the state, respects R.\<close>

primrec guar :: "('w \<Rightarrow> 'w \<Rightarrow> bool) \<Rightarrow> ('w, 'a) prog \<Rightarrow> bool" where
  "guar R (Ret a) = True"
| "guar R (Step g e c) =
    ((\<forall>x w. g w \<longrightarrow> R w (e x w)) \<and> (\<forall>x w. guar R (c x w)))"

lemma guar_Ret [guar_intros, simp]: "guar R (Ret a)"
  by simp

lemma guar_bind [guar_intros]: "guar R p \<Longrightarrow> (\<And>x. guar R (k x)) \<Longrightarrow> guar R (bindp p k)"
  by (induction p) auto

lemma guar_call:
  "reflp R \<Longrightarrow> (\<And>w. g w \<Longrightarrow> R w (fst (op w))) \<Longrightarrow> guar R (call_when g op)"
  by (auto simp: call_when_def reflp_def)

lemma guar_local: "(\<And>w. R w (fst (op w))) \<Longrightarrow> guar R (local_step op)"
  by (simp add: local_step_def)

lemma guar_each [guar_intros]:
  "(\<And>x. x \<in> set xs \<Longrightarrow> guar R (f x)) \<Longrightarrow> guar R (progs_each f xs)"
  by (induction xs) (auto intro: guar_bind)

lemma guar_if [guar_intros]:
  "(b \<Longrightarrow> guar R p) \<Longrightarrow> (\<not> b \<Longrightarrow> guar R q) \<Longrightarrow> guar R (if b then p else q)"
  by simp

lemma guar_sum [guar_intros]:
  "(\<And>e. x = Inl e \<Longrightarrow> guar R (f e)) \<Longrightarrow> (\<And>y. x = Inr y \<Longrightarrow> guar R (g y))
    \<Longrightarrow> guar R (case x of Inl e \<Rightarrow> f e | Inr y \<Rightarrow> g y)"
  by (cases x) auto

lemma guar_option [guar_intros]:
  "(x = None \<Longrightarrow> guar R p) \<Longrightarrow> (\<And>y. x = Some y \<Longrightarrow> guar R (q y))
    \<Longrightarrow> guar R (case x of None \<Rightarrow> p | Some y \<Rightarrow> q y)"
  by (cases x) auto

lemma guar_prod [guar_intros]:
  "(\<And>a b. x = (a, b) \<Longrightarrow> guar R (f a b)) \<Longrightarrow> guar R (case x of (a, b) \<Rightarrow> f a b)"
  by (cases x) auto

lemma guar_mono: "guar R p \<Longrightarrow> (\<And>w w'. R w w' \<Longrightarrow> S w w') \<Longrightarrow> guar S p"
  by (induction p) auto

section \<open>What a program answers\<close>

text \<open>Whatever faults it meets, a program run alone that ends does so in a world and with an answer in \<open>P\<close>.\<close>

definition yields :: "('w, 'a) prog \<Rightarrow> 'w \<Rightarrow> ('w \<Rightarrow> 'a \<Rightarrow> bool) \<Rightarrow> bool" where
  "yields p w P \<longleftrightarrow> (\<forall>fs w' x. run fs w p = Some (w', x) \<longrightarrow> P w' x)"

lemma yieldsD: "yields p w P \<Longrightarrow> run fs w p = Some (w', x) \<Longrightarrow> P w' x"
  by (simp add: yields_def)

lemma yields_Ret [simp]: "yields (Ret a) w P \<longleftrightarrow> P w a"
  by (simp add: yields_def)

lemma yields_bind: "yields p w Q \<Longrightarrow> (\<And>w' a. Q w' a \<Longrightarrow> yields (k a) w' P) \<Longrightarrow> yields (bindp p k) w P"
  unfolding yields_def by (metis run_bindE)

lemma yields_mono: "yields p w Q \<Longrightarrow> (\<And>w' a. Q w' a \<Longrightarrow> P w' a) \<Longrightarrow> yields p w P"
  by (simp add: yields_def)

lemma yields_call:
  "yields (call_when g op) w (\<lambda>w' r. r = Inl infra_error \<and> (w' = w \<or> w' = fst (op w)) \<or> w' = fst (op w) \<and> r = snd (op w))"
  by (auto simp: yields_def run_call_Some)

lemma yields_local: "yields (local_step op) w (\<lambda>w' r. w' = fst (op w) \<and> r = snd (op w))"
  unfolding yields_def local_step_def
proof (intro allI impI)
  fix fs w' x assume "run fs w (Step (\<lambda>_. True) (\<lambda>x w. fst (op w)) (\<lambda>x w. Ret (snd (op w)))) = Some (w', x)"
  then show "w' = fst (op w) \<and> x = snd (op w)" by (cases fs) auto
qed

lemma guar_yields:
  "guar R p \<Longrightarrow> reflp R \<Longrightarrow> transp R \<Longrightarrow> yields p w (\<lambda>w' x. R w w')"
proof (induction p arbitrary: w)
  case (Ret a)
  then show ?case by (simp add: reflp_def)
next
  case (Step g e c)
  show ?case
    unfolding yields_def
  proof (intro allI impI)
    fix fs w' x assume "run fs w (Step g e c) = Some (w', x)"
    then obtain y ys where r: "g w" "run ys (e y w) (c y w) = Some (w', x)"
      by (cases fs) (auto split: if_splits)
    then have "R w (e y w)" "guar R (c y w)" using Step.prems(1) by auto
    then show "R w w'" using yieldsD[OF Step.IH[of y w "e y w"] r(2)] Step.prems(2,3) by (blast dest: transpD)
  qed
qed

section \<open>Rely and guarantee\<close>

text \<open>
  Where a step relies on what the program did before, it is judged under an assertion. An
  assertion Q is stable when no step that respects G, taken in a state with the invariant I,
  destroys it. \<open>rg I G T p Q\<close> says: started where Q holds, every step of p respects G and
  leads to a stable assertion for the rest, and T holds of the result at the end.
\<close>

definition stable_under :: "('w \<Rightarrow> bool) \<Rightarrow> ('w \<Rightarrow> 'w \<Rightarrow> bool) \<Rightarrow> ('w \<Rightarrow> bool) \<Rightarrow> bool" where
  "stable_under I G Q \<longleftrightarrow> (\<forall>w w'. I w \<longrightarrow> Q w \<longrightarrow> G w w' \<longrightarrow> Q w')"

primrec rg :: "('w \<Rightarrow> bool) \<Rightarrow> ('w \<Rightarrow> 'w \<Rightarrow> bool) \<Rightarrow> ('a \<Rightarrow> 'w \<Rightarrow> bool) \<Rightarrow> ('w, 'a) prog
    \<Rightarrow> ('w \<Rightarrow> bool) \<Rightarrow> bool" where
  "rg I G T (Ret a) = (\<lambda>Q. \<forall>w. I w \<longrightarrow> Q w \<longrightarrow> T a w)"
| "rg I G T (Step g e c) = (\<lambda>Q. \<forall>x w. I w \<longrightarrow> Q w \<longrightarrow> g w \<longrightarrow>
     G w (e x w) \<and> (\<exists>Q'. stable_under I G Q' \<and> Q' (e x w) \<and> rg I G T (c x w) Q'))"

lemma stableI: "(\<And>w w'. I w \<Longrightarrow> Q w \<Longrightarrow> G w w' \<Longrightarrow> Q w') \<Longrightarrow> stable_under I G Q"
  by (simp add: stable_under_def)

lemma stableD: "stable_under I G Q \<Longrightarrow> I w \<Longrightarrow> Q w \<Longrightarrow> G w w' \<Longrightarrow> Q w'"
  by (simp add: stable_under_def)

lemma stable_True [simp]: "stable_under I G (\<lambda>_. b)"
  by (simp add: stable_under_def)

lemma rg_pre: "rg I G T p Q' \<Longrightarrow> (\<And>w. I w \<Longrightarrow> Q w \<Longrightarrow> Q' w) \<Longrightarrow> rg I G T p Q"
  by (cases p) auto

lemma rg_bind:
  assumes "rg I G T p Q" "\<And>a. rg I G T' (k a) (T a)"
  shows "rg I G T' (bindp p k) Q"
  using assms(1)
proof (induction p arbitrary: Q)
  case (Ret a)
  then show ?case using rg_pre[OF assms(2)[of a], of Q] by simp
next
  case (Step g e c)
  then show ?case by fastforce
qed

lemma rg_step:
  assumes "\<And>x w. I w \<Longrightarrow> Q w \<Longrightarrow> g w \<Longrightarrow> G w (e x w)"
    and "\<And>x w. I w \<Longrightarrow> Q w \<Longrightarrow> g w \<Longrightarrow> \<exists>Q'. stable_under I G Q' \<and> Q' (e x w) \<and> rg I G T (c x w) Q'"
  shows "rg I G T (Step g e c) Q"
  using assms by auto

lemma guar_rg: "guar G p \<Longrightarrow> rg I G (\<lambda>_ _. True) p Q"
  by (induction p arbitrary: Q) (auto intro!: exI[of _ "\<lambda>_. True"])

section \<open>A program among others\<close>

text \<open>
  A complete run of one program with others acting freely between its steps, seen from the
  program: \<open>ts\<close> lists its own steps, each with its fault and the state before and after. All that is
  known of the others is that I holds whenever the program takes a step.
\<close>

inductive among :: "('w \<Rightarrow> bool) \<Rightarrow> (fault \<times> 'w \<times> 'w) list \<Rightarrow> ('w, 'a) prog \<Rightarrow> 'a \<Rightarrow> bool" for I where
  among_Ret: "among I [] (Ret a) a"
| among_Step: "I w \<Longrightarrow> g w \<Longrightarrow> among I ts (c x w) a \<Longrightarrow> among I ((x, w, e x w) # ts) (Step g e c) a"

inductive_simps among_Ret_iff [simp]: "among I ts (Ret a) b"

inductive_simps among_Step_iff: "among I ts (Step g e c) b"

section \<open>Interleavings\<close>

text \<open>
  A system runs any number of instances of the programs in P at once. A configuration is the
  state and the programs in progress; a step starts a program, performs one enabled step of
  one of them, or is a step E of the environment (time passing, keys expiring).
\<close>

inductive reach :: "('w, unit) prog set \<Rightarrow> ('w \<Rightarrow> 'w \<Rightarrow> bool) \<Rightarrow> ('w \<Rightarrow> bool)
    \<Rightarrow> 'w \<Rightarrow> ('w, unit) prog list \<Rightarrow> bool" for P E I0 where
  reach_init: "I0 w \<Longrightarrow> reach P E I0 w []"
| reach_start: "reach P E I0 w ps \<Longrightarrow> p \<in> P \<Longrightarrow> reach P E I0 w (p # ps)"
| reach_step: "reach P E I0 w (ps @ Step g e c # qs) \<Longrightarrow> g w
    \<Longrightarrow> reach P E I0 (e x w) (ps @ c x w # qs)"
| reach_env: "reach P E I0 w ps \<Longrightarrow> E w w' \<Longrightarrow> reach P E I0 w' ps"

text \<open>A program in progress whose assertion holds.\<close>

definition asserted :: "('w \<Rightarrow> bool) \<Rightarrow> ('w \<Rightarrow> 'w \<Rightarrow> bool) \<Rightarrow> 'w \<Rightarrow> ('w, 'a) prog \<Rightarrow> bool" where
  "asserted I G w p \<longleftrightarrow> (\<exists>Q. stable_under I G Q \<and> Q w \<and> rg I G (\<lambda>_ _. True) p Q)"

text \<open>
  The interface between the programs and the invariant: a relation G every program and the
  environment respect, under the assertions of the program where it needs them, and an
  invariant that G carries along.
\<close>

locale rely_guarantee =
  fixes P :: "('w, unit) prog set"
    and E :: "'w \<Rightarrow> 'w \<Rightarrow> bool"
    and I0 :: "'w \<Rightarrow> bool"
    and G :: "'w \<Rightarrow> 'w \<Rightarrow> bool"
    and Inv :: "'w \<Rightarrow> bool"
  assumes programs: "p \<in> P \<Longrightarrow> rg Inv G (\<lambda>_ _. True) p (\<lambda>_. True)"
    and environment: "Inv w \<Longrightarrow> E w w' \<Longrightarrow> G w w'"
    and start: "I0 w \<Longrightarrow> Inv w"
    and carried: "Inv w \<Longrightarrow> G w w' \<Longrightarrow> Inv w'"
begin

lemma asserted_step: "asserted Inv G w p \<Longrightarrow> Inv w \<Longrightarrow> G w w' \<Longrightarrow> asserted Inv G w' p"
  unfolding asserted_def by (blast dest: stableD)

lemma reach_asserted: "reach P E I0 w ps \<Longrightarrow> Inv w \<and> (\<forall>p \<in> set ps. asserted Inv G w p)"
proof (induction rule: reach.induct)
  case (reach_init w)
  then show ?case by (simp add: start)
next
  case (reach_start w ps p)
  have "asserted Inv G w p"
    unfolding asserted_def using programs[OF reach_start(2)] by (intro exI[of _ "\<lambda>_. True"]) simp
  then show ?case using reach_start by simp
next
  case (reach_step w ps g e c qs x)
  have i: "Inv w" and p: "asserted Inv G w (Step g e c)" using reach_step by auto
  then have G: "G w (e x w)" and c: "asserted Inv G (e x w) (c x w)"
    using reach_step(2) by (auto simp: asserted_def)
  have "asserted Inv G (e x w) p" if "p \<in> set ps \<union> set qs" for p
    using reach_step that by (intro asserted_step[OF _ i G]) auto
  then show ?case using carried[OF i G] c by auto
next
  case (reach_env w ps w')
  then show ?case using environment carried asserted_step by blast
qed

lemma reach_inv: "reach P E I0 w ps \<Longrightarrow> Inv w"
  by (simp add: reach_asserted)

lemma reach_guarantee:
  assumes "reach P E I0 w (ps @ Step g e c # qs)" "g w"
  shows "G w (e x w)"
  using reach_asserted[OF assms(1)] assms(2) by (auto simp: asserted_def)

end

end
