(* ===== verification/Order_State.thy ===== *)
theory Order_State
  imports Prelude
begin

text \<open>
  The order state machine, \<open>internal/order/state.go\<close>: the statuses, the transition table and
  \<open>CanTransition\<close>. The lemmas show that the machine is acyclic, that at most three
  transitions lead from HELD to the end, and that the paid and the refunded branch exclude
  each other.
\<close>

datatype status =
    StatusHeld
  | StatusPaid
  | StatusTicketed
  | StatusExpired
  | StatusCancelled
  | StatusRefunding
  | StatusRefunded

fun status_text :: "status \<Rightarrow> string" where
  "status_text StatusHeld = ''HELD''"
| "status_text StatusPaid = ''PAID''"
| "status_text StatusTicketed = ''TICKETED''"
| "status_text StatusExpired = ''EXPIRED''"
| "status_text StatusCancelled = ''CANCELLED''"
| "status_text StatusRefunding = ''REFUNDING''"
| "status_text StatusRefunded = ''REFUNDED''"

definition AllStatuses :: "status list" where
  "AllStatuses = [StatusHeld, StatusPaid, StatusTicketed, StatusExpired,
     StatusCancelled, StatusRefunding, StatusRefunded]"

fun transitions :: "status \<Rightarrow> status list" where
  "transitions StatusHeld = [StatusPaid, StatusCancelled, StatusExpired, StatusRefunding]"
| "transitions StatusPaid = [StatusTicketed]"
| "transitions StatusExpired = [StatusPaid, StatusRefunding]"
| "transitions StatusCancelled = [StatusRefunding]"
| "transitions StatusRefunding = [StatusRefunded]"
| "transitions StatusTicketed = []"
| "transitions StatusRefunded = []"

text \<open>The loop over \<open>transitions[from]\<close> that returns at the first match.\<close>

fun scan_status :: "status list \<Rightarrow> status \<Rightarrow> bool" where
  "scan_status [] to = False"
| "scan_status (s # ss) to = (if s = to then True else scan_status ss to)"

definition CanTransition :: "status \<Rightarrow> status \<Rightarrow> bool" where
  "CanTransition from to = scan_status (transitions from) to"

lemma scan_status_iff [simp]: "scan_status ss to \<longleftrightarrow> to \<in> set ss"
  by (induction ss) auto

lemma CanTransition_iff: "CanTransition from to \<longleftrightarrow> to \<in> set (transitions from)"
  by (simp add: CanTransition_def)

lemma set_AllStatuses: "set AllStatuses = UNIV"
  by (auto simp: AllStatuses_def) (metis status.exhaust)

lemma status_text_inject [simp]: "status_text a = status_text b \<longleftrightarrow> a = b"
  by (cases a; cases b) simp_all

section \<open>Runs of the state machine\<close>

text \<open>Longest number of transitions left.\<close>

fun remaining :: "status \<Rightarrow> nat" where
  "remaining StatusHeld = 3"
| "remaining StatusExpired = 2"
| "remaining StatusCancelled = 2"
| "remaining StatusPaid = 1"
| "remaining StatusRefunding = 1"
| "remaining StatusTicketed = 0"
| "remaining StatusRefunded = 0"

lemma CanTransition_remaining: "CanTransition a b \<Longrightarrow> remaining b < remaining a"
  by (cases a) (auto simp: CanTransition_iff)

lemma CanTransition_irrefl [simp]: "\<not> CanTransition a a"
  using CanTransition_remaining by blast

inductive moves :: "status \<Rightarrow> nat \<Rightarrow> status \<Rightarrow> bool" where
  moves_0: "moves a 0 a"
| moves_Suc: "moves a n b \<Longrightarrow> CanTransition b c \<Longrightarrow> moves a (Suc n) c"

lemma moves_remaining: "moves a n b \<Longrightarrow> remaining b + n \<le> remaining a"
  by (induction rule: moves.induct) (auto dest: CanTransition_remaining)

abbreviation paid :: "status \<Rightarrow> bool" where
  "paid s \<equiv> s = StatusPaid \<or> s = StatusTicketed"

abbreviation refund_side :: "status \<Rightarrow> bool" where
  "refund_side s \<equiv> s = StatusRefunding \<or> s = StatusRefunded"

lemma moves_paid: "moves a n b \<Longrightarrow> paid a \<Longrightarrow> paid b"
  by (induction rule: moves.induct) (auto simp: CanTransition_iff)

lemma moves_refund: "moves a n b \<Longrightarrow> refund_side a \<Longrightarrow> refund_side b"
  by (induction rule: moves.induct) (auto simp: CanTransition_iff)

lemma stuck_iff: "(\<forall>b. \<not> CanTransition a b) \<longleftrightarrow> a = StatusTicketed \<or> a = StatusRefunded"
  by (cases a) (auto simp: CanTransition_iff)

text \<open>C16
  An order makes at most three transitions from HELD to the end of its life; a paid order stays on the
  paid branch, an order that is being refunded stays on the refund branch, and only TICKETED and
  REFUNDED are final.
\<close>

theorem lifecycle_bounded:
  assumes "moves StatusHeld n s" "moves s k s'"
  shows "n + k \<le> 3 \<and> (paid s \<longrightarrow> paid s') \<and> (refund_side s \<longrightarrow> refund_side s')
    \<and> ((\<forall>b. \<not> CanTransition s b) \<longleftrightarrow> s = StatusTicketed \<or> s = StatusRefunded)"
  using moves_remaining[OF assms(1)] moves_remaining[OF assms(2)] moves_paid[OF assms(2)]
    moves_refund[OF assms(2)] stuck_iff[of s] by simp_all

theorem lifecycle_bounded_witness:
  "moves StatusHeld 2 StatusPaid \<and> moves StatusPaid 1 StatusTicketed \<and> (2::nat) + 1 \<le> 3 \<and> paid StatusTicketed"
proof -
  have "CanTransition StatusHeld StatusExpired" "CanTransition StatusExpired StatusPaid"
    "CanTransition StatusPaid StatusTicketed" by (simp_all add: CanTransition_def)
  then have m: "moves StatusHeld 2 StatusPaid" "moves StatusPaid 1 StatusTicketed"
    using moves_Suc[OF moves_Suc[OF moves_0]] moves_Suc[OF moves_0] by (simp_all add: numeral_2_eq_2)
  show ?thesis using lifecycle_bounded[OF m] m by simp
qed

end
