(* ===== verification/Store.thy ===== *)
theory Store
  imports Effects Order_State
begin

text \<open>
  The shared state: the PostgreSQL schema of \<open>migrations\<close> as one record of tables, each a
  list of rows; the Redis keyspace; the row locks held by transactions that are still open;
  the Kafka log; and the catalog caches of the booking processes. The CHECK constraint on
  \<open>orders.status\<close> makes that column a \<open>status\<close>. \<open>ORDER BY\<close> on text is byte order.
\<close>

section \<open>Events (internal/events/events.go)\<close>

record order_event =
  ev_event_id :: int
  ev_event_type :: string
  ev_occurred_at :: time
  ev_order_id :: uuid
  ev_event :: int
  ev_user_id :: int
  ev_seat_ids :: "string list"
  ev_total_vnd :: int
  ev_provider_txn_id :: string
  ev_amount_vnd :: int
  ev_reason :: string

section \<open>PostgreSQL\<close>

record event_row =
  e_id :: int
  e_name :: string
  e_venue :: string
  e_starts_at :: time
  e_sale_opens_at :: time
  e_max_seats_per_order :: int

record seat_row =
  s_event_id :: int
  s_seat_id :: string
  s_zone :: string
  s_row_label :: string
  s_seat_no :: int
  s_price_vnd :: int

record order_row =
  o_id :: uuid
  o_event_id :: int
  o_user_id :: int
  o_status :: status
  o_total_vnd :: int
  o_idempotency_key :: string
  o_request_hash :: string
  o_hold_expires_at :: time
  o_created_at :: time
  o_updated_at :: time

record order_seat_row =
  os_order_id :: uuid
  os_event_id :: int
  os_seat_id :: string
  os_price_vnd :: int

record ticket_row =
  t_id :: uuid
  t_order_id :: uuid
  t_event_id :: int
  t_seat_id :: string
  t_qr_payload :: "string option"
  t_issued_at :: "time option"

record payment_row =
  p_provider_txn_id :: string
  p_order_id :: uuid
  p_amount_vnd :: int
  p_status :: string
  p_outcome :: string
  p_received_at :: time

record refund_row =
  r_provider_txn_id :: string
  r_order_id :: uuid
  r_amount_vnd :: int
  r_reason :: string
  r_status :: string
  r_created_at :: time
  r_completed_at :: "time option"

record outbox_row =
  ob_id :: int
  ob_topic :: string
  ob_msg_key :: string
  ob_event_type :: string
  ob_payload :: order_event
  ob_created_at :: time
  ob_published_at :: "time option"

record hold_row =
  h_event_id :: int
  h_seat_id :: string
  h_order_id :: uuid
  h_expires_at :: time

record db =
  events :: "event_row list"
  seats :: "seat_row list"
  orders :: "order_row list"
  order_seats :: "order_seat_row list"
  tickets :: "ticket_row list"
  payments :: "payment_row list"
  refunds :: "refund_row list"
  outbox :: "outbox_row list"
  outbox_seq :: int
  seat_holds :: "hold_row list"

section \<open>Redis\<close>

text \<open>
  String keys with an optional expiry instant, sorted sets as lists of (score, member) kept
  in order, and hashes. A key whose expiry has passed reads as absent.
\<close>

record redis =
  kv :: "string \<Rightarrow> (string \<times> time option) option"
  zsets :: "string \<Rightarrow> (int \<times> string) list"
  hashes :: "string \<Rightarrow> string \<Rightarrow> string option"
  r_now :: time

definition redis_get :: "redis \<Rightarrow> string \<Rightarrow> string option" where
  "redis_get r k = (case kv r k of
     None \<Rightarrow> None
   | Some (v, None) \<Rightarrow> Some v
   | Some (v, Some t) \<Rightarrow> if r_now r < t then Some v else None)"

text \<open>\<open>SET k v\<close>, \<open>SET k v PX ms\<close>, \<open>DEL k\<close>, \<open>PEXPIRE k ms\<close>.\<close>

definition redis_set :: "string \<Rightarrow> string \<Rightarrow> redis \<Rightarrow> redis" where
  "redis_set k v r = r\<lparr>kv := (kv r)(k \<mapsto> (v, None))\<rparr>"

definition redis_set_px :: "string \<Rightarrow> string \<Rightarrow> int \<Rightarrow> redis \<Rightarrow> redis" where
  "redis_set_px k v ms r = r\<lparr>kv := (kv r)(k \<mapsto> (v, Some (r_now r + ms * 1000000)))\<rparr>"

definition redis_del :: "string \<Rightarrow> redis \<Rightarrow> redis" where
  "redis_del k r = r\<lparr>kv := (kv r)(k := None)\<rparr>"

definition redis_pexpire :: "string \<Rightarrow> int \<Rightarrow> redis \<Rightarrow> redis" where
  "redis_pexpire k ms r = (case redis_get r k of None \<Rightarrow> r | Some v \<Rightarrow> redis_set_px k v ms r)"

text \<open>\<open>INCR k\<close>: a missing key counts as 0, the expiry is kept, an error changes nothing.\<close>

definition redis_incr :: "string \<Rightarrow> redis \<Rightarrow> redis \<times> int res" where
  "redis_incr k r = (case redis_get r k of
     None \<Rightarrow> (redis_set k ''1'' r, Inr 1)
   | Some v \<Rightarrow> (case parse_int v of
       None \<Rightarrow> (r, Inl [Opaque ''ERR value is not an integer''])
     | Some n \<Rightarrow>
         if in_int64 (n + 1)
         then (r\<lparr>kv := (kv r)(k \<mapsto> (format_int (n + 1), snd (the (kv r k))))\<rparr>, Inr (n + 1))
         else (r, Inl [Opaque ''ERR increment would overflow''])))"

lemma redis_get_set [simp]:
  "redis_get (redis_set k v r) k' = (if k' = k then Some v else redis_get r k')"
  by (simp add: redis_get_def redis_set_def split: option.split)

lemma redis_get_set_px:
  "redis_get (redis_set_px k v ms r) k' =
    (if k' = k then (if 0 < ms then Some v else None) else redis_get r k')"
  by (simp add: redis_get_def redis_set_px_def split: option.split)

lemma redis_get_set_px_pos [simp]:
  "0 < ms \<Longrightarrow> redis_get (redis_set_px k v ms r) k' = (if k' = k then Some v else redis_get r k')"
  by (simp add: redis_get_set_px)

lemma redis_get_del [simp]:
  "redis_get (redis_del k r) k' = (if k' = k then None else redis_get r k')"
  by (simp add: redis_get_def redis_del_def split: option.split)

lemma redis_get_incr_other [simp]: "k' \<noteq> k \<Longrightarrow> redis_get (fst (redis_incr k r)) k' = redis_get r k'"
  by (auto simp: redis_incr_def redis_get_def redis_set_def split: option.split)

section \<open>Catalog data (internal/catalog/catalog.go)\<close>

record seat =
  seat_id :: string
  seat_zone :: string
  seat_row_label :: string
  seat_no :: int
  seat_price_vnd :: int

record zone =
  zone_name :: string
  zone_price_vnd :: int
  zone_seats :: int

record event =
  event_id :: int
  event_name :: string
  event_venue :: string
  event_starts_at :: time
  event_sale_opens_at :: time
  event_max_seats_per_order :: int
  event_zones :: "zone list"
  event_seats :: "seat list"
  event_seat_ids :: "string list"
  event_by_id :: "string \<Rightarrow> nat option"

record catalog_cache =
  cached_events :: "int \<Rightarrow> event option"
  cached_sale_open :: "int \<Rightarrow> bool"

section \<open>The world\<close>

datatype row_lock = OrderRow uuid | TxnKey string | OutboxRow int

record kafka_record =
  k_topic :: string
  k_key :: string
  k_value :: "order_event option"
  k_headers :: "(string \<times> string) list"

record world =
  pg :: db
  pg_now :: time
  locks :: "row_lock list"
  rd :: redis
  kafka :: "kafka_record list"
  catalogs :: "nat \<Rightarrow> catalog_cache"

text \<open>Migrated tables with no rows, a Redis with no keys, and a deployment of both at an instant.\<close>

definition empty_db :: "int \<Rightarrow> db" where
  "empty_db n = \<lparr>events = [], seats = [], orders = [], order_seats = [], tickets = [], payments = [],
     refunds = [], outbox = [], outbox_seq = n, seat_holds = []\<rparr>"

definition empty_redis :: "time \<Rightarrow> redis" where
  "empty_redis t = \<lparr>kv = (\<lambda>_. None), zsets = (\<lambda>_. []), hashes = (\<lambda>_ _. None), r_now = t\<rparr>"

definition empty_world :: "time \<Rightarrow> world" where
  "empty_world t = \<lparr>pg = empty_db 1, pg_now = t, locks = [], rd = empty_redis t, kafka = [],
     catalogs = (\<lambda>_. \<lparr>cached_events = (\<lambda>_. None), cached_sale_open = (\<lambda>_. False)\<rparr>)\<rparr>"

text \<open>
  A transaction run as one step. \<open>now()\<close> is the database clock at its start. Rolling back
  leaves the world as it was.
\<close>

definition run_tx :: "(time \<Rightarrow> (db, 'a) tx) \<Rightarrow> world \<Rightarrow> world \<times> 'a res" where
  "run_tx body w = (case body (pg_now w) (pg w) of
     Inl e \<Rightarrow> (w, Inl e)
   | Inr (d, x) \<Rightarrow> (w\<lparr>pg := d\<rparr>, Inr x))"

definition begin_func :: "(world \<Rightarrow> bool) \<Rightarrow> (time \<Rightarrow> (db, 'a) tx) \<Rightarrow> (world, 'a res) prog" where
  "begin_func g body = call_when g (run_tx body)"

text \<open>A script or command run by Redis.\<close>

definition run_redis :: "(redis \<Rightarrow> redis \<times> 'a res) \<Rightarrow> world \<Rightarrow> world \<times> 'a res" where
  "run_redis f w = (w\<lparr>rd := fst (f (rd w))\<rparr>, snd (f (rd w)))"

definition redis_call :: "(redis \<Rightarrow> redis \<times> 'a res) \<Rightarrow> (world, 'a res) prog" where
  "redis_call f = call (run_redis f)"

text \<open>The outcomes of one transaction or script, by the fault it met.\<close>

fun tx_outcome :: "(time \<Rightarrow> (db, 'a) tx) \<Rightarrow> fault \<Rightarrow> world \<Rightarrow> world \<times> 'a res" where
  "tx_outcome body Reply w = run_tx body w"
| "tx_outcome body Fail w = (w, Inl infra_error)"
| "tx_outcome body Lost w = (fst (run_tx body w), Inl infra_error)"

fun redis_outcome :: "(redis \<Rightarrow> redis \<times> 'a res) \<Rightarrow> fault \<Rightarrow> world \<Rightarrow> world \<times> 'a res" where
  "redis_outcome f Reply w = run_redis f w"
| "redis_outcome f Fail w = (w, Inl infra_error)"
| "redis_outcome f Lost w = (fst (run_redis f w), Inl infra_error)"

lemma tx_outcome_eq: "tx_outcome body x w =
    (if x = Fail then w else fst (run_tx body w), if x = Reply then snd (run_tx body w) else Inl infra_error)"
  by (cases x) simp_all

lemma redis_outcome_eq: "redis_outcome f x w =
    (if x = Fail then w else fst (run_redis f w), if x = Reply then snd (run_redis f w) else Inl infra_error)"
  by (cases x) simp_all

lemma run_begin_func:
  "run fs w (begin_func g body) = Some (w', r) \<longleftrightarrow>
    (\<exists>x xs. fs = x # xs \<and> g w \<and> tx_outcome body x w = (w', r))"
  unfolding begin_func_def run_call_Some
  by (auto simp: tx_outcome_eq)

lemma run_bind_begin_func:
  "run fs w (bindp (begin_func g body) k) = Some (w', r) \<longleftrightarrow>
    (\<exists>x xs w1 r1. fs = x # xs \<and> g w \<and> tx_outcome body x w = (w1, r1) \<and> run xs w1 (k r1) = Some (w', r))"
  unfolding begin_func_def run_bind_call_Some
  by (auto simp: tx_outcome_eq)

lemma run_redis_call:
  "run fs w (redis_call f) = Some (w', r) \<longleftrightarrow>
    (\<exists>x xs. fs = x # xs \<and> redis_outcome f x w = (w', r))"
  unfolding redis_call_def run_call_Some
  by (auto simp: redis_outcome_eq)

lemma run_bind_redis_call:
  "run fs w (bindp (redis_call f) k) = Some (w', r) \<longleftrightarrow>
    (\<exists>x xs w1 r1. fs = x # xs \<and> redis_outcome f x w = (w1, r1) \<and> run xs w1 (k r1) = Some (w', r))"
  unfolding redis_call_def run_bind_call_Some
  by (auto simp: redis_outcome_eq)

lemma run_tx_Inl [simp]: "body (pg_now w) (pg w) = Inl e \<Longrightarrow> run_tx body w = (w, Inl e)"
  by (simp add: run_tx_def)

lemma run_tx_Inr [simp]: "body (pg_now w) (pg w) = Inr (d, x) \<Longrightarrow> run_tx body w = (w\<lparr>pg := d\<rparr>, Inr x)"
  by (simp add: run_tx_def)

lemma run_tx_pg:
  "fst (run_tx body w) = w \<or> (\<exists>d x. body (pg_now w) (pg w) = Inr (d, x) \<and> fst (run_tx body w) = w\<lparr>pg := d\<rparr>)"
  by (auto simp: run_tx_def split: sum.splits)

text \<open>A relation on databases, lifted to worlds in which Kafka stays as it is.\<close>

definition on_pg :: "(db \<Rightarrow> db \<Rightarrow> bool) \<Rightarrow> world \<Rightarrow> world \<Rightarrow> bool" where
  "on_pg R w w' \<longleftrightarrow> kafka w' = kafka w \<and> R (pg w) (pg w')"

lemma reflp_on_pg: "reflp R \<Longrightarrow> reflp (on_pg R)"
  by (simp add: on_pg_def reflp_def)

lemma guar_begin_func:
  assumes "reflp R" and "\<And>now. keeps R (body now)"
  shows "guar (on_pg R) (begin_func g body)"
  unfolding begin_func_def
proof (rule guar_call)
  show "reflp (on_pg R)" using assms(1) by (rule reflp_on_pg)
next
  fix w
  show "on_pg R w (fst (run_tx body w))"
    using run_tx_pg[of body w] reflpD[OF assms(1)] keepsD[OF assms(2)] by (auto simp: on_pg_def)
qed

lemma guar_redis_call:
  "reflp R \<Longrightarrow> guar (on_pg R) (redis_call f)"
  unfolding redis_call_def
  by (rule guar_call) (auto simp: reflp_on_pg on_pg_def run_redis_def reflp_def)

lemma read_yields:
  assumes "keeps (=) m"
  shows "yields (begin_func (\<lambda>_. True) (\<lambda>now. m)) w
    (\<lambda>w' r. w' = w \<and> (r = Inl infra_error \<or> r = snd (run_tx (\<lambda>now. m) w)))"
proof -
  have "fst (run_tx (\<lambda>now. m) w) = w"
    using assms by (cases "m (pg w)") (auto simp: run_tx_def dest: keepsD)
  then show ?thesis unfolding begin_func_def by (auto intro: yields_mono[OF yields_call])
qed

lemma pg_same_yields: "guar (on_pg (=)) p \<Longrightarrow> yields p w (\<lambda>w' x. pg w' = pg w)"
  by (rule yields_mono[OF guar_yields[where R = "on_pg (=)"]]) (auto simp: on_pg_def reflp_def transp_def)

text \<open>To run a handler on concrete tables.\<close>

lemmas tx_defs = tx_bind_def tx_return_def tx_fail_def tx_try_def tx_read_def begin_func_def redis_call_def
  run_tx_def run_redis_def

end
