(* ===== verification/Order_DB.thy ===== *)
theory Order_DB
  imports Store
begin

text \<open>
  The SQL statements of \<open>internal/order/orderdb\<close> and \<open>internal/outbox/outboxdb\<close>, one
  definition per query, with the primary keys, unique indexes, foreign keys and CHECK
  constraints of the migration. A violated constraint is the \<open>PgError\<close> PostgreSQL reports;
  unique indexes are tried in the order of their creation and foreign keys after them. \<open>schema\<close>
  collects the constraints as a predicate on the tables; the lemmas describe what each statement
  changes when it succeeds.
\<close>

type_synonym 'a dbtx = "(db, 'a) tx"

definition unique_violation :: "string \<Rightarrow> goerror" where
  "unique_violation c = [PgError ''23505'' c]"

definition fk_violation :: "string \<Rightarrow> goerror" where
  "fk_violation c = [PgError ''23503'' c]"

definition check_violation :: "string \<Rightarrow> goerror" where
  "check_violation c = [PgError ''23514'' c]"

section \<open>Orders\<close>

definition InsertHeldOrder ::
  "time \<Rightarrow> uuid \<Rightarrow> int \<Rightarrow> int \<Rightarrow> int \<Rightarrow> string \<Rightarrow> string \<Rightarrow> duration \<Rightarrow> order_row dbtx" where
  "InsertHeldOrder now oid eid uid tot key hash ttl d =
    (if oid \<in> o_id ` set (orders d) then Inl (unique_violation ''orders_pkey'')
     else if \<exists>q\<in>set (orders d). o_user_id q = uid \<and> o_idempotency_key q = key
     then Inl (unique_violation ''orders_user_id_idempotency_key_key'')
     else if \<exists>q\<in>set (orders d). o_status q = StatusHeld \<and> o_event_id q = eid \<and> o_user_id q = uid
     then Inl (unique_violation ''orders_one_held_per_user'')
     else if eid \<notin> e_id ` set (events d) then Inl (fk_violation ''orders_event_id_fkey'')
     else let r = \<lparr>o_id = oid, o_event_id = eid, o_user_id = uid, o_status = StatusHeld,
              o_total_vnd = tot, o_idempotency_key = key, o_request_hash = hash,
              o_hold_expires_at = now + ttl, o_created_at = now, o_updated_at = now\<rparr>
          in Inr (d\<lparr>orders := orders d @ [r]\<rparr>, r))"

definition order_seat_rows :: "uuid \<Rightarrow> int \<Rightarrow> string list \<Rightarrow> int list \<Rightarrow> order_seat_row list" where
  "order_seat_rows oid eid sids prices =
    map (\<lambda>(s, p). \<lparr>os_order_id = oid, os_event_id = eid, os_seat_id = s, os_price_vnd = p\<rparr>)
      (zip sids prices)"

definition os_key :: "order_seat_row \<Rightarrow> uuid \<times> string" where
  "os_key s = (os_order_id s, os_seat_id s)"

definition InsertOrderSeats :: "uuid \<Rightarrow> int \<Rightarrow> string list \<Rightarrow> int list \<Rightarrow> unit dbtx" where
  "InsertOrderSeats oid eid sids prices d =
    (let rows = order_seat_rows oid eid sids prices in
     if \<not> distinct (map os_key (order_seats d @ rows)) then Inl (unique_violation ''order_seats_pkey'')
     else if rows \<noteq> [] \<and> oid \<notin> o_id ` set (orders d)
     then Inl (fk_violation ''order_seats_order_id_fkey'')
     else if \<exists>r\<in>set rows. (eid, os_seat_id r) \<notin> (\<lambda>s. (s_event_id s, s_seat_id s)) ` set (seats d)
     then Inl (fk_violation ''order_seats_event_id_seat_id_fkey'')
     else Inr (d\<lparr>order_seats := order_seats d @ rows\<rparr>, ()))"

text \<open>\<open>SELECT\<close> of one row; no row is \<open>pgx.ErrNoRows\<close>.\<close>

definition one_row :: "'r option \<Rightarrow> 'r dbtx" where
  "one_row r d = (case r of None \<Rightarrow> Inl [NoRows] | Some x \<Rightarrow> Inr (d, x))"

definition GetOrder :: "uuid \<Rightarrow> order_row dbtx" where
  "GetOrder oid d = one_row (row_by o_id oid (orders d)) d"

text \<open>\<open>FOR UPDATE\<close> waits for the row lock, which is the guard of the step that runs the query.\<close>

definition GetOrderForUpdate :: "uuid \<Rightarrow> order_row dbtx" where
  "GetOrderForUpdate oid d = one_row (row_by o_id oid (orders d)) d"

definition GetOrderByKey :: "int \<Rightarrow> string \<Rightarrow> order_row dbtx" where
  "GetOrderByKey uid key d =
    one_row (row_by (\<lambda>q. (o_user_id q, o_idempotency_key q)) (uid, key) (orders d)) d"

definition ListOrderSeats :: "uuid \<Rightarrow> (string \<times> int) list dbtx" where
  "ListOrderSeats oid = tx_read (\<lambda>d.
     map (\<lambda>s. (os_seat_id s, os_price_vnd s))
       (sort_key os_seat_id (filter (\<lambda>s. os_order_id s = oid) (order_seats d))))"

definition TransitionOrder :: "time \<Rightarrow> uuid \<Rightarrow> status \<Rightarrow> status \<Rightarrow> order_row dbtx" where
  "TransitionOrder now oid from to d =
    (let hit = (\<lambda>q. o_id q = oid \<and> o_status q = from);
         d' = d\<lparr>orders := update_where hit (\<lambda>q. q\<lparr>o_status := to, o_updated_at := now\<rparr>) (orders d)\<rparr>
     in if \<exists>q\<in>set (orders d). hit q then one_row (row_by o_id oid (orders d')) d' else Inl [NoRows])"

definition due_orders :: "time \<Rightarrow> nat \<Rightarrow> (uuid \<Rightarrow> bool) \<Rightarrow> order_row list \<Rightarrow> order_row list" where
  "due_orders now batch locked os = take batch (sort_key o_hold_expires_at
     (filter (\<lambda>q. o_status q = StatusHeld \<and> o_hold_expires_at q < now \<and> \<not> locked (o_id q)) os))"

definition ExpireDueOrders ::
  "time \<Rightarrow> nat \<Rightarrow> (uuid \<Rightarrow> bool) \<Rightarrow> (uuid \<times> int \<times> int \<times> int) list dbtx" where
  "ExpireDueOrders now batch locked d =
    (let due = o_id ` set (due_orders now batch locked (orders d));
         hit = (\<lambda>q. o_id q \<in> due \<and> o_status q = StatusHeld)
     in Inr (d\<lparr>orders := update_where hit (\<lambda>q. q\<lparr>o_status := StatusExpired, o_updated_at := now\<rparr>) (orders d)\<rparr>,
         map (\<lambda>q. (o_id q, o_event_id q, o_user_id q, o_total_vnd q)) (filter hit (orders d))))"

definition ListSeatsOfOrders :: "uuid list \<Rightarrow> (uuid \<times> string \<times> int) list dbtx" where
  "ListSeatsOfOrders ids = tx_read (\<lambda>d.
     map (\<lambda>s. (os_order_id s, os_seat_id s, os_price_vnd s))
       (sort_key os_key (filter (\<lambda>s. os_order_id s \<in> set ids) (order_seats d))))"

definition LockOrderStatuses :: "uuid list \<Rightarrow> (uuid \<times> status) list dbtx" where
  "LockOrderStatuses ids = tx_read (\<lambda>d.
     map (\<lambda>q. (o_id q, o_status q)) (sort_key o_id (filter (\<lambda>q. o_id q \<in> set ids) (orders d))))"

definition LockOrderForPayment :: "time \<Rightarrow> uuid \<Rightarrow> (order_row \<times> bool) dbtx" where
  "LockOrderForPayment now oid d = (case row_by o_id oid (orders d) of
     None \<Rightarrow> Inl [NoRows]
   | Some q \<Rightarrow> Inr (d, (q, now \<le> o_hold_expires_at q)))"

section \<open>Payments, tickets, refunds\<close>

definition InsertPayment :: "time \<Rightarrow> string \<Rightarrow> uuid \<Rightarrow> int \<Rightarrow> string \<Rightarrow> string dbtx" where
  "InsertPayment now txn oid amount st d =
    (if st \<notin> {''SUCCEEDED'', ''FAILED''} then Inl (check_violation ''payments_status_check'')
     else if txn \<in> p_provider_txn_id ` set (payments d) then Inl [NoRows]
     else if oid \<notin> o_id ` set (orders d) then Inl (fk_violation ''payments_order_id_fkey'')
     else Inr (d\<lparr>payments := payments d @ [\<lparr>p_provider_txn_id = txn, p_order_id = oid,
             p_amount_vnd = amount, p_status = st, p_outcome = '''', p_received_at = now\<rparr>]\<rparr>, txn))"

definition SetPaymentOutcome :: "string \<Rightarrow> string \<Rightarrow> unit dbtx" where
  "SetPaymentOutcome txn oc d =
    Inr (d\<lparr>payments := update_where (\<lambda>p. p_provider_txn_id p = txn) (\<lambda>p. p\<lparr>p_outcome := oc\<rparr>) (payments d)\<rparr>, ())"

definition ticket_rows :: "uuid list \<Rightarrow> uuid \<Rightarrow> int \<Rightarrow> string list \<Rightarrow> ticket_row list" where
  "ticket_rows ids oid eid sids =
    map (\<lambda>(i, s). \<lparr>t_id = i, t_order_id = oid, t_event_id = eid, t_seat_id = s,
       t_qr_payload = None, t_issued_at = None\<rparr>) (zip ids sids)"

definition t_key :: "ticket_row \<Rightarrow> int \<times> string" where
  "t_key t = (t_event_id t, t_seat_id t)"

definition InsertTickets :: "uuid list \<Rightarrow> uuid \<Rightarrow> int \<Rightarrow> string list \<Rightarrow> unit dbtx" where
  "InsertTickets ids oid eid sids d =
    (let rows = ticket_rows ids oid eid sids in
     if \<not> distinct (map t_id (tickets d @ rows)) then Inl (unique_violation ''tickets_pkey'')
     else if \<not> distinct (map t_key (tickets d @ rows))
     then Inl (unique_violation ''tickets_event_id_seat_id_key'')
     else if rows \<noteq> [] \<and> oid \<notin> o_id ` set (orders d) then Inl (fk_violation ''tickets_order_id_fkey'')
     else Inr (d\<lparr>tickets := tickets d @ rows\<rparr>, ()))"

definition InsertRefund :: "time \<Rightarrow> string \<Rightarrow> uuid \<Rightarrow> int \<Rightarrow> string \<Rightarrow> unit dbtx" where
  "InsertRefund now txn oid amount reason d =
    (if txn \<in> r_provider_txn_id ` set (refunds d) then Inl (unique_violation ''refunds_pkey'')
     else if txn \<notin> p_provider_txn_id ` set (payments d)
     then Inl (fk_violation ''refunds_provider_txn_id_fkey'')
     else if oid \<notin> o_id ` set (orders d) then Inl (fk_violation ''refunds_order_id_fkey'')
     else Inr (d\<lparr>refunds := refunds d @ [\<lparr>r_provider_txn_id = txn, r_order_id = oid,
             r_amount_vnd = amount, r_reason = reason, r_status = ''PENDING'',
             r_created_at = now, r_completed_at = None\<rparr>]\<rparr>, ()))"

definition ListOrderTickets :: "uuid \<Rightarrow> ticket_row list dbtx" where
  "ListOrderTickets oid = tx_read (\<lambda>d. sort_key t_seat_id (filter (\<lambda>t. t_order_id t = oid) (tickets d)))"

definition SetTicketQR :: "time \<Rightarrow> uuid \<Rightarrow> string \<Rightarrow> unit dbtx" where
  "SetTicketQR now tid qr d =
    Inr (d\<lparr>tickets := update_where (\<lambda>t. t_id t = tid \<and> t_qr_payload t = None)
             (\<lambda>t. t\<lparr>t_qr_payload := Some qr, t_issued_at := Some now\<rparr>) (tickets d)\<rparr>, ())"

definition GetRefund :: "string \<Rightarrow> refund_row dbtx" where
  "GetRefund txn d = one_row (row_by r_provider_txn_id txn (refunds d)) d"

definition CompleteRefund :: "time \<Rightarrow> string \<Rightarrow> refund_row dbtx" where
  "CompleteRefund now txn d =
    (let hit = (\<lambda>r. r_provider_txn_id r = txn \<and> r_status r = ''PENDING'');
         d' = d\<lparr>refunds := update_where hit (\<lambda>r. r\<lparr>r_status := ''SUCCEEDED'', r_completed_at := Some now\<rparr>) (refunds d)\<rparr>
     in if \<exists>r\<in>set (refunds d). hit r then one_row (row_by r_provider_txn_id txn (refunds d')) d' else Inl [NoRows])"

section \<open>Outbox (internal/outbox)\<close>

text \<open>
  \<open>outbox.Write\<close> with \<open>InsertMessage\<close>: the id is drawn from the sequence, and event_id,
  event_type and occurred_at of the stored payload are overwritten.
\<close>

definition InsertMessage :: "time \<Rightarrow> string \<Rightarrow> string \<Rightarrow> string \<Rightarrow> order_event \<Rightarrow> int dbtx" where
  "InsertMessage now topic key ty ev d =
    (let i = outbox_seq d in
     Inr (d\<lparr>outbox_seq := i + 1, outbox := outbox d @ [\<lparr>ob_id = i, ob_topic = topic, ob_msg_key = key,
            ob_event_type = ty,
            ob_payload = ev\<lparr>ev_event_id := i, ev_event_type := ty, ev_occurred_at := now\<rparr>,
            ob_created_at = now, ob_published_at = None\<rparr>]\<rparr>, i))"

record message =
  m_topic :: string
  m_key :: string
  m_event_type :: string
  m_payload :: order_event

definition Write :: "time \<Rightarrow> message \<Rightarrow> int dbtx" where
  "Write now m = InsertMessage now (m_topic m) (m_key m) (m_event_type m) (m_payload m)"

section \<open>The schema constraints\<close>

definition held :: "order_row \<Rightarrow> bool" where
  "held q \<longleftrightarrow> o_status q = StatusHeld"

definition order_ids :: "db \<Rightarrow> uuid set" where
  "order_ids d = o_id ` set (orders d)"

definition schema_orders :: "order_row list \<Rightarrow> bool" where
  "schema_orders os \<longleftrightarrow> distinct (map o_id os)
    \<and> distinct (map (\<lambda>q. (o_user_id q, o_idempotency_key q)) os)
    \<and> distinct (map (\<lambda>q. (o_event_id q, o_user_id q)) (filter held os))"

definition schema_order_seats :: "uuid set \<Rightarrow> order_seat_row list \<Rightarrow> bool" where
  "schema_order_seats ids ss \<longleftrightarrow> distinct (map os_key ss) \<and> os_order_id ` set ss \<subseteq> ids"

definition schema_money :: "uuid set \<Rightarrow> payment_row list \<Rightarrow> refund_row list \<Rightarrow> bool" where
  "schema_money ids ps rs \<longleftrightarrow> distinct (map p_provider_txn_id ps)
    \<and> distinct (map r_provider_txn_id rs)
    \<and> r_provider_txn_id ` set rs \<subseteq> p_provider_txn_id ` set ps
    \<and> p_order_id ` set ps \<subseteq> ids \<and> r_order_id ` set rs \<subseteq> ids"

definition schema_tickets :: "uuid set \<Rightarrow> ticket_row list \<Rightarrow> bool" where
  "schema_tickets ids ts \<longleftrightarrow> distinct (map t_id ts) \<and> distinct (map t_key ts) \<and> t_order_id ` set ts \<subseteq> ids"

definition schema_outbox :: "int \<Rightarrow> outbox_row list \<Rightarrow> bool" where
  "schema_outbox n ms \<longleftrightarrow> distinct (map ob_id ms) \<and> (\<forall>m\<in>set ms. ob_id m < n)"

definition schema :: "db \<Rightarrow> bool" where
  "schema d \<longleftrightarrow> schema_orders (orders d)
    \<and> schema_order_seats (order_ids d) (order_seats d)
    \<and> schema_money (order_ids d) (payments d) (refunds d)
    \<and> schema_tickets (order_ids d) (tickets d)
    \<and> schema_outbox (outbox_seq d) (outbox d)"

lemma order_ids_append [simp]: "order_ids (d\<lparr>orders := orders d @ rs\<rparr>) = order_ids d \<union> o_id ` set rs"
  by (simp add: order_ids_def image_Un)

lemma order_ids_update [simp]:
  "(\<And>r. o_id (f r) = o_id r) \<Longrightarrow> order_ids (d\<lparr>orders := update_where hit f (orders d)\<rparr>) = order_ids d"
  by (simp add: order_ids_def image_update_where)

lemma order_ids_frame [simp]:
  "order_ids (d\<lparr>order_seats := a\<rparr>) = order_ids d" "order_ids (d\<lparr>tickets := b\<rparr>) = order_ids d"
  "order_ids (d\<lparr>payments := c\<rparr>) = order_ids d" "order_ids (d\<lparr>refunds := e\<rparr>) = order_ids d"
  "order_ids (d\<lparr>outbox := f\<rparr>) = order_ids d" "order_ids (d\<lparr>outbox_seq := n\<rparr>) = order_ids d"
  "order_ids (d\<lparr>seat_holds := h\<rparr>) = order_ids d"
  by (simp_all add: order_ids_def)

lemma schema_order_seats_mono: "ids \<subseteq> ids' \<Longrightarrow> schema_order_seats ids ss \<Longrightarrow> schema_order_seats ids' ss"
  by (auto simp: schema_order_seats_def)

lemma schema_money_mono: "ids \<subseteq> ids' \<Longrightarrow> schema_money ids ps rs \<Longrightarrow> schema_money ids' ps rs"
  by (simp add: schema_money_def) blast

lemma schema_tickets_mono: "ids \<subseteq> ids' \<Longrightarrow> schema_tickets ids ts \<Longrightarrow> schema_tickets ids' ts"
  by (auto simp: schema_tickets_def)

section \<open>What the statements change\<close>

lemma one_row_Inr [simp]: "one_row x d = Inr (d', r) \<longleftrightarrow> x = Some r \<and> d' = d"
  by (auto simp: one_row_def split: option.splits)

lemma one_row_Inl [simp]: "one_row x d = Inl e \<longleftrightarrow> x = None \<and> e = [NoRows]"
  by (auto simp: one_row_def split: option.splits)

lemma GetOrder_Inr [simp]:
  "GetOrder i d = Inr (d', r) \<longleftrightarrow> d' = d \<and> row_by o_id i (orders d) = Some r"
  by (auto simp: GetOrder_def)

lemma GetOrderForUpdate_Inr [simp]:
  "GetOrderForUpdate i d = Inr (d', r) \<longleftrightarrow> d' = d \<and> row_by o_id i (orders d) = Some r"
  by (auto simp: GetOrderForUpdate_def)

lemma GetOrderForUpdate_Inl [simp]:
  "GetOrderForUpdate i d = Inl e \<longleftrightarrow> row_by o_id i (orders d) = None \<and> e = [NoRows]"
  by (auto simp: GetOrderForUpdate_def)

lemma schema_add_order:
  assumes "schema d" and "o_id r \<notin> o_id ` set (orders d)"
    and "(o_user_id r, o_idempotency_key r) \<notin> (\<lambda>q. (o_user_id q, o_idempotency_key q)) ` set (orders d)"
    and "(o_event_id r, o_user_id r) \<notin> (\<lambda>q. (o_event_id q, o_user_id q)) ` set (filter held (orders d))"
  shows "schema (d\<lparr>orders := orders d @ [r]\<rparr>)"
proof -
  have "schema_orders (orders d @ [r])"
    using assms unfolding schema_def schema_orders_def
    by (simp only: map_append filter_append distinct_append list.map filter.simps) (simp del: set_filter)
  then show ?thesis
    using assms(1) unfolding schema_def
    by simp (blast intro: schema_order_seats_mono schema_money_mono schema_tickets_mono)
qed

lemma schema_status_update:
  assumes "schema d" and "to \<noteq> StatusHeld"
  shows "schema (d\<lparr>orders := update_where hit (\<lambda>r. r\<lparr>o_status := to, o_updated_at := now\<rparr>) (orders d)\<rparr>)"
proof -
  have "schema_orders (update_where hit (\<lambda>r. r\<lparr>o_status := to, o_updated_at := now\<rparr>) (orders d))"
    using assms by (auto simp: schema_def schema_orders_def held_def map_update_where
        intro!: distinct_map_filter_update)
  then show ?thesis using assms(1) by (simp add: schema_def)
qed

definition held_order_row :: "time \<Rightarrow> uuid \<Rightarrow> int \<Rightarrow> int \<Rightarrow> int \<Rightarrow> string \<Rightarrow> string \<Rightarrow> duration \<Rightarrow> order_row" where
  "held_order_row now i e u t k h ttl = \<lparr>o_id = i, o_event_id = e, o_user_id = u, o_status = StatusHeld,
     o_total_vnd = t, o_idempotency_key = k, o_request_hash = h,
     o_hold_expires_at = now + ttl, o_created_at = now, o_updated_at = now\<rparr>"

lemma InsertHeldOrder_InrD:
  assumes "InsertHeldOrder now i e u t k h ttl d = Inr (d', x)"
  shows "x = held_order_row now i e u t k h ttl \<and> d' = d\<lparr>orders := orders d @ [x]\<rparr>
    \<and> i \<notin> order_ids d \<and> (u, k) \<notin> (\<lambda>q. (o_user_id q, o_idempotency_key q)) ` set (orders d)
    \<and> (e, u) \<notin> (\<lambda>q. (o_event_id q, o_user_id q)) ` set (filter held (orders d))
    \<and> e \<in> e_id ` set (events d)"
  using assms
  by (auto simp: InsertHeldOrder_def Let_def held_order_row_def order_ids_def held_def split: if_splits)

lemma InsertOrderSeats_InrD:
  assumes "InsertOrderSeats i e ss ps d = Inr (d', x)"
  shows "d' = d\<lparr>order_seats := order_seats d @ order_seat_rows i e ss ps\<rparr>
    \<and> distinct (map os_key (order_seats d @ order_seat_rows i e ss ps))
    \<and> (order_seat_rows i e ss ps \<noteq> [] \<longrightarrow> i \<in> order_ids d)"
  using assms by (auto simp: InsertOrderSeats_def Let_def order_ids_def simp del: distinct_append map_append split: if_splits)

lemma order_seat_rows_order: "r \<in> set (order_seat_rows i e ss ps) \<Longrightarrow> os_order_id r = i"
  by (auto simp: order_seat_rows_def)

lemma InsertPayment_InrD:
  assumes "InsertPayment now txn i a st d = Inr (d', x)"
  shows "d' = d\<lparr>payments := payments d @ [\<lparr>p_provider_txn_id = txn, p_order_id = i, p_amount_vnd = a,
             p_status = st, p_outcome = '''', p_received_at = now\<rparr>]\<rparr>
    \<and> (st = ''SUCCEEDED'' \<or> st = ''FAILED'') \<and> txn \<notin> p_provider_txn_id ` set (payments d) \<and> i \<in> order_ids d"
  using assms by (auto simp: InsertPayment_def order_ids_def split: if_splits)

lemma InsertTickets_InrD:
  assumes "InsertTickets ids i e ss d = Inr (d', x)"
  shows "d' = d\<lparr>tickets := tickets d @ ticket_rows ids i e ss\<rparr>
    \<and> distinct (map t_id (tickets d @ ticket_rows ids i e ss))
    \<and> distinct (map t_key (tickets d @ ticket_rows ids i e ss))
    \<and> (ticket_rows ids i e ss \<noteq> [] \<longrightarrow> i \<in> order_ids d)"
  using assms by (auto simp: InsertTickets_def Let_def order_ids_def simp del: distinct_append map_append split: if_splits)

lemma ticket_rows_order: "t \<in> set (ticket_rows ids i e ss) \<Longrightarrow> t_order_id t = i \<and> t_event_id t = e \<and> t_qr_payload t = None"
  by (auto simp: ticket_rows_def)

lemma InsertRefund_InrD:
  assumes "InsertRefund now txn i a r d = Inr (d', x)"
  shows "d' = d\<lparr>refunds := refunds d @ [\<lparr>r_provider_txn_id = txn, r_order_id = i, r_amount_vnd = a,
             r_reason = r, r_status = ''PENDING'', r_created_at = now, r_completed_at = None\<rparr>]\<rparr>
    \<and> txn \<notin> r_provider_txn_id ` set (refunds d) \<and> txn \<in> p_provider_txn_id ` set (payments d)
    \<and> i \<in> order_ids d"
  using assms by (auto simp: InsertRefund_def order_ids_def split: if_splits)

lemma CompleteRefund_InrD:
  assumes "CompleteRefund now txn d = Inr (d', x)"
  shows "d' = d\<lparr>refunds := update_where (\<lambda>r. r_provider_txn_id r = txn \<and> r_status r = ''PENDING'')
           (\<lambda>r. r\<lparr>r_status := ''SUCCEEDED'', r_completed_at := Some now\<rparr>) (refunds d)\<rparr>
    \<and> row_by r_provider_txn_id txn (refunds d') = Some x
    \<and> (\<exists>r\<in>set (refunds d). r_provider_txn_id r = txn \<and> r_status r = ''PENDING'')"
  using assms by (auto simp: CompleteRefund_def Let_def split: if_splits)

end
