(* ===== verification/Inventory.thy ===== *)
theory Inventory
  imports Order_DB
begin

text \<open>
  The seat inventory, \<open>internal/inventory/inventory.go\<close>. The Go interface is a record of
  operations, each a program; the order service takes such a record as an argument. The
  contract written in the comments of the interface is the locale \<open>inventory_contract\<close>,
  stated over an abstraction \<open>owner\<close> that says to whom a seat belongs. The lemmas of the
  locale are what the callers rely on: exclusive holds, idempotence, and sales that last.
\<close>

datatype SeatStatus = Available | Held | Sold

record inventory =
  inv_Hold :: "int \<Rightarrow> string list \<Rightarrow> uuid \<Rightarrow> duration \<Rightarrow> (world, string list res) prog"
  inv_Release :: "int \<Rightarrow> string list \<Rightarrow> uuid \<Rightarrow> (world, unit res) prog"
  inv_Confirm :: "int \<Rightarrow> string list \<Rightarrow> uuid \<Rightarrow> (world, unit res) prog"
  inv_Status :: "int \<Rightarrow> string list \<Rightarrow> (world, (string \<Rightarrow> SeatStatus option) res) prog"
  inv_SeatMapVersion :: "(int \<Rightarrow> (world, int res) prog) option"

section \<open>What a backend may touch\<close>

text \<open>Only the table of holds and the Redis keyspace.\<close>

definition inv_frame :: "world \<Rightarrow> world \<Rightarrow> bool" where
  "inv_frame w w' \<longleftrightarrow> (\<exists>h r. w' = w\<lparr>pg := (pg w)\<lparr>seat_holds := h\<rparr>, rd := r\<rparr>)"

lemma inv_frame_refl [simp]: "inv_frame w w"
  unfolding inv_frame_def by (rule exI[of _ "seat_holds (pg w)"], rule exI[of _ "rd w"]) simp

lemma inv_frame_rd [simp]: "inv_frame w (w\<lparr>rd := r\<rparr>)"
  unfolding inv_frame_def by (rule exI[of _ "seat_holds (pg w)"], rule exI[of _ r]) simp

lemma reflp_inv_frame [simp]: "reflp inv_frame"
  by (simp add: reflp_def)

lemma transp_inv_frame [simp]: "transp inv_frame"
  unfolding transp_def inv_frame_def by fastforce

lemma inv_frame_pg: "inv_frame w w' \<Longrightarrow> \<exists>h. pg w' = (pg w)\<lparr>seat_holds := h\<rparr>"
  by (auto simp: inv_frame_def)

lemma inv_frame_same:
  assumes "inv_frame w w'"
  shows "locks w' = locks w" "kafka w' = kafka w" "catalogs w' = catalogs w" "pg_now w' = pg_now w"
  using assms by (auto simp: inv_frame_def)

lemma inv_frame_on_pg:
  assumes "guar inv_frame p" and "\<And>d h. R d (d\<lparr>seat_holds := h\<rparr>)"
  shows "guar (on_pg R) p"
  using assms(1) by (rule guar_mono) (metis assms(2) inv_frame_pg inv_frame_same(2) on_pg_def)

lemma guar_frame_redis [guar_intros]: "guar inv_frame (redis_call f)"
  unfolding redis_call_def by (rule guar_call) (simp_all add: run_redis_def)

definition holds_only :: "db \<Rightarrow> db \<Rightarrow> bool" where
  "holds_only d d' \<longleftrightarrow> (\<exists>h. d' = d\<lparr>seat_holds := h\<rparr>)"

lemma holds_only_refl [simp]: "holds_only d d"
  unfolding holds_only_def by (rule exI[of _ "seat_holds d"]) simp

lemma reflp_holds_only [simp]: "reflp holds_only"
  by (simp add: reflp_def)

lemma transp_holds_only [simp]: "transp holds_only"
  by (auto simp: transp_def holds_only_def)

lemma guar_frame_begin_func [guar_intros]:
  assumes "\<And>now. keeps holds_only (body now)"
  shows "guar inv_frame (begin_func g body)"
  unfolding begin_func_def
proof (rule guar_call)
  fix w
  consider "fst (run_tx body w) = w"
    | d x where "body (pg_now w) (pg w) = Inr (d, x)" "fst (run_tx body w) = w\<lparr>pg := d\<rparr>"
    using run_tx_pg by blast
  then show "inv_frame w (fst (run_tx body w))"
  proof cases
    case 2
    then obtain h where "d = (pg w)\<lparr>seat_holds := h\<rparr>" using keepsD[OF assms 2(1)] by (auto simp: holds_only_def)
    then show ?thesis unfolding 2 inv_frame_def by (intro exI[of _ h] exI[of _ "rd w"]) simp
  qed simp
qed simp

section \<open>Owners of seats\<close>

datatype seat_owner = Free | HeldBy uuid | SoldTo uuid

fun public_status :: "seat_owner \<Rightarrow> SeatStatus" where
  "public_status Free = Available"
| "public_status (HeldBy q) = Held"
| "public_status (SoldTo q) = Sold"

definition free_for :: "uuid \<Rightarrow> seat_owner \<Rightarrow> bool" where
  "free_for oid x \<longleftrightarrow> x = Free \<or> x = HeldBy oid"

definition of_another :: "uuid \<Rightarrow> seat_owner \<Rightarrow> bool" where
  "of_another oid x \<longleftrightarrow> x \<noteq> Free \<and> x \<noteq> HeldBy oid \<and> x \<noteq> SoldTo oid"

text \<open>The operations as data, to speak of sequences of them.\<close>

datatype inv_op =
    OpHold int "string list" uuid duration
  | OpRelease int "string list" uuid
  | OpConfirm int "string list" uuid

fun op_order :: "inv_op \<Rightarrow> uuid" where
  "op_order (OpHold e ss q ttl) = q"
| "op_order (OpRelease e ss q) = q"
| "op_order (OpConfirm e ss q) = q"

fun op_ok :: "inv_op \<Rightarrow> bool" where
  "op_ok (OpHold e ss q ttl) = (distinct ss \<and> 0 < ttl)"
| "op_ok (OpRelease e ss q) = distinct ss"
| "op_ok (OpConfirm e ss q) = distinct ss"

fun inv_prog :: "inventory \<Rightarrow> inv_op \<Rightarrow> (world, unit) prog" where
  "inv_prog iv (OpHold e ss q ttl) = bindp (inv_Hold iv e ss q ttl) (\<lambda>_. Ret ())"
| "inv_prog iv (OpRelease e ss q) = bindp (inv_Release iv e ss q) (\<lambda>_. Ret ())"
| "inv_prog iv (OpConfirm e ss q) = bindp (inv_Confirm iv e ss q) (\<lambda>_. Ret ())"

text \<open>A history: operations one after the other, each with the faults it met.\<close>

fun run_ops :: "inventory \<Rightarrow> (fault list \<times> inv_op) list \<Rightarrow> world \<Rightarrow> world option" where
  "run_ops iv [] w = Some w"
| "run_ops iv ((fs, a) # as) w = (case run fs w (inv_prog iv a) of
     None \<Rightarrow> None
   | Some (w', _) \<Rightarrow> run_ops iv as w')"

lemma run_bind_Ret_Some:
  "run fs w (bindp p (\<lambda>_. Ret ())) = Some (w', u) \<Longrightarrow> \<exists>r. run fs w p = Some (w', r)"
proof (induction p arbitrary: fs w)
  case (Ret a)
  then show ?case by (cases fs) auto
next
  case (Step g e c)
  then show ?case by (cases fs) (auto split: if_splits)
qed

section \<open>The contract\<close>

locale inventory_contract =
  fixes iv :: inventory
    and owner :: "world \<Rightarrow> int \<Rightarrow> string \<Rightarrow> seat_owner"
    and ok :: "world \<Rightarrow> bool"
  assumes Hold_frame [guar_intros]: "guar inv_frame (inv_Hold iv e ss q ttl)"
    and Release_frame [guar_intros]: "guar inv_frame (inv_Release iv e ss q)"
    and Confirm_frame [guar_intros]: "guar inv_frame (inv_Confirm iv e ss q)"
    and Status_frame [guar_intros]: "guar inv_frame (inv_Status iv e ss)"
    and Hold_answer: "ok w \<Longrightarrow> distinct ss \<Longrightarrow> 0 < ttl
      \<Longrightarrow> run fs w (inv_Hold iv e ss q ttl) = Some (w', Inr taken)
      \<Longrightarrow> set taken = {s \<in> set ss. \<not> free_for q (owner w e s)}
        \<and> (\<forall>e' s. owner w' e' s = (if taken = [] \<and> e' = e \<and> s \<in> set ss then HeldBy q else owner w e' s))"
    and Hold_error: "ok w \<Longrightarrow> distinct ss \<Longrightarrow> 0 < ttl
      \<Longrightarrow> run fs w (inv_Hold iv e ss q ttl) = Some (w', Inl err)
      \<Longrightarrow> owner w' = owner w
        \<or> ((\<forall>s\<in>set ss. free_for q (owner w e s))
           \<and> (\<forall>e' s. owner w' e' s = (if e' = e \<and> s \<in> set ss then HeldBy q else owner w e' s)))"
    and Release_answer: "ok w \<Longrightarrow> distinct ss
      \<Longrightarrow> run fs w (inv_Release iv e ss q) = Some (w', r)
      \<Longrightarrow> (\<forall>e' s. owner w' e' s = (if e' = e \<and> s \<in> set ss \<and> owner w e s = HeldBy q then Free else owner w e' s))
        \<or> (owner w' = owner w \<and> (\<exists>err. r = Inl err))"
    and Confirm_answer: "ok w \<Longrightarrow> distinct ss
      \<Longrightarrow> run fs w (inv_Confirm iv e ss q) = Some (w', Inr u)
      \<Longrightarrow> owner w' e' s = (if e' = e \<and> s \<in> set ss then SoldTo q else owner w e' s)"
    and Confirm_others: "ok w \<Longrightarrow> distinct ss
      \<Longrightarrow> run fs w (inv_Confirm iv e ss q) = Some (w', r)
      \<Longrightarrow> of_another q (owner w e' s) \<or> e' \<noteq> e \<or> s \<notin> set ss \<Longrightarrow> owner w' e' s = owner w e' s"
    and Status_answer: "ok w \<Longrightarrow> distinct ss
      \<Longrightarrow> run fs w (inv_Status iv e ss) = Some (w', Inr m)
      \<Longrightarrow> w' = w \<and> m = (\<lambda>s. if s \<in> set ss then Some (public_status (owner w e s)) else None)"
    and ok_ops: "op_ok a \<Longrightarrow> ok w \<Longrightarrow> run fs w (inv_prog iv a) = Some (w', u) \<Longrightarrow> ok w'"
begin

lemma hold_refused:
  assumes "ok w" "distinct ss" "0 < ttl" "run fs w (inv_Hold iv e ss q ttl) = Some (w', Inr taken)"
    and "s \<in> set ss" "\<not> free_for q (owner w e s)"
  shows "s \<in> set taken \<and> owner w' = owner w"
proof -
  have "s \<in> set taken" using Hold_answer[OF assms(1-4)] assms(5,6) by blast
  then show ?thesis using Hold_answer[OF assms(1-4)] by (auto simp: fun_eq_iff)
qed

lemma hold_again:
  assumes "ok w" "distinct ss" "0 < ttl" "0 < ttl'"
    and "run fs w (inv_Hold iv e ss q ttl) = Some (w', Inr [])" "ok w'"
    and "run fs' w' (inv_Hold iv e ss q ttl') = Some (w'', Inr taken)"
  shows "taken = [] \<and> owner w'' = owner w'"
proof -
  have h: "s \<in> set ss \<Longrightarrow> owner w' e s = HeldBy q" for s
    using Hold_answer[OF assms(1,2,3,5)] by simp
  have t: "taken = []"
    using Hold_answer[OF assms(6,2,4,7)] h by (simp add: free_for_def flip: set_empty)
  then show ?thesis using Hold_answer[OF assms(6,2,4,7)] h by (auto simp: fun_eq_iff)
qed

lemma hold_keeps:
  assumes "ok w" "distinct ss" "0 < ttl" "run fs w (inv_Hold iv e' ss q ttl) = Some (w', r)"
    and "\<not> free_for q (owner w e s)"
  shows "owner w' e s = owner w e s"
proof (cases r)
  case (Inl err)
  show ?thesis using Hold_error[OF assms(1-3), of fs e' q w' err] assms(4,5) Inl by (cases "e' = e") auto
next
  case (Inr taken)
  show ?thesis
  proof (cases "e' = e \<and> s \<in> set ss")
    case True
    then show ?thesis using hold_refused[OF assms(1-3), of fs e' q w' taken s] assms(4,5) Inr by simp
  next
    case False
    then show ?thesis using Hold_answer[OF assms(1-3), of fs e' q w' taken] assms(4) Inr by auto
  qed
qed

text \<open>No operation of another order changes the owner of a seat that is held or sold.\<close>

lemma op_of_another_order:
  assumes "ok w" "op_ok a" "run fs w (inv_prog iv a) = Some (w', u)"
    and "of_another (op_order a) (owner w e s)"
  shows "owner w' e s = owner w e s"
proof (cases a)
  case (OpHold e' ss q ttl)
  then obtain r where r: "run fs w (inv_Hold iv e' ss q ttl) = Some (w', r)"
    using assms(3) run_bind_Ret_Some by fastforce
  have "\<not> free_for q (owner w e s)" and ss: "distinct ss" "0 < ttl"
    using assms(2,4) OpHold by (auto simp: free_for_def of_another_def)
  then show ?thesis using hold_keeps[OF assms(1) ss r] by simp
next
  case (OpRelease e' ss q)
  then obtain r where "run fs w (inv_Release iv e' ss q) = Some (w', r)"
    using assms(3) run_bind_Ret_Some by fastforce
  then show ?thesis using Release_answer[OF assms(1), of ss fs e' q w' r] assms(2,4) OpRelease
    by (auto simp: of_another_def)
next
  case (OpConfirm e' ss q)
  then obtain r where "run fs w (inv_Confirm iv e' ss q) = Some (w', r)"
    using assms(3) run_bind_Ret_Some by fastforce
  then show ?thesis using Confirm_others[OF assms(1), of ss fs e' q w' r e s] assms(2,4) OpConfirm
    by (cases "e = e'") auto
qed

lemma history_keeps_owner:
  assumes "run_ops iv as w = Some w'" "ok w" "\<forall>(fs, a) \<in> set as. op_ok a \<and> of_another (op_order a) (owner w e s)"
  shows "owner w' e s = owner w e s \<and> ok w'"
  using assms
proof (induction as arbitrary: w)
  case Nil
  then show ?case by simp
next
  case (Cons b as)
  obtain fs a where b: "b = (fs, a)" by (cases b)
  obtain w1 u where w1: "run fs w (inv_prog iv a) = Some (w1, u)" and rest: "run_ops iv as w1 = Some w'"
    using Cons.prems(1) b by (auto split: option.splits)
  have o: "owner w1 e s = owner w e s" using op_of_another_order[OF Cons.prems(2) _ w1] Cons.prems(3) b by simp
  have k: "ok w1" using ok_ops[OF _ Cons.prems(2) w1] Cons.prems(3) b by simp
  show ?case using Cons.IH[OF rest k] Cons.prems(3) o by auto
qed

lemma history_hold_refused:
  assumes "run_ops iv as w = Some w1" "ok w"
    and "\<forall>(fs, a) \<in> set as. op_ok a \<and> of_another (op_order a) (owner w e s)"
    and "of_another q (owner w e s)" "s \<in> set ss" "distinct ss" "0 < ttl"
    and "run fs w1 (inv_Hold iv e ss q ttl) = Some (w2, Inr taken)"
  shows "s \<in> set taken \<and> owner w2 e s = owner w e s"
proof -
  have h: "owner w1 e s = owner w e s" "ok w1" using history_keeps_owner[OF assms(1-3)] by auto
  have "\<not> free_for q (owner w1 e s)" using assms(4) h(1) by (auto simp: of_another_def free_for_def)
  then show ?thesis using hold_refused[OF h(2) assms(6,7,8,5)] h(1) by simp
qed

lemma sold_for_good:
  assumes "ok w" "distinct ss" "run fs w (inv_Confirm iv e ss q) = Some (w1, Inr u)" "ok w1" "s \<in> set ss"
    and "op_ok a" "run fs' w1 (inv_prog iv a) = Some (w2, u')"
    and "\<not> (\<exists>e' ss'. a = OpConfirm e' ss' q)"
  shows "owner w2 e s = SoldTo q"
proof -
  have o: "owner w1 e s = SoldTo q" using Confirm_answer[OF assms(1-3)] assms(5) by simp
  show ?thesis
  proof (cases "op_order a = q")
    case False
    then show ?thesis using op_of_another_order[OF assms(4,6,7), of e s] o by (auto simp: of_another_def)
  next
    case True
    show ?thesis
    proof (cases a)
      case (OpHold e' ss' q' ttl)
      then obtain r where r: "run fs' w1 (inv_Hold iv e' ss' q' ttl) = Some (w2, r)"
        using assms(7) run_bind_Ret_Some by fastforce
      have "\<not> free_for q' (owner w1 e s)" and ss: "distinct ss'" "0 < ttl"
        using assms(6) OpHold o by (auto simp: free_for_def)
      then show ?thesis using hold_keeps[OF assms(4) ss r] o by simp
    next
      case (OpRelease e' ss' q')
      then obtain r where "run fs' w1 (inv_Release iv e' ss' q') = Some (w2, r)"
        using assms(7) run_bind_Ret_Some by fastforce
      then show ?thesis using Release_answer[OF assms(4), of ss' fs' e' q' w2 r] o assms(6) OpRelease by auto
    next
      case (OpConfirm e' ss' q')
      then show ?thesis using assms(8) True by auto
    qed
  qed
qed

lemma frame_on_pg:
  assumes "\<And>d h. R d (d\<lparr>seat_holds := h\<rparr>)"
  shows "guar (on_pg R) (inv_Hold iv e ss q ttl)" "guar (on_pg R) (inv_Release iv e ss q)"
    "guar (on_pg R) (inv_Confirm iv e ss q)" "guar (on_pg R) (inv_Status iv e ss)"
  by (rule inv_frame_on_pg, rule Hold_frame Release_frame Confirm_frame Status_frame, rule assms)+

end

end
