(* ===== verification/Inventory_PG.thy ===== *)
theory Inventory_PG
  imports Inventory "HOL-Library.Multiset"
begin

text \<open>
  The PostgreSQL backend, \<open>internal/inventory/pg.go\<close>, over the statements of
  \<open>internal/inventory/inventorydb\<close>. \<open>Hold\<close> is one transaction; its row locks on \<open>seats\<close>
  are held only inside that step. \<open>Confirm\<close> is two statements, so other programs may run in
  between. The theory ends with the interpretation of the contract.
\<close>

section \<open>Statements\<close>

definition LockSeats :: "int \<Rightarrow> string list \<Rightarrow> string list dbtx" where
  "LockSeats eid sids = tx_read (\<lambda>d.
     sort (map s_seat_id (filter (\<lambda>s. s_event_id s = eid \<and> s_seat_id s \<in> set sids) (seats d))))"

definition live_holds :: "time \<Rightarrow> int \<Rightarrow> string list \<Rightarrow> db \<Rightarrow> hold_row list" where
  "live_holds now eid sids d =
    filter (\<lambda>h. h_event_id h = eid \<and> h_seat_id h \<in> set sids \<and> now < h_expires_at h) (seat_holds d)"

definition event_tickets :: "int \<Rightarrow> string list \<Rightarrow> db \<Rightarrow> ticket_row list" where
  "event_tickets eid sids d = filter (\<lambda>t. t_event_id t = eid \<and> t_seat_id t \<in> set sids) (tickets d)"

definition TakenSeats :: "time \<Rightarrow> int \<Rightarrow> string list \<Rightarrow> uuid \<Rightarrow> string list dbtx" where
  "TakenSeats now eid sids oid = tx_read (\<lambda>d. sort (remdups
     (map h_seat_id (filter (\<lambda>h. h_order_id h \<noteq> oid) (live_holds now eid sids d))
      @ map t_seat_id (event_tickets eid sids d))))"

definition h_key :: "hold_row \<Rightarrow> int \<times> string" where
  "h_key h = (h_event_id h, h_seat_id h)"

definition upsert_rows :: "int \<Rightarrow> string list \<Rightarrow> uuid \<Rightarrow> time \<Rightarrow> hold_row list \<Rightarrow> hold_row list" where
  "upsert_rows eid sids oid expires hs =
    update_where (\<lambda>h. h_event_id h = eid \<and> h_seat_id h \<in> set sids)
      (\<lambda>h. h\<lparr>h_order_id := oid, h_expires_at := expires\<rparr>) hs
    @ map (\<lambda>s. \<lparr>h_event_id = eid, h_seat_id = s, h_order_id = oid, h_expires_at = expires\<rparr>)
        (filter (\<lambda>s. (eid, s) \<notin> h_key ` set hs) sids)"

text \<open>\<open>ON CONFLICT DO UPDATE\<close> refuses to touch a row twice in one command (code 21000).\<close>

definition UpsertHolds :: "time \<Rightarrow> int \<Rightarrow> uuid \<Rightarrow> duration \<Rightarrow> string list \<Rightarrow> unit dbtx" where
  "UpsertHolds now eid oid ttl sids d =
    (if \<not> distinct sids then Inl [PgError ''21000'' '''']
     else Inr (d\<lparr>seat_holds := upsert_rows eid sids oid (now + ttl) (seat_holds d)\<rparr>, ()))"

definition DeleteHolds :: "int \<Rightarrow> string list \<Rightarrow> uuid \<Rightarrow> int dbtx" where
  "DeleteHolds eid sids oid d =
    (let hit = (\<lambda>h. h_event_id h = eid \<and> h_seat_id h \<in> set sids \<and> h_order_id h = oid)
     in Inr (d\<lparr>seat_holds := delete_where hit (seat_holds d)\<rparr>, int (length (filter hit (seat_holds d)))))"

definition CountOrderTickets :: "int \<Rightarrow> string list \<Rightarrow> uuid \<Rightarrow> int dbtx" where
  "CountOrderTickets eid sids oid = tx_read (\<lambda>d.
     int (length (filter (\<lambda>t. t_order_id t = oid) (event_tickets eid sids d))))"

definition status_rows :: "time \<Rightarrow> int \<Rightarrow> string list \<Rightarrow> db \<Rightarrow> (string \<times> SeatStatus) list" where
  "status_rows now eid sids d =
     map (\<lambda>t. (t_seat_id t, Sold)) (event_tickets eid sids d)
     @ map (\<lambda>h. (h_seat_id h, Held)) (live_holds now eid sids d)"

definition SeatStatuses :: "time \<Rightarrow> int \<Rightarrow> string list \<Rightarrow> (string \<times> SeatStatus) list dbtx" where
  "SeatStatuses now eid sids = tx_read (status_rows now eid sids)"

section \<open>Operations\<close>

definition pg_hold_tx :: "int \<Rightarrow> string list \<Rightarrow> uuid \<Rightarrow> duration \<Rightarrow> time \<Rightarrow> string list dbtx" where
  "pg_hold_tx eid sids oid ttl now =
    tx_bind (LockSeats eid sids) (\<lambda>locked.
      if length locked \<noteq> length sids then tx_fail [ErrUnknownSeat]
      else tx_bind (TakenSeats now eid sids oid) (\<lambda>taken.
        if taken \<noteq> [] then tx_return taken
        else tx_bind (UpsertHolds now eid oid ttl sids) (\<lambda>_. tx_return taken)))"

definition pg_Hold :: "int \<Rightarrow> string list \<Rightarrow> uuid \<Rightarrow> duration \<Rightarrow> (world, string list res) prog" where
  "pg_Hold eid sids oid ttl = begin_func (\<lambda>_. True) (pg_hold_tx eid sids oid ttl)"

definition pg_Release :: "int \<Rightarrow> string list \<Rightarrow> uuid \<Rightarrow> (world, unit res) prog" where
  "pg_Release eid sids oid =
    bindp (begin_func (\<lambda>_. True) (\<lambda>now. DeleteHolds eid sids oid)) (\<lambda>r.
      case r of Inl e \<Rightarrow> Ret (Inl e) | Inr n \<Rightarrow> Ret (Inr ()))"

definition pg_Confirm :: "int \<Rightarrow> string list \<Rightarrow> uuid \<Rightarrow> (world, unit res) prog" where
  "pg_Confirm eid sids oid =
    bindp (begin_func (\<lambda>_. True) (\<lambda>now. CountOrderTickets eid sids oid)) (\<lambda>r.
      case r of Inl e \<Rightarrow> Ret (Inl e)
      | Inr n \<Rightarrow>
          if n \<noteq> int (length sids) then Ret (Inl [ErrConfirmMismatch])
          else bindp (begin_func (\<lambda>_. True) (\<lambda>now. DeleteHolds eid sids oid)) (\<lambda>r.
            case r of Inl e \<Rightarrow> Ret (Inl e) | Inr n \<Rightarrow> Ret (Inr ())))"

text \<open>The two loops of \<open>Status\<close> that fill the map.\<close>

fun mark_available :: "string list \<Rightarrow> (string \<Rightarrow> SeatStatus option) \<Rightarrow> string \<Rightarrow> SeatStatus option" where
  "mark_available [] out = out"
| "mark_available (s # ss) out = mark_available ss (out(s \<mapsto> Available))"

fun mark_rows :: "(string \<times> SeatStatus) list \<Rightarrow> (string \<Rightarrow> SeatStatus option) \<Rightarrow> string \<Rightarrow> SeatStatus option" where
  "mark_rows [] out = out"
| "mark_rows ((s, st) # rs) out =
    (if out s = Some Sold then mark_rows rs out else mark_rows rs (out(s \<mapsto> st)))"

definition pg_Status :: "int \<Rightarrow> string list \<Rightarrow> (world, (string \<Rightarrow> SeatStatus option) res) prog" where
  "pg_Status eid sids =
    bindp (begin_func (\<lambda>_. True) (\<lambda>now. SeatStatuses now eid sids)) (\<lambda>r.
      case r of Inl e \<Rightarrow> Ret (Inl e)
      | Inr rows \<Rightarrow> Ret (Inr (mark_rows rows (mark_available sids Map.empty))))"

definition NewPG :: inventory where
  "NewPG = \<lparr>inv_Hold = pg_Hold, inv_Release = pg_Release, inv_Confirm = pg_Confirm,
     inv_Status = pg_Status, inv_SeatMapVersion = None\<rparr>"

section \<open>Who owns a seat\<close>

definition pg_owner :: "world \<Rightarrow> int \<Rightarrow> string \<Rightarrow> seat_owner" where
  "pg_owner w e s = (case row_by t_key (e, s) (tickets (pg w)) of
     Some t \<Rightarrow> SoldTo (t_order_id t)
   | None \<Rightarrow> (case row_by h_key (e, s) (seat_holds (pg w)) of
       Some h \<Rightarrow> if pg_now w < h_expires_at h then HeldBy (h_order_id h) else Free
     | None \<Rightarrow> Free))"

text \<open>The primary key of \<open>seat_holds\<close> and the unique index on \<open>tickets\<close>.\<close>

definition pg_ok :: "world \<Rightarrow> bool" where
  "pg_ok w \<longleftrightarrow> distinct (map h_key (seat_holds (pg w))) \<and> distinct (map t_key (tickets (pg w)))"

lemma sold_iff:
  "s \<in> set ss \<Longrightarrow>
    s \<in> t_seat_id ` set (event_tickets e ss d) \<longleftrightarrow> row_by t_key (e, s) (tickets d) \<noteq> None"
  by (force simp: event_tickets_def t_key_def row_by_None_iff)

lemma live_iff:
  assumes "distinct (map h_key (seat_holds d))"
  shows "(\<exists>h\<in>set (live_holds now e ss d). s = h_seat_id h \<and> P h) \<longleftrightarrow> s \<in> set ss
    \<and> (\<exists>h. row_by h_key (e, s) (seat_holds d) = Some h \<and> now < h_expires_at h \<and> P h)"
  by (auto simp: live_holds_def row_by_Some_iff[OF assms] h_key_def)

text \<open>The effect of the two writing statements, seat by seat.\<close>

lemma row_by_new_holds:
  "row_by h_key (e', s) (map (\<lambda>s. \<lparr>h_event_id = e, h_seat_id = s, h_order_id = q, h_expires_at = x\<rparr>) ss)
    = (if e' = e \<and> s \<in> set ss then Some \<lparr>h_event_id = e, h_seat_id = s, h_order_id = q, h_expires_at = x\<rparr>
       else None)"
  by (induction ss) (auto simp: h_key_def)

lemma upsert_lookup:
  "row_by h_key (e', s) (upsert_rows e ss q x hs) = (if e' = e \<and> s \<in> set ss
     then Some \<lparr>h_event_id = e, h_seat_id = s, h_order_id = q, h_expires_at = x\<rparr>
     else row_by h_key (e', s) hs)"
proof -
  have u: "row_by h_key k (update_where P (\<lambda>h. h\<lparr>h_order_id := q, h_expires_at := x\<rparr>) hs)
    = map_option (\<lambda>h. if P h then h\<lparr>h_order_id := q, h_expires_at := x\<rparr> else h) (row_by h_key k hs)" for k P
    by (rule row_by_update_where) (simp add: h_key_def)
  show ?thesis
  proof (cases "row_by h_key (e', s) hs")
    case None
    then have "(e', s) \<notin> h_key ` set hs" by (simp add: row_by_None_iff)
    with None show ?thesis by (cases "e' = e"; cases "s \<in> set ss") (simp_all add: upsert_rows_def row_by_append u row_by_new_holds)
  next
    case (Some h)
    then have "h_key h = (e', s)" by (blast dest: row_by_SomeD)
    with Some show ?thesis
      by (cases h) (simp add: upsert_rows_def row_by_append u h_key_def)
  qed
qed

lemma upsert_distinct:
  assumes "distinct (map h_key hs)" "distinct ss"
  shows "distinct (map h_key (upsert_rows e ss q x hs))"
proof -
  have k: "map h_key (update_where (\<lambda>h. h_event_id h = e \<and> h_seat_id h \<in> set ss)
      (\<lambda>h. h\<lparr>h_order_id := q, h_expires_at := x\<rparr>) hs) = map h_key hs"
    by (simp add: map_update_where h_key_def)
  have n: "map h_key (map (\<lambda>s. \<lparr>h_event_id = e, h_seat_id = s, h_order_id = q, h_expires_at = x\<rparr>) zs)
      = map (Pair e) zs" for zs by (simp add: h_key_def)
  have "distinct (map (Pair e) (filter (\<lambda>s. (e, s) \<notin> h_key ` set hs) ss))"
    using assms(2) by (simp add: distinct_map inj_on_def)
  then show ?thesis unfolding upsert_rows_def map_append k n using assms(1) by auto
qed

lemma delete_lookup:
  "distinct (map h_key hs) \<Longrightarrow>
   row_by h_key (e', s) (delete_where (\<lambda>h. h_event_id h = e \<and> h_seat_id h \<in> set ss \<and> h_order_id h = q) hs)
    = (case row_by h_key (e', s) hs of
         Some h \<Rightarrow> if e' = e \<and> s \<in> set ss \<and> h_order_id h = q then None else Some h
       | None \<Rightarrow> None)"
  by (induction hs) (auto simp: delete_where_def h_key_def row_by_None_iff split: option.split)

lemma delete_distinct: "distinct (map h_key hs) \<Longrightarrow> distinct (map h_key (delete_where P hs))"
  by (simp add: delete_where_def distinct_map_filter)

section \<open>The contract\<close>

lemma TakenSeats_eq:
  assumes "distinct (map h_key (seat_holds (pg w)))"
  shows "set (sort (remdups (map h_seat_id (filter (\<lambda>h. h_order_id h \<noteq> q) (live_holds (pg_now w) e ss (pg w)))
      @ map t_seat_id (event_tickets e ss (pg w)))))
    = {s \<in> set ss. \<not> free_for q (pg_owner w e s)}" (is "?L = ?R")
proof -
  have "s \<in> ?L \<longleftrightarrow> s \<in> ?R" for s
  proof (cases "s \<in> set ss")
    case True
    have "s \<in> ?L \<longleftrightarrow> (\<exists>h\<in>set (live_holds (pg_now w) e ss (pg w)). s = h_seat_id h \<and> h_order_id h \<noteq> q)
        \<or> s \<in> t_seat_id ` set (event_tickets e ss (pg w))" by auto
    also have "\<dots> \<longleftrightarrow> s \<in> ?R" using True
      by (simp add: live_iff[OF assms] sold_iff pg_owner_def free_for_def split: option.split)
    finally show ?thesis .
  next
    case False
    then show ?thesis by (auto simp: live_holds_def event_tickets_def)
  qed
  then show ?thesis by blast
qed

lemma pg_hold_cases:
  assumes "pg_ok w" "distinct ss"
  obtains (unknown) "pg_hold_tx e ss q ttl (pg_now w) (pg w) = Inl [ErrUnknownSeat]"
  | (taken) taken where "pg_hold_tx e ss q ttl (pg_now w) (pg w) = Inr (pg w, taken)" "taken \<noteq> []"
      "set taken = {s \<in> set ss. \<not> free_for q (pg_owner w e s)}"
  | (held) "pg_hold_tx e ss q ttl (pg_now w) (pg w)
        = Inr ((pg w)\<lparr>seat_holds := upsert_rows e ss q (pg_now w + ttl) (seat_holds (pg w))\<rparr>, [])"
      "\<forall>s \<in> set ss. free_for q (pg_owner w e s)"
proof -
  let ?t = "sort (remdups (map h_seat_id (filter (\<lambda>h. h_order_id h \<noteq> q) (live_holds (pg_now w) e ss (pg w)))
      @ map t_seat_id (event_tickets e ss (pg w))))"
  have t: "set ?t = {s \<in> set ss. \<not> free_for q (pg_owner w e s)}"
    using assms(1) by (intro TakenSeats_eq) (simp add: pg_ok_def)
  let ?l = "length (filter (\<lambda>s. s_event_id s = e \<and> s_seat_id s \<in> set ss) (seats (pg w))) = length ss"
  have run: "pg_hold_tx e ss q ttl (pg_now w) (pg w) =
    (if \<not> ?l then Inl [ErrUnknownSeat] else if ?t \<noteq> [] then Inr (pg w, ?t)
     else Inr ((pg w)\<lparr>seat_holds := upsert_rows e ss q (pg_now w + ttl) (seat_holds (pg w))\<rparr>, []))"
    using assms(2) unfolding pg_hold_tx_def
    by (simp add: tx_bind_def LockSeats_def TakenSeats_def UpsertHolds_def tx_read_def tx_fail_def tx_return_def
        del: remdups_append)
  consider "\<not> ?l" | "?l" "?t \<noteq> []" | "?l" "?t = []" by blast
  then show ?thesis
  proof cases
    case 1
    then show ?thesis using run unknown by simp
  next
    case 2
    then show ?thesis using run taken[of ?t] t by simp
  next
    case 3
    then have "\<forall>s \<in> set ss. free_for q (pg_owner w e s)" using t by (metis (no_types, lifting) empty_iff list.set(1) mem_Collect_eq)
    then show ?thesis using run held 3 by simp
  qed
qed

lemma pg_owner_upsert:
  assumes "0 < ttl" "\<forall>s \<in> set ss. free_for q (pg_owner w e s)"
  shows "pg_owner (w\<lparr>pg := (pg w)\<lparr>seat_holds := upsert_rows e ss q (pg_now w + ttl) (seat_holds (pg w))\<rparr>\<rparr>) e' s
    = (if e' = e \<and> s \<in> set ss then HeldBy q else pg_owner w e' s)"
proof (cases "e' = e \<and> s \<in> set ss")
  case True
  then have "row_by t_key (e, s) (tickets (pg w)) = None"
    using assms(2) by (auto simp: pg_owner_def free_for_def split: option.splits)
  with True assms(1) show ?thesis by (simp add: pg_owner_def upsert_lookup)
next
  case False
  then show ?thesis by (auto simp: pg_owner_def upsert_lookup split: option.split)
qed

lemma pg_owner_delete:
  assumes "pg_ok w"
  shows "pg_owner (w\<lparr>pg := (pg w)\<lparr>seat_holds := delete_where
      (\<lambda>h. h_event_id h = e \<and> h_seat_id h \<in> set ss \<and> h_order_id h = q) (seat_holds (pg w))\<rparr>\<rparr>) e' s
    = (if e' = e \<and> s \<in> set ss \<and> pg_owner w e s = HeldBy q then Free else pg_owner w e' s)"
  using assms by (auto simp: pg_owner_def pg_ok_def delete_lookup split: option.split)

lemma ticketed_owner:
  assumes "pg_ok w" "distinct ss" "s \<in> set ss"
    and "length (filter (\<lambda>t. t_order_id t = q) (event_tickets e ss (pg w))) = length ss"
  shows "pg_owner w e s = SoldTo q"
proof -
  let ?ts = "filter (\<lambda>t. t_order_id t = q) (event_tickets e ss (pg w))"
  have k: "distinct (map t_key (tickets (pg w)))" using assms(1) by (simp add: pg_ok_def)
  have "inj_on t_seat_id (set ?ts)"
    using distinct_key_eq[OF k] by (auto simp: inj_on_def event_tickets_def t_key_def)
  moreover have "distinct ?ts" using k by (simp add: event_tickets_def distinct_map)
  ultimately have "card (t_seat_id ` set ?ts) = card (set ss)"
    using assms(2,4) by (simp only: card_image distinct_card)
  moreover have "t_seat_id ` set ?ts \<subseteq> set ss" by (auto simp: event_tickets_def)
  ultimately have "t_seat_id ` set ?ts = set ss" by (simp add: card_subset_eq)
  then obtain t where "t \<in> set (tickets (pg w))" "t_order_id t = q" "t_key t = (e, s)"
    using assms(3) by (force simp: event_tickets_def t_key_def)
  then show ?thesis using row_by_in[OF k, of t] by (simp add: pg_owner_def)
qed

text \<open>The answer of \<open>Status\<close> does not depend on the order of the rows: a ticket outranks a hold.\<close>

lemma mark_available_eq: "mark_available ss out s = (if s \<in> set ss then Some Available else out s)"
  by (induction ss arbitrary: out) auto

lemma mark_rows_eq:
  "\<forall>(s, st) \<in> set rows. st = Sold \<or> st = Held \<Longrightarrow>
   mark_rows rows out s = (if out s = Some Sold \<or> (s, Sold) \<in> set rows then Some Sold
     else if (s, Held) \<in> set rows then Some Held else out s)"
proof (induction rows arbitrary: out s)
  case Nil
  then show ?case by simp
next
  case (Cons r rs)
  obtain s' st where r: "r = (s', st)" by (cases r)
  have IH: "mark_rows rs out s = (if out s = Some Sold \<or> (s, Sold) \<in> set rs then Some Sold
     else if (s, Held) \<in> set rs then Some Held else out s)" for out s
    using Cons by auto
  have "st = Sold \<or> st = Held" using Cons.prems r by auto
  then show ?case by (auto simp: r IH)
qed

lemma SeatStatuses_owner:
  assumes "pg_ok w" "s \<in> set ss"
  shows "(s, Sold) \<in> set (status_rows (pg_now w) e ss (pg w)) \<longleftrightarrow> public_status (pg_owner w e s) = Sold"
    and "(s, Sold) \<notin> set (status_rows (pg_now w) e ss (pg w)) \<Longrightarrow> (s, Held) \<in> set (status_rows (pg_now w) e ss (pg w)) \<longleftrightarrow> public_status (pg_owner w e s) = Held"
proof -
  have k: "distinct (map h_key (seat_holds (pg w)))" using assms(1) by (simp add: pg_ok_def)
  have sold: "(s, Sold) \<in> set (status_rows (pg_now w) e ss (pg w)) \<longleftrightarrow> row_by t_key (e, s) (tickets (pg w)) \<noteq> None"
    using sold_iff[OF assms(2), of e "pg w"] by (auto simp: status_rows_def)
  then show "(s, Sold) \<in> set (status_rows (pg_now w) e ss (pg w)) \<longleftrightarrow> public_status (pg_owner w e s) = Sold"
    by (auto simp: pg_owner_def split: option.split)
  have "(s, Held) \<in> set (status_rows (pg_now w) e ss (pg w)) \<longleftrightarrow> (\<exists>h\<in>set (live_holds (pg_now w) e ss (pg w)). s = h_seat_id h \<and> True)"
    by (auto simp: status_rows_def)
  then have "(s, Held) \<in> set (status_rows (pg_now w) e ss (pg w)) \<longleftrightarrow> (\<exists>h. row_by h_key (e, s) (seat_holds (pg w)) = Some h \<and> pg_now w < h_expires_at h)"
    using assms(2) by (simp only: live_iff[OF k]) simp
  then show "(s, Sold) \<notin> set (status_rows (pg_now w) e ss (pg w)) \<Longrightarrow> (s, Held) \<in> set (status_rows (pg_now w) e ss (pg w)) \<longleftrightarrow> public_status (pg_owner w e s) = Held"
    using sold by (auto simp: pg_owner_def split: option.split)
qed

lemma mark_rows_owner:
  assumes "pg_ok w" "mset rows = mset (status_rows (pg_now w) e ss (pg w))"
  shows "mark_rows rows (mark_available ss Map.empty)
    = (\<lambda>s. if s \<in> set ss then Some (public_status (pg_owner w e s)) else None)"
proof
  fix s
  let ?rows = "status_rows (pg_now w) e ss (pg w)"
  have set: "set rows = set ?rows" using assms(2) by (metis set_mset_mset)
  have "\<forall>(s, st) \<in> set rows. st = Sold \<or> st = Held" unfolding set status_rows_def by auto
  note m = mark_rows_eq[OF this]
  show "mark_rows rows (mark_available ss Map.empty) s
    = (if s \<in> set ss then Some (public_status (pg_owner w e s)) else None)"
  proof (cases "s \<in> set ss")
    case True
    note o = SeatStatuses_owner[OF assms(1) True, of e]
    show ?thesis unfolding m mark_available_eq set using True o
      by (cases "public_status (pg_owner w e s)") simp_all
  next
    case False
    then have "(s, st) \<notin> set ?rows" for st by (auto simp: status_rows_def event_tickets_def live_holds_def)
    then show ?thesis unfolding m mark_available_eq set using False by simp
  qed
qed

lemma pg_ok_frame: "pg_ok (w\<lparr>pg := (pg w)\<lparr>seat_holds := hs\<rparr>\<rparr>) \<longleftrightarrow>
    distinct (map h_key hs) \<and> distinct (map t_key (tickets (pg w)))"
  by (simp add: pg_ok_def)

text \<open>Every run of an operation, with the faults it may meet.\<close>

lemma pg_Hold_run:
  assumes "pg_ok w" "distinct ss" "0 < ttl" "run fs w (pg_Hold e ss q ttl) = Some (w', r)"
  shows "pg_ok w' \<and> ((pg_owner w' = pg_owner w \<and> (case r of Inl err \<Rightarrow> True | Inr taken \<Rightarrow> taken \<noteq> []
             \<and> set taken = {s \<in> set ss. \<not> free_for q (pg_owner w e s)}))
    \<or> ((\<forall>s\<in>set ss. free_for q (pg_owner w e s)) \<and> (case r of Inl err \<Rightarrow> True | Inr taken \<Rightarrow> taken = [])
       \<and> (\<forall>e' s. pg_owner w' e' s = (if e' = e \<and> s \<in> set ss then HeldBy q else pg_owner w e' s))))"
proof -
  obtain x where x: "tx_outcome (pg_hold_tx e ss q ttl) x w = (w', r)"
    using assms(4) by (auto simp: pg_Hold_def run_begin_func)
  show ?thesis
  proof (cases e q ttl rule: pg_hold_cases[OF assms(1,2)])
    case 1
    then show ?thesis using x assms(1) by (cases x) auto
  next
    case (2 taken)
    then show ?thesis using x assms(1) by (cases x) auto
  next
    case 3
    have "pg_ok (w\<lparr>pg := (pg w)\<lparr>seat_holds := upsert_rows e ss q (pg_now w + ttl) (seat_holds (pg w))\<rparr>\<rparr>)"
      using assms(1,2) by (simp add: pg_ok_def upsert_distinct)
    then show ?thesis using x 3 assms(1) pg_owner_upsert[OF assms(3) 3(2)] by (cases x) auto
  qed
qed

lemma delete_holds_run:
  assumes "pg_ok w" "tx_outcome (\<lambda>now. DeleteHolds e ss q) x w = (w', r)"
  shows "pg_ok w' \<and> tickets (pg w') = tickets (pg w) \<and> ((pg_owner w' = pg_owner w \<and> (\<exists>err. r = Inl err))
    \<or> (\<forall>e' s. pg_owner w' e' s
        = (if e' = e \<and> s \<in> set ss \<and> pg_owner w e s = HeldBy q then Free else pg_owner w e' s)))"
proof -
  let ?w = "w\<lparr>pg := (pg w)\<lparr>seat_holds := delete_where
      (\<lambda>h. h_event_id h = e \<and> h_seat_id h \<in> set ss \<and> h_order_id h = q) (seat_holds (pg w))\<rparr>\<rparr>"
  have "pg_ok ?w" using assms(1) by (simp add: pg_ok_def delete_distinct)
  moreover have "w' = ?w \<or> (w' = w \<and> (\<exists>err. r = Inl err))"
    using assms(2) by (cases x) (auto simp: run_tx_def DeleteHolds_def Let_def)
  ultimately show ?thesis using assms(1) pg_owner_delete[OF assms(1), of e ss q] by auto
qed

lemma pg_Release_run:
  assumes "pg_ok w" "run fs w (pg_Release e ss q) = Some (w', r)"
  shows "pg_ok w' \<and> ((pg_owner w' = pg_owner w \<and> (\<exists>err. r = Inl err))
    \<or> (\<forall>e' s. pg_owner w' e' s
        = (if e' = e \<and> s \<in> set ss \<and> pg_owner w e s = HeldBy q then Free else pg_owner w e' s)))"
proof -
  obtain x xs w1 r1 where x: "tx_outcome (\<lambda>now. DeleteHolds e ss q) x w = (w1, r1)"
    and r: "run xs w1 (case r1 of Inl e \<Rightarrow> Ret (Inl e) | Inr n \<Rightarrow> Ret (Inr ())) = Some (w', r)"
    using assms(2) unfolding pg_Release_def run_bind_begin_func by blast
  show ?thesis using delete_holds_run[OF assms(1) x] r by (cases r1) auto
qed

lemma pg_Confirm_run:
  assumes "pg_ok w" "distinct ss" "run fs w (pg_Confirm e ss q) = Some (w', r)"
  shows "pg_ok w' \<and> ((pg_owner w' = pg_owner w \<and> (\<exists>err. r = Inl err))
    \<or> (pg_owner w' = pg_owner w \<and> (\<forall>s \<in> set ss. pg_owner w e s = SoldTo q)))"
proof -
  let ?n = "int (length (filter (\<lambda>t. t_order_id t = q) (event_tickets e ss (pg w))))"
  have count: "tx_outcome (\<lambda>now. CountOrderTickets e ss q) x w
      = (w, case x of Reply \<Rightarrow> Inr ?n | _ \<Rightarrow> Inl infra_error)" for x
    by (cases x) (simp_all add: run_tx_def CountOrderTickets_def tx_read_def)
  let ?k = "\<lambda>r1. case r1 of Inl e \<Rightarrow> Ret (Inl e) | Inr n \<Rightarrow> Ret (Inr ())"
  obtain x xs where "run xs w (case (case x of Reply \<Rightarrow> Inr ?n | _ \<Rightarrow> Inl infra_error) of
        Inl e \<Rightarrow> Ret (Inl e)
      | Inr n \<Rightarrow> if n \<noteq> int (length ss) then Ret (Inl [ErrConfirmMismatch])
          else bindp (begin_func (\<lambda>_. True) (\<lambda>now. DeleteHolds e ss q)) ?k) = Some (w', r)"
    using assms(3) unfolding pg_Confirm_def run_bind_begin_func count by blast
  then consider "w' = w" "\<exists>err. r = Inl err"
    | "?n = int (length ss)" "run xs w (bindp (begin_func (\<lambda>_. True) (\<lambda>now. DeleteHolds e ss q)) ?k) = Some (w', r)"
    by (cases x) (auto split: if_splits)
  then show ?thesis
  proof cases
    case 1
    then show ?thesis using assms(1) by auto
  next
    case 2
    obtain y ys w1 r1 where y: "tx_outcome (\<lambda>now. DeleteHolds e ss q) y w = (w1, r1)"
      and "run ys w1 (?k r1) = Some (w', r)"
      using 2(2) unfolding run_bind_begin_func by blast
    then have "w1 = w'" by (cases r1) simp_all
    with y have del: "tx_outcome (\<lambda>now. DeleteHolds e ss q) y w = (w', r1)" by simp
    have sold: "\<forall>s \<in> set ss. pg_owner w e s = SoldTo q"
      using ticketed_owner[OF assms(1,2)] 2(1) by simp
    then have "pg_owner w' = pg_owner w" using delete_holds_run[OF assms(1) del] by (auto simp: fun_eq_iff)
    then show ?thesis using sold delete_holds_run[OF assms(1) del] by simp
  qed
qed

lemma pg_Status_run:
  assumes "pg_ok w" "run fs w (pg_Status e ss) = Some (w', Inr m)"
  shows "w' = w \<and> m = (\<lambda>s. if s \<in> set ss then Some (public_status (pg_owner w e s)) else None)"
proof -
  have st: "tx_outcome (\<lambda>now. SeatStatuses now e ss) x w
      = (w, case x of Reply \<Rightarrow> Inr (status_rows (pg_now w) e ss (pg w)) | _ \<Rightarrow> Inl infra_error)" for x
    by (cases x) (simp_all add: run_tx_def SeatStatuses_def tx_read_def)
  obtain x xs where "run xs w (case (case x of Reply \<Rightarrow> Inr (status_rows (pg_now w) e ss (pg w)) | _ \<Rightarrow> Inl infra_error)
      of Inl e \<Rightarrow> Ret (Inl e)
      | Inr rows \<Rightarrow> Ret (Inr (mark_rows rows (mark_available ss Map.empty)))) = Some (w', Inr m)"
    using assms(2) unfolding pg_Status_def run_bind_begin_func st by blast
  then show ?thesis using mark_rows_owner[OF assms(1) refl, of e ss] by (cases x) auto
qed

lemma keeps_holds_only [keeps_intros]:
  "keeps holds_only (LockSeats e ss)" "keeps holds_only (TakenSeats now e ss q)"
  "keeps holds_only (UpsertHolds now e q ttl ss)" "keeps holds_only (DeleteHolds e ss q)"
  "keeps holds_only (CountOrderTickets e ss q)" "keeps holds_only (SeatStatuses now e ss)"
  by (auto simp: LockSeats_def TakenSeats_def CountOrderTickets_def SeatStatuses_def keeps_read)
    (auto simp: keeps_def holds_only_def UpsertHolds_def DeleteHolds_def Let_def)

lemma pg_frames:
  "guar inv_frame (pg_Hold e ss q ttl)" "guar inv_frame (pg_Release e ss q)"
  "guar inv_frame (pg_Confirm e ss q)" "guar inv_frame (pg_Status e ss)"
  unfolding pg_Hold_def pg_Release_def pg_Confirm_def pg_Status_def pg_hold_tx_def
  by (auto intro!: guar_intros keeps_intros keeps_bind keeps_return split: sum.split)

interpretation pg_inv: inventory_contract NewPG pg_owner pg_ok
proof
  show "guar inv_frame (inv_Hold NewPG e ss q ttl)" for e ss q ttl by (simp add: NewPG_def pg_frames)
  show "guar inv_frame (inv_Release NewPG e ss q)" for e ss q by (simp add: NewPG_def pg_frames)
  show "guar inv_frame (inv_Confirm NewPG e ss q)" for e ss q by (simp add: NewPG_def pg_frames)
  show "guar inv_frame (inv_Status NewPG e ss)" for e ss by (simp add: NewPG_def pg_frames)
  fix w w' :: world and ss :: "string list" and fs e q and ttl :: duration and taken
  assume a: "pg_ok w" "distinct ss" "0 < ttl" "run fs w (inv_Hold NewPG e ss q ttl) = Some (w', Inr taken)"
  show "set taken = {s \<in> set ss. \<not> free_for q (pg_owner w e s)} \<and>
     (\<forall>e' s. pg_owner w' e' s = (if taken = [] \<and> e' = e \<and> s \<in> set ss then HeldBy q else pg_owner w e' s))"
    using pg_Hold_run[OF a(1-3), of fs e q w' "Inr taken"] a(4) by (auto simp: NewPG_def)
next
  fix w w' :: world and ss :: "string list" and fs e q and ttl :: duration and err
  assume a: "pg_ok w" "distinct ss" "0 < ttl" "run fs w (inv_Hold NewPG e ss q ttl) = Some (w', Inl err)"
  show "pg_owner w' = pg_owner w \<or> (\<forall>s\<in>set ss. free_for q (pg_owner w e s)) \<and>
     (\<forall>e' s. pg_owner w' e' s = (if e' = e \<and> s \<in> set ss then HeldBy q else pg_owner w e' s))"
    using pg_Hold_run[OF a(1-3), of fs e q w' "Inl err"] a(4) by (auto simp: NewPG_def)
next
  fix w w' :: world and ss :: "string list" and fs e q r
  assume a: "pg_ok w" "distinct ss" "run fs w (inv_Release NewPG e ss q) = Some (w', r)"
  show "(\<forall>e' s. pg_owner w' e' s = (if e' = e \<and> s \<in> set ss \<and> pg_owner w e s = HeldBy q then Free else pg_owner w e' s))
     \<or> pg_owner w' = pg_owner w \<and> (\<exists>err. r = Inl err)"
    using pg_Release_run[OF a(1), of fs e ss q w' r] a(3) by (auto simp: NewPG_def)
next
  fix w w' :: world and ss :: "string list" and fs e q u e' s
  assume a: "pg_ok w" "distinct ss" "run fs w (inv_Confirm NewPG e ss q) = Some (w', Inr u)"
  show "pg_owner w' e' s = (if e' = e \<and> s \<in> set ss then SoldTo q else pg_owner w e' s)"
    using pg_Confirm_run[OF a(1,2), of fs e q w' "Inr u"] a(3) by (auto simp: NewPG_def)
next
  fix w w' :: world and ss :: "string list" and fs e q r e' s
  assume a: "pg_ok w" "distinct ss" "run fs w (inv_Confirm NewPG e ss q) = Some (w', r)"
  show "pg_owner w' e' s = pg_owner w e' s"
    using pg_Confirm_run[OF a(1,2), of fs e q w' r] a(3) by (auto simp: NewPG_def)
next
  fix w w' :: world and ss :: "string list" and fs e m
  assume "pg_ok w" "run fs w (inv_Status NewPG e ss) = Some (w', Inr m)"
  then show "w' = w \<and> m = (\<lambda>s. if s \<in> set ss then Some (public_status (pg_owner w e s)) else None)"
    by (simp add: NewPG_def pg_Status_run)
next
  fix a w w' fs u
  assume a: "op_ok a" "pg_ok w" "run fs w (inv_prog NewPG a) = Some (w', u)"
  show "pg_ok w'"
  proof (cases a)
    case (OpHold e ss q ttl)
    then obtain r where "run fs w (pg_Hold e ss q ttl) = Some (w', r)"
      using a(3) run_bind_Ret_Some[of fs w "pg_Hold e ss q ttl" w'] by (auto simp: NewPG_def)
    then show ?thesis using pg_Hold_run[OF a(2), of ss ttl fs e q w' r] a(1) OpHold by simp
  next
    case (OpRelease e ss q)
    then obtain r where "run fs w (pg_Release e ss q) = Some (w', r)"
      using a(3) run_bind_Ret_Some[of fs w "pg_Release e ss q" w'] by (auto simp: NewPG_def)
    then show ?thesis using pg_Release_run[OF a(2), of fs e ss q w' r] by simp
  next
    case (OpConfirm e ss q)
    then obtain r where "run fs w (pg_Confirm e ss q) = Some (w', r)"
      using a(3) run_bind_Ret_Some[of fs w "pg_Confirm e ss q" w'] by (auto simp: NewPG_def)
    then show ?thesis using pg_Confirm_run[OF a(2), of ss fs e q w' r] a(1) OpConfirm by simp
  qed
qed

end
