(* ===== verification/Inventory_Redis.thy ===== *)
theory Inventory_Redis
  imports Inventory
begin

text \<open>
  The Redis backend, \<open>internal/inventory/redis.go\<close>, with the scripts \<open>hold.lua\<close>,
  \<open>release.lua\<close> and \<open>confirm.lua\<close>. A script is one atomic step; the bump of the seat map
  version that follows it is another, whose error is only logged. The theory ends with the
  interpretation of the contract.
\<close>

section \<open>Keys\<close>

definition statusBatchSize :: nat where
  "statusBatchSize = 500"

definition seatKeyPrefix :: "int \<Rightarrow> string" where
  "seatKeyPrefix eid = ''seat:{'' @ format_int eid @ ''}:''"

definition seatKeys :: "int \<Rightarrow> string list \<Rightarrow> string list" where
  "seatKeys eid sids = map (\<lambda>s. seatKeyPrefix eid @ s) sids"

definition versionKey :: "int \<Rightarrow> string" where
  "versionKey eid = ''seatmap:{'' @ format_int eid @ ''}:version''"

section \<open>Scripts\<close>

text \<open>A script reply \<open>{n, s1, s2, ...}\<close> is a number with strings.\<close>

definition hold_lua :: "string list \<Rightarrow> uuid \<Rightarrow> int \<Rightarrow> redis \<Rightarrow> redis \<times> (int \<times> string list) res" where
  "hold_lua keys oid ttl_ms r =
    (let taken = filter (\<lambda>k. redis_get r k \<noteq> None \<and> redis_get r k \<noteq> Some (''held:'' @ oid)) keys
     in if taken \<noteq> [] then (r, Inr (0, taken))
        else (fold (\<lambda>k. redis_set_px k (''held:'' @ oid) ttl_ms) keys r, Inr (1, [])))"

fun release_loop :: "string list \<Rightarrow> uuid \<Rightarrow> int \<Rightarrow> redis \<Rightarrow> redis \<times> int" where
  "release_loop [] oid n r = (r, n)"
| "release_loop (k # ks) oid n r =
    (if redis_get r k = Some (''held:'' @ oid) then release_loop ks oid (n + 1) (redis_del k r)
     else release_loop ks oid n r)"

definition release_lua :: "string list \<Rightarrow> uuid \<Rightarrow> redis \<Rightarrow> redis \<times> int res" where
  "release_lua keys oid r = (fst (release_loop keys oid 0 r), Inr (snd (release_loop keys oid 0 r)))"

fun confirm_loop :: "string list \<Rightarrow> uuid \<Rightarrow> redis \<Rightarrow> redis \<times> int \<times> string list" where
  "confirm_loop [] oid r = (r, 1, [])"
| "confirm_loop (k # ks) oid r = (case redis_get r k of
     None \<Rightarrow> confirm_loop ks oid (redis_set k (''sold:'' @ oid) r)
   | Some v \<Rightarrow>
       if v = ''held:'' @ oid \<or> v = ''sold:'' @ oid
       then confirm_loop ks oid (redis_set k (''sold:'' @ oid) r)
       else (r, 0, [k, v]))"

definition confirm_lua :: "string list \<Rightarrow> uuid \<Rightarrow> redis \<Rightarrow> redis \<times> (int \<times> string list) res" where
  "confirm_lua keys oid r = (fst (confirm_loop keys oid r), Inr (snd (confirm_loop keys oid r)))"

section \<open>Operations\<close>

text \<open>\<open>bumpVersion\<close> only logs a failure.\<close>

definition bumpVersion :: "int \<Rightarrow> (world, unit) prog" where
  "bumpVersion eid = bindp (redis_call (redis_incr (versionKey eid))) (\<lambda>_. Ret ())"

definition redis_Hold :: "int \<Rightarrow> string list \<Rightarrow> uuid \<Rightarrow> duration \<Rightarrow> (world, string list res) prog" where
  "redis_Hold eid sids oid ttl =
    (let ttl_ms = max (go_div ttl 1000000) 1 in
     bindp (redis_call (hold_lua (seatKeys eid sids) oid ttl_ms)) (\<lambda>r.
       case r of Inl e \<Rightarrow> Ret (Inl e)
       | Inr (n, ks) \<Rightarrow>
           if n = 1 then bindp (bumpVersion eid) (\<lambda>_. Ret (Inr []))
           else Ret (Inr (map (\<lambda>k. trim_prefix k (seatKeyPrefix eid)) ks))))"

definition redis_Release :: "int \<Rightarrow> string list \<Rightarrow> uuid \<Rightarrow> (world, unit res) prog" where
  "redis_Release eid sids oid =
    bindp (redis_call (release_lua (seatKeys eid sids) oid)) (\<lambda>r.
      case r of Inl e \<Rightarrow> Ret (Inl e)
      | Inr n \<Rightarrow> if n > 0 then bindp (bumpVersion eid) (\<lambda>_. Ret (Inr ())) else Ret (Inr ()))"

definition redis_Confirm :: "int \<Rightarrow> string list \<Rightarrow> uuid \<Rightarrow> (world, unit res) prog" where
  "redis_Confirm eid sids oid =
    bindp (redis_call (confirm_lua (seatKeys eid sids) oid)) (\<lambda>r.
      case r of Inl e \<Rightarrow> Ret (Inl e)
      | Inr (n, vs) \<Rightarrow>
          if n \<noteq> 1 then Ret (Inl [ErrConfirmMismatch])
          else bindp (bumpVersion eid) (\<lambda>_. Ret (Inr ())))"

definition statusOf :: "string option \<Rightarrow> SeatStatus" where
  "statusOf v = (let s = (case v of None \<Rightarrow> '''' | Some s \<Rightarrow> s) in
     if has_prefix s ''sold:'' then Sold
     else if has_prefix s ''held:'' then Held
     else Available)"

text \<open>
  The loop that cuts the keys into batches, the pipeline of \<open>MGET\<close>s (other clients may run
  between two of them), and the loop that fills the map.
\<close>

function batches :: "string list \<Rightarrow> string list list" where
  "batches ks = (if ks = [] then [] else take statusBatchSize ks # batches (drop statusBatchSize ks))"
  by pat_completeness auto
termination
  by (relation "measure length") (simp_all add: statusBatchSize_def)

declare batches.simps [simp del]

lemma batches_Nil [simp]: "batches [] = []"
  by (simp add: batches.simps)

fun pipe_MGet :: "string list list \<Rightarrow> (world, string option list list res) prog" where
  "pipe_MGet [] = Ret (Inr [])"
| "pipe_MGet (ks # kss) =
    bindp (redis_call (\<lambda>r. (r, Inr (map (redis_get r) ks)))) (\<lambda>x.
      case x of Inl e \<Rightarrow> Ret (Inl e)
      | Inr vs \<Rightarrow> bindp (pipe_MGet kss) (\<lambda>y.
          case y of Inl e \<Rightarrow> Ret (Inl e) | Inr vss \<Rightarrow> Ret (Inr (vs # vss))))"

fun fill_status :: "string list \<Rightarrow> string option list \<Rightarrow> (string \<Rightarrow> SeatStatus option) \<Rightarrow> string \<Rightarrow> SeatStatus option" where
  "fill_status (s # ss) (v # vs) out = fill_status ss vs (out(s \<mapsto> statusOf v))"
| "fill_status _ _ out = out"

definition redis_Status :: "int \<Rightarrow> string list \<Rightarrow> (world, (string \<Rightarrow> SeatStatus option) res) prog" where
  "redis_Status eid sids =
    bindp (pipe_MGet (batches (seatKeys eid sids))) (\<lambda>x.
      case x of Inl e \<Rightarrow> Ret (Inl e)
      | Inr vss \<Rightarrow> Ret (Inr (fill_status sids (concat vss) Map.empty)))"

definition SeatMapVersion :: "int \<Rightarrow> (world, int res) prog" where
  "SeatMapVersion eid =
    bindp (redis_call (\<lambda>r. (r, Inr (redis_get r (versionKey eid))))) (\<lambda>x.
      case x of Inl e \<Rightarrow> Ret (Inl e)
      | Inr None \<Rightarrow> Ret (Inr 0)
      | Inr (Some v) \<Rightarrow> (case parse_int v of
          None \<Rightarrow> Ret (Inl [Opaque ''redis seat map version''])
        | Some n \<Rightarrow> Ret (Inr n)))"

definition NewRedis :: inventory where
  "NewRedis = \<lparr>inv_Hold = redis_Hold, inv_Release = redis_Release, inv_Confirm = redis_Confirm,
     inv_Status = redis_Status, inv_SeatMapVersion = Some SeatMapVersion\<rparr>"

section \<open>Keys of different seats differ\<close>

lemma seat_key_inject [simp]:
  "seatKeyPrefix e @ s = seatKeyPrefix e' @ s' \<longleftrightarrow> e = e' \<and> s = s'"
proof
  assume a: "seatKeyPrefix e @ s = seatKeyPrefix e' @ s'"
  have n: "CHR ''}'' \<notin> set (format_int k)" for k
    by (auto simp: is_digit_def digit_val_def dest!: format_int_chars)
  from a have "format_int e @ CHR ''}'' # '':'' @ s = format_int e' @ CHR ''}'' # '':'' @ s'"
    by (simp add: seatKeyPrefix_def)
  from append_sep_inject[OF n n this] show "e = e' \<and> s = s'" by (simp add: format_int_inject)
qed simp

lemma versionKey_not_seat [simp]: "seatKeyPrefix e @ s \<noteq> versionKey e'"
  by (simp add: seatKeyPrefix_def versionKey_def)

lemma seatKeys_mem [simp]: "seatKeyPrefix e' @ s \<in> set (seatKeys e ss) \<longleftrightarrow> e' = e \<and> s \<in> set ss"
  by (auto simp: seatKeys_def)

section \<open>Who owns a seat\<close>

definition decode_owner :: "string option \<Rightarrow> seat_owner" where
  "decode_owner v = (case v of None \<Rightarrow> Free
     | Some x \<Rightarrow> if has_prefix x ''held:'' then HeldBy (drop 5 x) else SoldTo (drop 5 x))"

definition redis_owner :: "world \<Rightarrow> int \<Rightarrow> string \<Rightarrow> seat_owner" where
  "redis_owner w e s = decode_owner (redis_get (rd w) (seatKeyPrefix e @ s))"

text \<open>The seat keys hold nothing but the two kinds of values.\<close>

definition seat_value :: "string option \<Rightarrow> bool" where
  "seat_value v \<longleftrightarrow> (case v of None \<Rightarrow> True | Some x \<Rightarrow> has_prefix x ''held:'' \<or> has_prefix x ''sold:'')"

definition redis_ok :: "world \<Rightarrow> bool" where
  "redis_ok w \<longleftrightarrow> (\<forall>e s. seat_value (redis_get (rd w) (seatKeyPrefix e @ s)))"

lemma decode_held: "decode_owner v = HeldBy q \<longleftrightarrow> v = Some (''held:'' @ q)"
  by (auto simp: decode_owner_def has_prefix_iff split: option.split)

lemma decode_free: "decode_owner v = Free \<longleftrightarrow> v = None"
  by (auto simp: decode_owner_def split: option.split)

lemma decode_free_for: "free_for q (decode_owner v) \<longleftrightarrow> v = None \<or> v = Some (''held:'' @ q)"
  by (auto simp: free_for_def decode_held decode_free)

lemma decode_sold [simp]: "decode_owner (Some (''sold:'' @ q)) = SoldTo q"
  by (simp add: decode_owner_def)

lemma statusOf_owner: "seat_value v \<Longrightarrow> statusOf v = public_status (decode_owner v)"
  by (auto simp: seat_value_def statusOf_def decode_owner_def has_prefix_iff Let_def split: option.splits)

section \<open>Scripts, key by key\<close>

lemma get_fold_set_px:
  "0 < ms \<Longrightarrow> redis_get (fold (\<lambda>k. redis_set_px k v ms) ks r) k = (if k \<in> set ks then Some v else redis_get r k)"
  by (induction ks arbitrary: r) auto

lemma get_release_loop:
  "redis_get (fst (release_loop ks q n r)) k =
    (if k \<in> set ks \<and> redis_get r k = Some (''held:'' @ q) then None else redis_get r k)"
  by (induction ks arbitrary: n r) auto

lemma get_confirm_loop_ok:
  "fst (snd (confirm_loop ks q r)) = 1 \<Longrightarrow>
   redis_get (fst (confirm_loop ks q r)) k = (if k \<in> set ks then Some (''sold:'' @ q) else redis_get r k)"
  by (induction ks arbitrary: r) (auto split: option.splits if_splits)

lemma get_confirm_loop_taken:
  assumes "redis_get r k = Some y" "y \<noteq> ''held:'' @ q" "y \<noteq> ''sold:'' @ q"
  shows "redis_get (fst (confirm_loop ks q r)) k = Some y"
  using assms(1)
proof (induction ks arbitrary: r)
  case (Cons a ks)
  show ?case
    by (cases "a = k") (use assms(2,3) Cons in \<open>auto split: option.split\<close>)
qed simp

lemma get_confirm_loop_outside: "k \<notin> set ks \<Longrightarrow> redis_get (fst (confirm_loop ks q r)) k = redis_get r k"
  by (induction ks arbitrary: r) (auto split: option.split)

lemma get_confirm_loop_others:
  assumes "of_another q (decode_owner (redis_get r k)) \<or> k \<notin> set ks"
  shows "redis_get (fst (confirm_loop ks q r)) k = redis_get r k"
proof (cases "k \<in> set ks")
  case True
  then have o: "of_another q (decode_owner (redis_get r k))" using assms by simp
  then obtain y where y: "redis_get r k = Some y" by (cases "redis_get r k") (auto simp: of_another_def decode_owner_def)
  have "y \<noteq> ''held:'' @ q" "y \<noteq> ''sold:'' @ q" using o by (auto simp: y of_another_def decode_owner_def)
  then show ?thesis using get_confirm_loop_taken[OF y] y by simp
qed (rule get_confirm_loop_outside)

lemma get_confirm_loop_cases:
  "redis_get (fst (confirm_loop ks q r)) k \<in> {redis_get r k, Some (''sold:'' @ q)}"
proof (induction ks arbitrary: r)
  case (Cons a ks)
  show ?case using Cons[of "redis_set a (''sold:'' @ q) r"] by (auto split: option.split if_splits)
qed simp

lemma concat_batches: "concat (batches ks) = ks"
proof (induction ks rule: batches.induct)
  case (1 ks)
  then show ?case by (cases "ks = []") (simp_all add: batches.simps[of ks])
qed

lemma batches_size: "b \<in> set (batches ks) \<Longrightarrow> b \<noteq> [] \<and> length b \<le> 500"
proof (induction ks rule: batches.induct)
  case (1 ks)
  then show ?case by (cases "ks = []") (auto simp: batches.simps[of ks] statusBatchSize_def)
qed

lemma fill_status_map:
  "fill_status ss (map f ss) out s = (if s \<in> set ss then Some (statusOf (f s)) else out s)"
  by (induction ss arbitrary: out) auto

lemma pipe_MGet_run:
  "run fs w (pipe_MGet kss) = Some (w', Inr vss) \<Longrightarrow> w' = w \<and> vss = map (map (redis_get (rd w))) kss"
proof (induction kss arbitrary: fs vss)
  case Nil
  then show ?case by simp
next
  case (Cons ks kss)
  have get: "redis_outcome (\<lambda>r. (r, Inr (map (redis_get r) ks))) x w
      = (w, case x of Reply \<Rightarrow> Inr (map (redis_get (rd w)) ks) | _ \<Rightarrow> Inl infra_error)" for x
    by (cases x) (simp_all add: run_redis_def)
  let ?k = "\<lambda>vs y. case y of Inl e \<Rightarrow> Ret (Inl e) | Inr vss \<Rightarrow> Ret (Inr (vs # vss))"
  obtain x xs where "run xs w (case (case x of Reply \<Rightarrow> Inr (map (redis_get (rd w)) ks) | _ \<Rightarrow> Inl infra_error) of
      Inl e \<Rightarrow> Ret (Inl e) | Inr vs \<Rightarrow> bindp (pipe_MGet kss) (?k vs)) = Some (w', Inr vss)"
    using Cons.prems unfolding pipe_MGet.simps run_bind_redis_call get by blast
  then have "run xs w (bindp (pipe_MGet kss) (?k (map (redis_get (rd w)) ks))) = Some (w', Inr vss)"
    by (cases x) simp_all
  then obtain fs1 fs2 w1 y where y: "run fs1 w (pipe_MGet kss) = Some (w1, y)"
    "run fs2 w1 (?k (map (redis_get (rd w)) ks) y) = Some (w', Inr vss)"
    by (rule run_bindE)
  then show ?case using Cons.IH[of fs1] by (cases y) auto
qed

lemma redis_Status_run:
  assumes "redis_ok w" "run fs w (redis_Status e ss) = Some (w', Inr m)"
  shows "w' = w \<and> m = (\<lambda>s. if s \<in> set ss then Some (public_status (redis_owner w e s)) else None)"
proof -
  obtain fs1 fs2 w1 x where x: "run fs1 w (pipe_MGet (batches (seatKeys e ss))) = Some (w1, x)"
    "run fs2 w1 (case x of Inl e \<Rightarrow> Ret (Inl e)
      | Inr vss \<Rightarrow> Ret (Inr (fill_status ss (concat vss) Map.empty))) = Some (w', Inr m)"
    using assms(2) unfolding redis_Status_def by (rule run_bindE)
  then obtain vss where vss: "x = Inr vss" by (cases x) auto
  have "concat vss = map (\<lambda>s. redis_get (rd w) (seatKeyPrefix e @ s)) ss"
    using pipe_MGet_run[of fs1 w "batches (seatKeys e ss)" w1 vss] x(1) vss
    by (simp add: concat_batches seatKeys_def flip: map_concat)
  moreover have "w' = w" "m = fill_status ss (concat vss) Map.empty"
    using x vss pipe_MGet_run[of fs1 w "batches (seatKeys e ss)" w1 vss] by auto
  ultimately show ?thesis using assms(1)
    by (simp add: fill_status_map fun_eq_iff redis_owner_def redis_ok_def statusOf_owner)
qed

section \<open>The contract\<close>

text \<open>The version counter lives under its own key.\<close>

lemma bumpVersion_run:
  "run fs w (bindp (bumpVersion e) k) = Some (w', r) \<Longrightarrow>
    \<exists>w1 xs. w1 \<in> {w, w\<lparr>rd := fst (redis_incr (versionKey e) (rd w))\<rparr>} \<and> run xs w1 (k ()) = Some (w', r)"
  by (auto simp: bumpVersion_def run_bind_redis_call redis_outcome_eq run_redis_def split: if_splits)

lemma owner_bump [simp]: "redis_owner (w\<lparr>rd := fst (redis_incr (versionKey e) (rd w))\<rparr>) = redis_owner w"
  by (simp add: redis_owner_def fun_eq_iff)

lemma ok_bump [simp]: "redis_ok (w\<lparr>rd := fst (redis_incr (versionKey e) (rd w))\<rparr>) = redis_ok w"
  by (simp add: redis_ok_def)

lemma bump_same:
  assumes "run fs w (bindp (bumpVersion e) k) = Some (w', r)" and "\<And>u. k u = Ret a"
  shows "r = a \<and> redis_owner w' = redis_owner w \<and> redis_ok w' = redis_ok w"
  using bumpVersion_run[OF assms(1)] assms(2) by auto

lemma hold_lua_cases:
  assumes "0 < ms"
  obtains (taken) taken where "hold_lua (seatKeys e ss) q ms (rd w) = (rd w, Inr (0, map ((@) (seatKeyPrefix e)) taken))"
      "taken \<noteq> []" "set taken = {s \<in> set ss. \<not> free_for q (redis_owner w e s)}"
  | (held) r where "hold_lua (seatKeys e ss) q ms (rd w) = (r, Inr (1, []))"
      "\<forall>s\<in>set ss. free_for q (redis_owner w e s)"
      "\<forall>e' s. redis_get r (seatKeyPrefix e' @ s)
         = (if e' = e \<and> s \<in> set ss then Some (''held:'' @ q) else redis_get (rd w) (seatKeyPrefix e' @ s))"
proof -
  let ?t = "filter (\<lambda>s. \<not> free_for q (redis_owner w e s)) ss"
  have t: "filter (\<lambda>k. redis_get (rd w) k \<noteq> None \<and> redis_get (rd w) k \<noteq> Some (''held:'' @ q)) (seatKeys e ss)
      = map ((@) (seatKeyPrefix e)) ?t"
    by (simp add: seatKeys_def filter_map o_def redis_owner_def decode_free_for)
  show ?thesis
  proof (cases "?t = []")
    case True
    show ?thesis
    proof (rule held)
      show "hold_lua (seatKeys e ss) q ms (rd w)
          = (fold (\<lambda>k. redis_set_px k (''held:'' @ q) ms) (seatKeys e ss) (rd w), Inr (1, []))"
        unfolding hold_lua_def t Let_def using True by simp
      show "\<forall>s\<in>set ss. free_for q (redis_owner w e s)" using True by (simp add: filter_empty_conv)
    qed (use assms in \<open>simp add: get_fold_set_px\<close>)
  next
    case False
    show ?thesis
    proof (rule taken)
      show "hold_lua (seatKeys e ss) q ms (rd w) = (rd w, Inr (0, map ((@) (seatKeyPrefix e)) ?t))"
        unfolding hold_lua_def t Let_def using False by simp
    qed (use False in auto)
  qed
qed

lemma redis_Hold_run:
  assumes "redis_ok w" "run fs w (redis_Hold e ss q ttl) = Some (w', r)"
  shows "redis_ok w' \<and> ((redis_owner w' = redis_owner w \<and> (case r of Inl err \<Rightarrow> True | Inr taken \<Rightarrow> taken \<noteq> []
             \<and> set taken = {s \<in> set ss. \<not> free_for q (redis_owner w e s)}))
    \<or> ((\<forall>s\<in>set ss. free_for q (redis_owner w e s)) \<and> (case r of Inl err \<Rightarrow> True | Inr taken \<Rightarrow> taken = [])
       \<and> (\<forall>e' s. redis_owner w' e' s = (if e' = e \<and> s \<in> set ss then HeldBy q else redis_owner w e' s))))"
proof -
  let ?ms = "max (go_div ttl 1000000) 1"
  let ?k = "\<lambda>r. case r of Inl e \<Rightarrow> Ret (Inl e)
       | Inr (n, ks) \<Rightarrow>
           if n = 1 then bindp (bumpVersion e) (\<lambda>_. Ret (Inr []))
           else Ret (Inr (map (\<lambda>k. trim_prefix k (seatKeyPrefix e)) ks))"
  obtain x xs w1 r1 where x: "redis_outcome (hold_lua (seatKeys e ss) q ?ms) x w = (w1, r1)"
    and k: "run xs w1 (?k r1) = Some (w', r)"
    using assms(2) unfolding redis_Hold_def Let_def run_bind_redis_call by blast
  have pos: "0 < ?ms" by (rule less_le_trans[of _ 1]) simp_all
  show ?thesis
  proof (rule hold_lua_cases[OF pos, where e = e and ss = ss and q = q and w = w], goal_cases)
    case (1 taken)
    have t: "map (\<lambda>k. trim_prefix k (seatKeyPrefix e)) (map ((@) (seatKeyPrefix e)) taken) = taken"
      by (simp add: o_def)
    have "w1 = w \<and> (r1 = Inr (0, map ((@) (seatKeyPrefix e)) taken) \<or> r1 = Inl infra_error)"
      using x 1(1) by (cases x) (simp_all add: run_redis_def)
    then have "w' = w \<and> (r = Inr taken \<or> r = Inl infra_error)" using k t by auto
    then show ?case using 1(2,3) assms(1) by auto
  next
    case (2 r2)
    let ?w2 = "w\<lparr>rd := r2\<rparr>"
    have ok: "redis_ok ?w2" using assms(1) 2(3) by (simp add: redis_ok_def seat_value_def)
    have own: "\<forall>e' s. redis_owner ?w2 e' s = (if e' = e \<and> s \<in> set ss then HeldBy q else redis_owner w e' s)"
      using 2(3) by (simp add: redis_owner_def decode_owner_def)
    show ?case
    proof (cases x)
      case Reply
      then have "run xs ?w2 (bindp (bumpVersion e) (\<lambda>_. Ret (Inr []))) = Some (w', r)"
        using x k 2(1) by (simp add: run_redis_def) auto
      from bump_same[OF this refl] show ?thesis using ok own 2(2) by simp
    next
      case Fail
      then have "w' = w" "r = Inl infra_error" using x k by auto
      then show ?thesis using assms(1) by simp
    next
      case Lost
      then have "w' = ?w2" "r = Inl infra_error" using x k 2(1) by (auto simp: run_redis_def)
      then show ?thesis using ok own 2(2) by simp
    qed
  qed
qed

lemma release_effect:
  "redis_owner (w\<lparr>rd := fst (release_loop (seatKeys e ss) q n (rd w))\<rparr>) e' s
    = (if e' = e \<and> s \<in> set ss \<and> redis_owner w e s = HeldBy q then Free else redis_owner w e' s)"
  by (auto simp: redis_owner_def get_release_loop decode_held decode_free)

lemma release_ok: "redis_ok w \<Longrightarrow> redis_ok (w\<lparr>rd := fst (release_loop (seatKeys e ss) q n (rd w))\<rparr>)"
  by (auto simp: redis_ok_def get_release_loop seat_value_def)

lemma redis_Release_run:
  assumes "redis_ok w" "run fs w (redis_Release e ss q) = Some (w', r)"
  shows "redis_ok w' \<and> ((redis_owner w' = redis_owner w \<and> (\<exists>err. r = Inl err))
    \<or> (\<forall>e' s. redis_owner w' e' s
        = (if e' = e \<and> s \<in> set ss \<and> redis_owner w e s = HeldBy q then Free else redis_owner w e' s)))"
proof -
  let ?w2 = "w\<lparr>rd := fst (release_loop (seatKeys e ss) q 0 (rd w))\<rparr>"
  let ?k = "\<lambda>r. case r of Inl e \<Rightarrow> Ret (Inl e)
      | Inr n \<Rightarrow> if n > 0 then bindp (bumpVersion e) (\<lambda>_. Ret (Inr ())) else Ret (Inr ())"
  obtain x xs w1 r1 where x: "redis_outcome (release_lua (seatKeys e ss) q) x w = (w1, r1)"
    and k: "run xs w1 (?k r1) = Some (w', r)"
    using assms(2) unfolding redis_Release_def run_bind_redis_call by blast
  have "(w1 = ?w2 \<or> w1 = w \<and> (\<exists>err. r1 = Inl err))"
    using x by (cases x) (auto simp: run_redis_def release_lua_def)
  moreover have "redis_owner w' = redis_owner w1 \<and> redis_ok w' = redis_ok w1 \<and> (\<forall>err. r1 = Inl err \<longrightarrow> r = Inl err)"
    using k bump_same[of xs w1 e "\<lambda>_. Ret (Inr ())" w' r "Inr ()"] by (auto split: sum.splits if_splits)
  ultimately show ?thesis using assms(1) release_effect[where n = 0 and w = w] release_ok[OF assms(1)] by auto
qed

lemma redis_Confirm_run:
  assumes "redis_ok w" "run fs w (redis_Confirm e ss q) = Some (w', r)"
  shows "redis_ok w'"
    and "r = Inr u \<Longrightarrow> redis_owner w' e' s = (if e' = e \<and> s \<in> set ss then SoldTo q else redis_owner w e' s)"
    and "of_another q (redis_owner w e' s) \<or> e' \<noteq> e \<or> s \<notin> set ss \<Longrightarrow> redis_owner w' e' s = redis_owner w e' s"
proof -
  let ?c = "confirm_loop (seatKeys e ss) q (rd w)"
  let ?w2 = "w\<lparr>rd := fst ?c\<rparr>"
  let ?k = "\<lambda>r. case r of Inl e \<Rightarrow> Ret (Inl e)
      | Inr (n, vs) \<Rightarrow>
          if n \<noteq> 1 then Ret (Inl [ErrConfirmMismatch])
          else bindp (bumpVersion e) (\<lambda>_. Ret (Inr ()))"
  obtain x xs w1 r1 where x: "redis_outcome (confirm_lua (seatKeys e ss) q) x w = (w1, r1)"
    and k: "run xs w1 (?k r1) = Some (w', r)"
    using assms(2) unfolding redis_Confirm_def run_bind_redis_call by blast
  have w1: "(w1 = ?w2 \<and> (\<forall>y. r1 = Inr y \<longrightarrow> y = snd ?c)) \<or> (w1 = w \<and> (\<exists>err. r1 = Inl err))"
    using x by (cases x) (auto simp: run_redis_def confirm_lua_def)
  have same: "redis_owner w' = redis_owner w1 \<and> redis_ok w' = redis_ok w1
      \<and> (r = Inr u \<longrightarrow> (\<exists>vs. r1 = Inr (1, vs)))" for u
    using k bump_same[of xs w1 e "\<lambda>_. Ret (Inr ())" w' r "Inr ()"] by (auto split: sum.splits if_splits)
  have "seat_value (redis_get (fst ?c) (seatKeyPrefix e' @ s))" for e' s
    using get_confirm_loop_cases[of "seatKeys e ss" q "rd w" "seatKeyPrefix e' @ s"] assms(1)
    by (auto simp: redis_ok_def seat_value_def)
  then have "redis_ok ?w2" by (simp add: redis_ok_def)
  then show "redis_ok w'" using w1 same assms(1) by auto
  show "r = Inr u \<Longrightarrow> redis_owner w' e' s = (if e' = e \<and> s \<in> set ss then SoldTo q else redis_owner w e' s)"
  proof -
    assume "r = Inr u"
    then obtain vs where vs: "r1 = Inr (1, vs)" using same by blast
    then have "w1 = ?w2" "snd ?c = (1, vs)" using w1 by auto
    then have "w1 = ?w2" "fst (snd ?c) = 1" by simp_all
    then show ?thesis using same
      by (simp add: redis_owner_def get_confirm_loop_ok) (simp add: decode_owner_def)
  qed
  show "of_another q (redis_owner w e' s) \<or> e' \<noteq> e \<or> s \<notin> set ss \<Longrightarrow> redis_owner w' e' s = redis_owner w e' s"
    using w1 same get_confirm_loop_others[of q "rd w" "seatKeyPrefix e' @ s" "seatKeys e ss"]
    by (auto simp: redis_owner_def)
qed

lemma guar_pipe: "guar inv_frame (pipe_MGet kss)"
  by (induction kss) (auto intro!: guar_intros split: sum.split)

lemma redis_frames:
  "guar inv_frame (redis_Hold e ss q ttl)" "guar inv_frame (redis_Release e ss q)"
  "guar inv_frame (redis_Confirm e ss q)" "guar inv_frame (redis_Status e ss)"
  unfolding redis_Hold_def redis_Release_def redis_Confirm_def redis_Status_def bumpVersion_def Let_def
  by (auto intro!: guar_intros guar_pipe split: sum.split)

interpretation redis_inv: inventory_contract NewRedis redis_owner redis_ok
proof
  show "guar inv_frame (inv_Hold NewRedis e ss q ttl)" for e ss q ttl by (simp add: NewRedis_def redis_frames)
  show "guar inv_frame (inv_Release NewRedis e ss q)" for e ss q by (simp add: NewRedis_def redis_frames)
  show "guar inv_frame (inv_Confirm NewRedis e ss q)" for e ss q by (simp add: NewRedis_def redis_frames)
  show "guar inv_frame (inv_Status NewRedis e ss)" for e ss by (simp add: NewRedis_def redis_frames)
  fix w w' :: world and ss :: "string list" and fs e q and ttl :: duration and taken
  assume a: "redis_ok w" "distinct ss" "0 < ttl" "run fs w (inv_Hold NewRedis e ss q ttl) = Some (w', Inr taken)"
  show "set taken = {s \<in> set ss. \<not> free_for q (redis_owner w e s)} \<and>
     (\<forall>e' s. redis_owner w' e' s = (if taken = [] \<and> e' = e \<and> s \<in> set ss then HeldBy q else redis_owner w e' s))"
    using redis_Hold_run[OF a(1), of fs e ss q ttl w' "Inr taken"] a(4) by (auto simp: NewRedis_def)
next
  fix w w' :: world and ss :: "string list" and fs e q and ttl :: duration and err
  assume a: "redis_ok w" "distinct ss" "0 < ttl" "run fs w (inv_Hold NewRedis e ss q ttl) = Some (w', Inl err)"
  show "redis_owner w' = redis_owner w \<or> (\<forall>s\<in>set ss. free_for q (redis_owner w e s)) \<and>
     (\<forall>e' s. redis_owner w' e' s = (if e' = e \<and> s \<in> set ss then HeldBy q else redis_owner w e' s))"
    using redis_Hold_run[OF a(1), of fs e ss q ttl w' "Inl err"] a(4) by (auto simp: NewRedis_def)
next
  fix w w' :: world and ss :: "string list" and fs e q r
  assume a: "redis_ok w" "distinct ss" "run fs w (inv_Release NewRedis e ss q) = Some (w', r)"
  show "(\<forall>e' s. redis_owner w' e' s = (if e' = e \<and> s \<in> set ss \<and> redis_owner w e s = HeldBy q then Free else redis_owner w e' s))
     \<or> redis_owner w' = redis_owner w \<and> (\<exists>err. r = Inl err)"
    using redis_Release_run[OF a(1), of fs e ss q w' r] a(3) by (auto simp: NewRedis_def)
next
  fix w w' :: world and ss :: "string list" and fs e q u e' s
  assume a: "redis_ok w" "distinct ss" "run fs w (inv_Confirm NewRedis e ss q) = Some (w', Inr u)"
  show "redis_owner w' e' s = (if e' = e \<and> s \<in> set ss then SoldTo q else redis_owner w e' s)"
    using redis_Confirm_run(2)[OF a(1), of fs e ss q w' "Inr u"] a(3) by (simp add: NewRedis_def)
next
  fix w w' :: world and ss :: "string list" and fs e q r e' s
  assume a: "redis_ok w" "distinct ss" "run fs w (inv_Confirm NewRedis e ss q) = Some (w', r)"
    "of_another q (redis_owner w e' s) \<or> e' \<noteq> e \<or> s \<notin> set ss"
  show "redis_owner w' e' s = redis_owner w e' s"
    using redis_Confirm_run(3)[OF a(1), of fs e ss q w' r] a(3,4) by (simp add: NewRedis_def)
next
  fix w w' :: world and ss :: "string list" and fs e m
  assume "redis_ok w" "run fs w (inv_Status NewRedis e ss) = Some (w', Inr m)"
  then show "w' = w \<and> m = (\<lambda>s. if s \<in> set ss then Some (public_status (redis_owner w e s)) else None)"
    by (simp add: NewRedis_def redis_Status_run)
next
  fix a w w' fs u
  assume a: "op_ok a" "redis_ok w" "run fs w (inv_prog NewRedis a) = Some (w', u)"
  show "redis_ok w'"
  proof (cases a)
    case (OpHold e ss q ttl)
    then obtain r where "run fs w (redis_Hold e ss q ttl) = Some (w', r)"
      using a(3) run_bind_Ret_Some[of fs w "redis_Hold e ss q ttl" w'] by (auto simp: NewRedis_def)
    then show ?thesis using redis_Hold_run[OF a(2), of fs e ss q ttl w' r] by simp
  next
    case (OpRelease e ss q)
    then obtain r where "run fs w (redis_Release e ss q) = Some (w', r)"
      using a(3) run_bind_Ret_Some[of fs w "redis_Release e ss q" w'] by (auto simp: NewRedis_def)
    then show ?thesis using redis_Release_run[OF a(2), of fs e ss q w' r] by simp
  next
    case (OpConfirm e ss q)
    then obtain r where "run fs w (redis_Confirm e ss q) = Some (w', r)"
      using a(3) run_bind_Ret_Some[of fs w "redis_Confirm e ss q" w'] by (auto simp: NewRedis_def)
    then show ?thesis using redis_Confirm_run(1)[OF a(2), of fs e ss q w' r] by simp
  qed
qed

end
