(* ===== verification/Inventory_Backends.thy ===== *)
theory Inventory_Backends
  imports Inventory_PG Inventory_Redis
begin

text \<open>
  What the two backends promise the order service. The theorems are the facts of the
  interpretations \<open>pg_inv\<close> and \<open>redis_inv\<close> of \<open>inventory_contract\<close>, and the locale
  \<open>same_seats\<close> compares two backends that satisfy it: the feature flag that picks one
  (\<open>cmd/booking/main.go\<close>) does not change an answer.
\<close>

section \<open>Two backends over the same owners\<close>

text \<open>An operation with the answer its caller sees: the seats refused, or \<open>None\<close> for an error.\<close>

definition answer :: "(world, 'a res) prog \<Rightarrow> ('a \<Rightarrow> string list) \<Rightarrow> (world, string list option) prog" where
  "answer p f = bindp p (\<lambda>r. Ret (case r of Inl e \<Rightarrow> None | Inr x \<Rightarrow> Some (f x)))"

fun answered :: "inventory \<Rightarrow> inv_op \<Rightarrow> (world, string list option) prog" where
  "answered iv (OpHold e ss q ttl) = answer (inv_Hold iv e ss q ttl) (\<lambda>t. t)"
| "answered iv (OpRelease e ss q) = answer (inv_Release iv e ss q) (\<lambda>_. [])"
| "answered iv (OpConfirm e ss q) = answer (inv_Confirm iv e ss q) (\<lambda>_. [])"

fun run_answers :: "inventory \<Rightarrow> (fault list \<times> inv_op) list \<Rightarrow> world \<Rightarrow> (world \<times> string list list) option" where
  "run_answers iv [] w = Some (w, [])"
| "run_answers iv ((fs, a) # as) w = (case run fs w (answered iv a) of
     Some (w', Some t) \<Rightarrow> (case run_answers iv as w' of
       Some (w'', ts) \<Rightarrow> Some (w'', t # ts)
     | None \<Rightarrow> None)
   | _ \<Rightarrow> None)"

lemma run_bind_pure: "run fs w (bindp p (\<lambda>x. Ret (f x))) = map_option (\<lambda>(w', x). (w', f x)) (run fs w p)"
proof (induction p arbitrary: fs w)
  case (Ret a)
  then show ?case by (cases fs) auto
next
  case (Step g e c)
  then show ?case by (cases fs) auto
qed

lemma run_answer_Some:
  "run fs w (answer p f) = Some (w', Some t) \<Longrightarrow> \<exists>x. run fs w p = Some (w', Inr x) \<and> t = f x"
proof (cases "run fs w p")
  case (Some x)
  then show "run fs w (answer p f) = Some (w', Some t) \<Longrightarrow> ?thesis"
    by (cases x; cases "snd x") (auto simp: answer_def run_bind_pure)
qed (simp add: answer_def run_bind_pure)

lemma run_answered: "run fs w (answered iv a) = Some (w', t) \<Longrightarrow> run fs w (inv_prog iv a) = Some (w', ())"
  by (cases a) (auto simp: answer_def run_bind_pure)

context inventory_contract
begin

lemma ok_history:
  assumes "run_answers iv ops w = Some (w', ts)" "ok w" "\<forall>a\<in>snd ` set ops. op_ok a"
  shows "ok w'"
  using assms
proof (induction ops arbitrary: w ts)
  case (Cons x ops)
  obtain fs a where x: "x = (fs, a)" by (cases x)
  obtain w1 t ts' where w1: "run fs w (answered iv a) = Some (w1, Some t)" "run_answers iv ops w1 = Some (w', ts')"
    using Cons.prems(1) x by (auto split: option.splits)
  then show ?case using Cons.IH[OF w1(2)] ok_ops[OF _ Cons.prems(2) run_answered[OF w1(1)]] Cons.prems(3) x by simp
qed simp

end

locale same_seats =
  a: inventory_contract iva ownera oka + b: inventory_contract ivb ownerb okb
  for iva ownera oka ivb ownerb okb
begin

lemma same_hold:
  assumes "oka v" "okb w" "ownera v = ownerb w" "distinct ss" "0 < ttl"
    and "run fs v (inv_Hold iva e ss q ttl) = Some (v', Inr t1)"
    and "run fs' w (inv_Hold ivb e ss q ttl) = Some (w', Inr t2)"
  shows "set t1 = set t2 \<and> ownera v' = ownerb w'"
proof -
  note a = a.Hold_answer[OF assms(1,4,5,6)] and b = b.Hold_answer[OF assms(2,4,5,7)]
  have t: "set t1 = set t2" using a b assms(3) by simp
  then have "t1 = [] \<longleftrightarrow> t2 = []" by (metis set_empty)
  then show ?thesis using a b t assms(3) by (auto simp: fun_eq_iff)
qed

lemma same_confirm:
  assumes "oka v" "okb w" "ownera v = ownerb w" "distinct ss"
    and "run fs v (inv_Confirm iva e ss q) = Some (v', Inr u1)"
    and "run fs' w (inv_Confirm ivb e ss q) = Some (w', Inr u2)"
  shows "ownera v' = ownerb w'"
  using a.Confirm_answer[OF assms(1,4,5)] b.Confirm_answer[OF assms(2,4,6)] assms(3) by (simp add: fun_eq_iff)

lemma same_release:
  assumes "oka v" "okb w" "ownera v = ownerb w" "distinct ss"
    and "run fs v (inv_Release iva e ss q) = Some (v', Inr u1)"
    and "run fs' w (inv_Release ivb e ss q) = Some (w', Inr u2)"
  shows "ownera v' = ownerb w'"
  using a.Release_answer[OF assms(1,4,5)] b.Release_answer[OF assms(2,4,6)] assms(3) by (simp add: fun_eq_iff)

lemma same_status:
  assumes "oka v" "okb w" "ownera v = ownerb w" "distinct ss"
    and "run fs v (inv_Status iva e ss) = Some (v', Inr m1)"
    and "run fs' w (inv_Status ivb e ss) = Some (w', Inr m2)"
  shows "m1 = m2"
  using a.Status_answer[OF assms(1,4,5)] b.Status_answer[OF assms(2,4,6)] assms(3) by (auto simp: fun_eq_iff)

lemma same_op:
  assumes "oka v" "okb w" "ownera v = ownerb w" "op_ok x"
    and "run fs v (answered iva x) = Some (v', Some t1)" "run fs' w (answered ivb x) = Some (w', Some t2)"
  shows "set t1 = set t2 \<and> ownera v' = ownerb w'"
proof (cases x)
  case (OpHold e ss q ttl)
  then show ?thesis using same_hold[OF assms(1-3)] assms(4-6) by (auto dest!: run_answer_Some)
next
  case (OpRelease e ss q)
  then show ?thesis using same_release[OF assms(1-3)] assms(4-6) by (auto dest!: run_answer_Some)
next
  case (OpConfirm e ss q)
  then show ?thesis using same_confirm[OF assms(1-3)] assms(4-6) by (auto dest!: run_answer_Some)
qed

text \<open>The same operations, whatever faults and retries each side met, give the same answers and owners.\<close>

lemma same_history:
  assumes "map snd xs = map snd ys" "oka v" "okb w" "ownera v = ownerb w" "\<forall>x\<in>snd ` set xs. op_ok x"
    and "run_answers iva xs v = Some (v', ts)" "run_answers ivb ys w = Some (w', us)"
  shows "map set ts = map set us \<and> ownera v' = ownerb w'"
  using assms
proof (induction xs ys arbitrary: v w ts us rule: list_induct2'[case_names nil left right both])
  case (both x xs y ys)
  obtain fs a fs' where xy: "x = (fs, a)" "y = (fs', a)" using both.prems(1) by (cases x; cases y) auto
  obtain v1 t ts' where v: "run fs v (answered iva a) = Some (v1, Some t)" "run_answers iva xs v1 = Some (v', ts')"
    "ts = t # ts'" using both.prems(6) xy by (auto split: option.splits)
  obtain w1 u us' where w: "run fs' w (answered ivb a) = Some (w1, Some u)" "run_answers ivb ys w1 = Some (w', us')"
    "us = u # us'" using both.prems(7) xy by (auto split: option.splits)
  have a: "op_ok a" using both.prems(5) xy by simp
  have "oka v1" "okb w1"
    using a.ok_ops[OF a both.prems(2) run_answered[OF v(1)]] b.ok_ops[OF a both.prems(3) run_answered[OF w(1)]] by auto
  then show ?case using both.IH[of v1 w1 ts' us'] same_op[OF both.prems(2,3,4) a v(1) w(1)] both.prems(1,5) v w by simp
qed simp_all

end

interpretation backends: same_seats NewPG pg_owner pg_ok NewRedis redis_owner redis_ok
  by unfold_locales

section \<open>A held or sold seat is refused\<close>

text \<open>Two seats of one event, in PostgreSQL and in Redis, the first held by order \<open>q\<close>.\<close>

definition two_seats :: db where
  "two_seats = (empty_db 1)\<lparr>seats := map (\<lambda>s. \<lparr>s_event_id = 1, s_seat_id = s, s_zone = ''A'', s_row_label = ''A'',
     s_seat_no = 1, s_price_vnd = 500\<rparr>) [''A1'', ''A2'']\<rparr>"

definition held_pg :: world where
  "held_pg = (empty_world 0)\<lparr>pg := two_seats\<lparr>seat_holds :=
     [\<lparr>h_event_id = 1, h_seat_id = ''A1'', h_order_id = ''q'', h_expires_at = 60000000000\<rparr>]\<rparr>\<rparr>"

definition held_redis :: world where
  "held_redis = (empty_world 0)\<lparr>rd := redis_set_px (seatKeyPrefix 1 @ ''A1'') ''held:q'' 60000 (empty_redis 0)\<rparr>"

lemmas pg_backend = NewPG_def pg_Hold_def pg_hold_tx_def pg_Release_def LockSeats_def TakenSeats_def DeleteHolds_def
  delete_where_def live_holds_def event_tickets_def tx_defs

lemmas held_defs = held_pg_def held_redis_def two_seats_def empty_world_def empty_db_def empty_redis_def

text \<open>
  C18. A seat that an order holds or has bought stays that order's in the PostgreSQL backend.
  Whatever other orders do in between, each operation meeting any faults, a later hold by
  another order names the seat as taken and the owner is the same as before. No time passes
  between the operations, so a hold does not expire in between.
\<close>

theorem pg_held_seat_refused:
  assumes "pg_ok w" "of_another q (pg_owner w e s)"
    and "list_all (\<lambda>(fs, a). op_ok a \<and> of_another (op_order a) (pg_owner w e s)) ops"
    and "run_ops NewPG ops w = Some w1"
    and "s \<in> set ss" "distinct ss" "0 < ttl" "run fs w1 (inv_Hold NewPG e ss q ttl) = Some (w2, Inr taken)"
  shows "s \<in> set taken \<and> pg_owner w2 e s = pg_owner w e s"
  using pg_inv.history_hold_refused[OF assms(4,1) _ assms(2,5-8)] assms(3) by (simp add: list_all_iff)

lemma held_pg_ops:
  "pg_ok held_pg \<and> pg_owner held_pg 1 ''A1'' = HeldBy ''q''"
  "run_ops NewPG [([Reply], OpHold 1 [''A1''] ''r'' 60), ([Lost], OpRelease 1 [''A1''] ''r'')] held_pg = Some held_pg"
  "run [Reply] held_pg (inv_Hold NewPG 1 [''A1'', ''A2''] ''p'' 60) = Some (held_pg, Inr [''A1''])"
  by (simp_all add: held_defs pg_owner_def pg_ok_def row_by_def t_key_def h_key_def pg_backend)

theorem pg_held_seat_refused_witness:
  "''A1'' \<in> set [''A1''] \<and> pg_owner held_pg 1 ''A1'' = HeldBy ''q''"
  using pg_held_seat_refused[OF _ _ _ held_pg_ops(2), of "''p''" 1 "''A1''", OF _ _ _ _ _ _ held_pg_ops(3)] held_pg_ops(1)
  by (simp add: of_another_def)

text \<open>
  C17. The same in the Redis backend: the hold script refuses a seat that another order holds or
  has bought, after any operations of other orders with any faults and lost replies, as long as
  no time passes in which a hold could expire.
\<close>

theorem redis_held_seat_refused:
  assumes "redis_ok w" "of_another q (redis_owner w e s)"
    and "list_all (\<lambda>(fs, a). op_ok a \<and> of_another (op_order a) (redis_owner w e s)) ops"
    and "run_ops NewRedis ops w = Some w1"
    and "s \<in> set ss" "distinct ss" "0 < ttl" "run fs w1 (inv_Hold NewRedis e ss q ttl) = Some (w2, Inr taken)"
  shows "s \<in> set taken \<and> redis_owner w2 e s = redis_owner w e s"
  using redis_inv.history_hold_refused[OF assms(4,1) _ assms(2,5-8)] assms(3) by (simp add: list_all_iff)

lemma held_redis_ok: "redis_ok held_redis \<and> redis_owner held_redis 1 ''A1'' = HeldBy ''q''"
  by (auto simp: redis_ok_def redis_owner_def held_defs redis_set_px_def redis_get_def seat_value_def
      decode_owner_def has_prefix_iff)

lemma held_redis_ops:
  "run_ops NewRedis [([Reply], OpHold 1 [''A1''] ''r'' 60), ([Lost, Reply], OpRelease 1 [''A1''] ''r'')] held_redis
    = Some held_redis"
  "run [Reply] held_redis (inv_Hold NewRedis 1 [''A1'', ''A2''] ''p'' 60) = Some (held_redis, Inr [''A1''])"
  by (simp_all add: held_defs NewRedis_def redis_Hold_def redis_Release_def hold_lua_def release_lua_def
      redis_set_px_def redis_get_def seatKeys_def tx_defs)

theorem redis_held_seat_refused_witness:
  "''A1'' \<in> set [''A1''] \<and> redis_owner held_redis 1 ''A1'' = HeldBy ''q''"
  using redis_held_seat_refused[OF _ _ _ held_redis_ops(1), of "''p''" 1 "''A1''", OF _ _ _ _ _ _ held_redis_ops(2)]
    held_redis_ok by (simp add: of_another_def)

section \<open>The backends agree\<close>

text \<open>
  C19. The two backends cannot be told apart. Started with the same owners, and given the same
  operations, each side meeting its own faults, they refuse the same seats in every operation
  that is answered and end with the same owners, so \<open>Status\<close> shows the same seat map. No time
  passes between the operations.
\<close>

theorem backends_agree:
  assumes "pg_ok v" "redis_ok w" "pg_owner v = redis_owner w"
    and "map snd xs = map snd ys" "list_all op_ok (map snd xs)"
    and "run_answers NewPG xs v = Some (v', ts)" "run_answers NewRedis ys w = Some (w', us)"
    and "distinct ss" "run fs v' (inv_Status NewPG e ss) = Some (v'', Inr m1)"
    and "run fs' w' (inv_Status NewRedis e ss) = Some (w'', Inr m2)"
  shows "map set ts = map set us \<and> pg_owner v' = redis_owner w' \<and> m1 = m2"
proof -
  have h: "map set ts = map set us \<and> pg_owner v' = redis_owner w'"
    using backends.same_history[OF assms(4,1,2,3) _ assms(6,7)] assms(5) by (auto simp: list_all_iff)
  have "\<forall>a\<in>snd ` set xs. op_ok a" using assms(5) by (simp add: list_all_iff)
  moreover have "snd ` set ys = snd ` set xs" using arg_cong[OF assms(4), of set] by simp
  ultimately have "pg_ok v'" "redis_ok w'"
    using pg_inv.ok_history[OF assms(6,1)] redis_inv.ok_history[OF assms(7,2)] by simp_all
  then show ?thesis using h backends.same_status[OF _ _ _ assms(8-10)] by blast
qed

lemma held_owners: "pg_owner held_pg = redis_owner held_redis"
  by (auto simp: fun_eq_iff pg_owner_def redis_owner_def held_defs row_by_def t_key_def h_key_def decode_owner_def
      redis_set_px_def redis_get_def has_prefix_iff)

lemma held_answers:
  "\<exists>v' v'' m. run_answers NewPG [([Reply], OpHold 1 [''A1''] ''r'' 60), ([Reply], OpHold 1 [''A2''] ''r'' 60)] held_pg
     = Some (v', [[''A1''], []]) \<and> run [Reply] v' (inv_Status NewPG 1 [''A1'']) = Some (v'', Inr m)"
  "\<exists>w' w'' m. run_answers NewRedis [([Reply], OpHold 1 [''A1''] ''r'' 60), ([Reply, Fail], OpHold 1 [''A2''] ''r'' 60)]
     held_redis = Some (w', [[''A1''], []]) \<and> run [Reply] w' (inv_Status NewRedis 1 [''A1'']) = Some (w'', Inr m)"
  by (simp_all add: held_defs answer_def pg_backend UpsertHolds_def pg_Status_def SeatStatuses_def
      NewRedis_def redis_Hold_def hold_lua_def bumpVersion_def redis_Status_def batches.simps statusBatchSize_def
      redis_set_px_def redis_get_def seatKeys_def)

theorem backends_agree_witness:
  "\<exists>v' w'. pg_owner v' = redis_owner w' \<and> map set [[''A1''], []] = map set [[''A1''], []]
    \<and> run_answers NewPG [([Reply], OpHold 1 [''A1''] ''r'' 60), ([Reply], OpHold 1 [''A2''] ''r'' 60)] held_pg
      = Some (v', [[''A1''], []])"
proof -
  obtain v' v'' m w' w'' m' where h:
    "run_answers NewPG [([Reply], OpHold 1 [''A1''] ''r'' 60), ([Reply], OpHold 1 [''A2''] ''r'' 60)] held_pg
      = Some (v', [[''A1''], []])" "run [Reply] v' (inv_Status NewPG 1 [''A1'']) = Some (v'', Inr m)"
    "run_answers NewRedis [([Reply], OpHold 1 [''A1''] ''r'' 60), ([Reply, Fail], OpHold 1 [''A2''] ''r'' 60)] held_redis
      = Some (w', [[''A1''], []])" "run [Reply] w' (inv_Status NewRedis 1 [''A1'']) = Some (w'', Inr m')"
    using held_answers by blast
  show ?thesis
    using backends_agree[OF _ _ held_owners _ _ h(1,3) _ h(2,4)] held_pg_ops(1) held_redis_ok h(1) by auto
qed

section \<open>Reading the seat map in batches\<close>

text \<open>
  \<open>Status\<close> of the Redis backend cuts the keys of an event into batches of 1 to 500 keys that
  together are the keys in order, and its answer is the public status of every seat asked for,
  as if each key were read alone. The answer leaves the world as it was.
\<close>

theorem status_in_batches:
  assumes "redis_ok w" "run fs w (redis_Status e ss) = Some (w', Inr m)"
  shows "concat (batches (seatKeys e ss)) = seatKeys e ss
    \<and> list_all (\<lambda>b. 0 < length b \<and> length b \<le> statusBatchSize) (batches (seatKeys e ss))
    \<and> w' = w \<and> m = (\<lambda>s. if s \<in> set ss then Some (statusOf (redis_get (rd w) (seatKeyPrefix e @ s))) else None)"
  using redis_Status_run[OF assms] assms(1)
  by (auto simp: concat_batches list_all_iff statusBatchSize_def redis_owner_def redis_ok_def statusOf_owner fun_eq_iff
      dest: batches_size)

theorem status_in_batches_witness:
  "\<exists>m. concat (batches (seatKeys 1 [''A1''])) = seatKeys 1 [''A1''] \<and> m ''A1'' = Some Held
    \<and> run [Reply] held_redis (redis_Status 1 [''A1'']) = Some (held_redis, Inr m)"
proof -
  obtain w' m where h: "run [Reply] held_redis (redis_Status 1 [''A1'']) = Some (w', Inr m)"
    by (simp add: redis_Status_def batches.simps statusBatchSize_def seatKeys_def tx_defs)
  have "statusOf (redis_get (rd held_redis) (seatKeyPrefix 1 @ ''A1'')) = Held"
    by (simp add: held_defs redis_set_px_def redis_get_def statusOf_def)
  then show ?thesis using status_in_batches[OF _ h] held_redis_ok h by auto
qed

end
