(* ===== verification/Catalog.thy ===== *)
theory Catalog
  imports Inventory "HOL-Library.Multiset"
begin

text \<open>
  The catalog, \<open>internal/catalog/catalog.go\<close> and \<open>seed.go\<close>: events with their seat layout,
  loaded once per process and cached, the sale-open check, the seat map, and the seeding of
  an event. The caches live in the world under the number of the process that owns them.
  Concurrent first requests that share one load are modelled as loads of their own.
\<close>

section \<open>Layout\<close>

definition Seat :: "event \<Rightarrow> string \<Rightarrow> seat option" where
  "Seat ev sid = (case event_by_id ev sid of
     None \<Rightarrow> None
   | Some i \<Rightarrow> Some (event_seats ev ! i))"

definition SeatIDs :: "event \<Rightarrow> string list" where
  "SeatIDs ev = event_seat_ids ev"

text \<open>The zone summary built by the loop of \<open>setSeats\<close>: the last zone is extended or a new one begun.\<close>

definition add_to_zones :: "zone list \<Rightarrow> seat \<Rightarrow> zone list" where
  "add_to_zones zs st =
    (let zs1 = (if zs = [] \<or> zone_name (last zs) \<noteq> seat_zone st \<or> zone_price_vnd (last zs) \<noteq> seat_price_vnd st
                then zs @ [\<lparr>zone_name = seat_zone st, zone_price_vnd = seat_price_vnd st, zone_seats = 0\<rparr>]
                else zs)
     in butlast zs1 @ [(last zs1)\<lparr>zone_seats := zone_seats (last zs1) + 1\<rparr>])"

fun setSeats_loop :: "nat \<Rightarrow> seat list \<Rightarrow> event \<Rightarrow> event" where
  "setSeats_loop i [] ev = ev"
| "setSeats_loop i (st # sts) ev = setSeats_loop (i + 1) sts
     (ev\<lparr>event_seat_ids := event_seat_ids ev @ [seat_id st],
         event_by_id := (event_by_id ev)(seat_id st \<mapsto> i),
         event_zones := add_to_zones (event_zones ev) st\<rparr>)"

definition setSeats :: "seat list \<Rightarrow> event \<Rightarrow> event" where
  "setSeats sts ev = setSeats_loop 0 sts
     (ev\<lparr>event_seats := sts, event_zones := [], event_seat_ids := [], event_by_id := Map.empty\<rparr>)"

section \<open>Queries\<close>

definition GetEvent :: "int \<Rightarrow> event_row dbtx" where
  "GetEvent eid d = one_row (row_by e_id eid (events d)) d"

definition IsSaleOpen :: "time \<Rightarrow> int \<Rightarrow> bool dbtx" where
  "IsSaleOpen now eid d = one_row (map_option (\<lambda>e. e_sale_opens_at e \<le> now) (row_by e_id eid (events d))) d"

definition ListOpenEventIDs :: "time \<Rightarrow> int list dbtx" where
  "ListOpenEventIDs now = tx_read (\<lambda>d. sort (map e_id (filter (\<lambda>e. e_sale_opens_at e \<le> now) (events d))))"

definition display_key :: "seat_row \<Rightarrow> int \<times> string \<times> nat \<times> string \<times> int" where
  "display_key s = (- s_price_vnd s, s_zone s, length (s_row_label s), s_row_label s, s_seat_no s)"

definition ListSeats :: "int \<Rightarrow> seat_row list dbtx" where
  "ListSeats eid = tx_read (\<lambda>d. sort_key display_key (filter (\<lambda>s. s_event_id s = eid) (seats d)))"

section \<open>The service\<close>

definition layout_seat :: "seat_row \<Rightarrow> seat" where
  "layout_seat s = \<lparr>seat_id = s_seat_id s, seat_zone = s_zone s, seat_row_label = s_row_label s,
     seat_no = s_seat_no s, seat_price_vnd = s_price_vnd s\<rparr>"

definition build_event :: "event_row \<Rightarrow> seat_row list \<Rightarrow> event" where
  "build_event r rows = setSeats (map layout_seat rows)
     \<lparr>event_id = e_id r, event_name = e_name r, event_venue = e_venue r, event_starts_at = e_starts_at r,
      event_sale_opens_at = e_sale_opens_at r, event_max_seats_per_order = e_max_seats_per_order r,
      event_zones = [], event_seats = [], event_seat_ids = [], event_by_id = Map.empty\<rparr>"

definition load :: "int \<Rightarrow> (world, event res) prog" where
  "load eid =
    bindp (begin_func (\<lambda>_. True) (\<lambda>now. GetEvent eid)) (\<lambda>r.
      case r of
        Inl e \<Rightarrow> if errors_is e NoRows then Ret (Inl [ErrEventNotFound]) else Ret (Inl e)
      | Inr row \<Rightarrow>
          bindp (begin_func (\<lambda>_. True) (\<lambda>now. ListSeats eid)) (\<lambda>r.
            case r of Inl e \<Rightarrow> Ret (Inl e)
            | Inr rows \<Rightarrow> Ret (Inr (build_event row rows))))"

definition cache_event :: "nat \<Rightarrow> int \<Rightarrow> event \<Rightarrow> world \<Rightarrow> world" where
  "cache_event n eid ev w = w\<lparr>catalogs := (catalogs w)(n := (catalogs w n)
     \<lparr>cached_events := (cached_events (catalogs w n))(eid \<mapsto> ev)\<rparr>)\<rparr>"

definition cache_sale_open :: "nat \<Rightarrow> int \<Rightarrow> world \<Rightarrow> world" where
  "cache_sale_open n eid w = w\<lparr>catalogs := (catalogs w)(n := (catalogs w n)
     \<lparr>cached_sale_open := (cached_sale_open (catalogs w n))(eid := True)\<rparr>)\<rparr>"

definition Event :: "nat \<Rightarrow> int \<Rightarrow> (world, event res) prog" where
  "Event n eid =
    bindp (local_step (\<lambda>w. (w, cached_events (catalogs w n) eid))) (\<lambda>c.
      case c of
        Some ev \<Rightarrow> Ret (Inr ev)
      | None \<Rightarrow> bindp (load eid) (\<lambda>r.
          case r of Inl e \<Rightarrow> Ret (Inl e)
          | Inr ev \<Rightarrow> bindp (local_step (\<lambda>w. (cache_event n eid ev w, ()))) (\<lambda>_. Ret (Inr ev))))"

definition SaleOpen :: "nat \<Rightarrow> int \<Rightarrow> (world, bool res) prog" where
  "SaleOpen n eid =
    bindp (local_step (\<lambda>w. (w, cached_sale_open (catalogs w n) eid))) (\<lambda>opened.
      if opened then Ret (Inr True)
      else bindp (begin_func (\<lambda>_. True) (\<lambda>now. IsSaleOpen now eid)) (\<lambda>r.
        case r of
          Inl e \<Rightarrow> if errors_is e NoRows then Ret (Inl [ErrEventNotFound]) else Ret (Inl e)
        | Inr opened \<Rightarrow>
            if opened then bindp (local_step (\<lambda>w. (cache_sale_open n eid w, ()))) (\<lambda>_. Ret (Inr True))
            else Ret (Inr False)))"

definition OpenEventIDs :: "(world, int list res) prog" where
  "OpenEventIDs = begin_func (\<lambda>_. True) ListOpenEventIDs"

record seat_map =
  sm_version :: int
  sm_versioned :: bool
  sm_seats :: "(seat \<times> SeatStatus option) list"

text \<open>A missing map entry is Go's zero value of the status, here \<open>None\<close>.\<close>

definition seat_states :: "event \<Rightarrow> (string \<Rightarrow> SeatStatus option) \<Rightarrow> (seat \<times> SeatStatus option) list" where
  "seat_states ev m = map (\<lambda>st. (st, m (seat_id st))) (event_seats ev)"

definition seat_map_status :: "inventory \<Rightarrow> int \<Rightarrow> event \<Rightarrow> int \<Rightarrow> bool \<Rightarrow> (world, seat_map res) prog" where
  "seat_map_status iv eid ev version versioned =
    bindp (inv_Status iv eid (SeatIDs ev)) (\<lambda>r.
      case r of Inl e \<Rightarrow> Ret (Inl e)
      | Inr m \<Rightarrow> Ret (Inr \<lparr>sm_version = version, sm_versioned = versioned, sm_seats = seat_states ev m\<rparr>))"

definition SeatMap :: "inventory \<Rightarrow> nat \<Rightarrow> int \<Rightarrow> (world, seat_map res) prog" where
  "SeatMap iv n eid =
    bindp (Event n eid) (\<lambda>r.
      case r of Inl e \<Rightarrow> Ret (Inl e)
      | Inr ev \<Rightarrow> (case inv_SeatMapVersion iv of
          None \<Rightarrow> seat_map_status iv eid ev 0 False
        | Some f \<Rightarrow> bindp (f eid) (\<lambda>r.
            case r of Inl e \<Rightarrow> Ret (Inl e)
            | Inr version \<Rightarrow> seat_map_status iv eid ev version True)))"

section \<open>Seeding (seed.go)\<close>

record ZoneLayout =
  zl_zone :: string
  zl_rows :: nat
  zl_seats_per_row :: nat
  zl_price_vnd :: int

record EventSpec =
  sp_name :: string
  sp_venue :: string
  sp_starts_in :: duration
  sp_sale_opens_in :: duration
  sp_max_seats_per_order :: int
  sp_zones :: "ZoneLayout list"

fun row_label_loop :: "nat \<Rightarrow> string \<Rightarrow> string" where
  "row_label_loop i label = (if i = 0 then label
     else row_label_loop ((i - 1) div 26) (char_of (65 + (i - 1) mod 26) # label))"

declare row_label_loop.simps [simp del]

lemma row_label_loop_0 [simp]: "row_label_loop 0 l = l"
  by (simp add: row_label_loop.simps)

definition rowLabel :: "nat \<Rightarrow> string" where
  "rowLabel i = row_label_loop (i + 1) ''''"

definition seat_name :: "string \<Rightarrow> string \<Rightarrow> nat \<Rightarrow> string" where
  "seat_name z row n = z @ ''-'' @ row @ ''-'' @ digits_of n"

definition zone_layout_seats :: "ZoneLayout \<Rightarrow> seat list" where
  "zone_layout_seats z = concat (map (\<lambda>r. map (\<lambda>n.
      \<lparr>seat_id = seat_name (zl_zone z) (rowLabel r) n, seat_zone = zl_zone z, seat_row_label = rowLabel r,
       seat_no = int n, seat_price_vnd = zl_price_vnd z\<rparr>) [1..<zl_seats_per_row z + 1]) [0..<zl_rows z])"

definition Seats :: "EventSpec \<Rightarrow> seat list" where
  "Seats s = concat (map zone_layout_seats (sp_zones s))"

text \<open>The id of the new event is drawn from the sequence of the table.\<close>

definition CreateEvent :: "time \<Rightarrow> int \<Rightarrow> EventSpec \<Rightarrow> int dbtx" where
  "CreateEvent now new s d =
    (if new \<in> e_id ` set (events d) then Inl (unique_violation ''events_pkey'')
     else Inr (d\<lparr>events := events d @ [\<lparr>e_id = new, e_name = sp_name s, e_venue = sp_venue s,
            e_starts_at = now + sp_starts_in s, e_sale_opens_at = now + sp_sale_opens_in s,
            e_max_seats_per_order = sp_max_seats_per_order s\<rparr>]\<rparr>, new))"

definition s_key :: "seat_row \<Rightarrow> int \<times> string" where
  "s_key s = (s_event_id s, s_seat_id s)"

definition InsertSeats :: "seat_row list \<Rightarrow> int dbtx" where
  "InsertSeats rows d =
    (if \<exists>r\<in>set rows. s_price_vnd r \<le> 0 then Inl (check_violation ''seats_price_vnd_check'')
     else if \<not> distinct (map s_key (seats d @ rows)) then Inl (unique_violation ''seats_pkey'')
     else if \<exists>r\<in>set rows. s_event_id r \<notin> e_id ` set (events d) then Inl (fk_violation ''seats_event_id_fkey'')
     else Inr (d\<lparr>seats := seats d @ rows\<rparr>, int (length rows)))"

definition seed_rows :: "int \<Rightarrow> EventSpec \<Rightarrow> seat_row list" where
  "seed_rows eid s = map (\<lambda>st. \<lparr>s_event_id = eid, s_seat_id = seat_id st, s_zone = seat_zone st,
     s_row_label = seat_row_label st, s_seat_no = int32 (seat_no st), s_price_vnd = seat_price_vnd st\<rparr>) (Seats s)"

definition seed_tx :: "int \<Rightarrow> EventSpec \<Rightarrow> time \<Rightarrow> int dbtx" where
  "seed_tx new s now =
    tx_bind (CreateEvent now new s) (\<lambda>eid.
      tx_bind (InsertSeats (seed_rows eid s)) (\<lambda>n.
        if n \<noteq> int (length (Seats s)) then tx_fail [Opaque ''insert seats: copied'']
        else tx_return eid))"

definition Seed :: "int \<Rightarrow> EventSpec \<Rightarrow> (world, int res) prog" where
  "Seed new s = begin_func (\<lambda>_. True) (seed_tx new s)"

section \<open>The layout of an event\<close>

lemma setSeats_loop_fields:
  "event_seats (setSeats_loop i sts ev) = event_seats ev"
  "event_id (setSeats_loop i sts ev) = event_id ev"
  "event_max_seats_per_order (setSeats_loop i sts ev) = event_max_seats_per_order ev"
  "event_seat_ids (setSeats_loop i sts ev) = event_seat_ids ev @ map seat_id sts"
  "event_zones (setSeats_loop i sts ev) = foldl add_to_zones (event_zones ev) sts"
  by (induction sts arbitrary: i ev) simp_all

fun index_of :: "string \<Rightarrow> string list \<Rightarrow> nat option" where
  "index_of s [] = None"
| "index_of s (x # xs) = (if x = s then Some 0 else map_option Suc (index_of s xs))"

lemma index_of_Some: "index_of s xs = Some j \<Longrightarrow> j < length xs \<and> xs ! j = s"
  by (induction xs arbitrary: j) (auto split: if_splits)

lemma index_of_None: "index_of s xs = None \<longleftrightarrow> s \<notin> set xs"
  by (induction xs) auto

lemma setSeats_loop_by_id:
  "distinct (map seat_id sts) \<Longrightarrow> event_by_id (setSeats_loop i sts ev) s =
    (case index_of s (map seat_id sts) of Some j \<Rightarrow> Some (i + j) | None \<Rightarrow> event_by_id ev s)"
proof (induction sts arbitrary: i ev)
  case Nil
  then show ?case by simp
next
  case (Cons st sts)
  have "seat_id st = s \<Longrightarrow> index_of s (map seat_id sts) = None" using Cons.prems by (auto simp: index_of_None)
  then show ?case using Cons by (auto split: option.split)
qed

lemma Seat_setSeats:
  assumes "distinct (map seat_id sts)"
  shows "Seat (setSeats sts ev) s = row_by seat_id s sts"
proof (cases "index_of s (map seat_id sts)")
  case None
  then have "row_by seat_id s sts = None" by (simp add: row_by_None_iff index_of_None)
  then show ?thesis using None by (simp add: Seat_def setSeats_def setSeats_loop_by_id[OF assms])
next
  case (Some j)
  then have j: "j < length sts" "seat_id (sts ! j) = s" using index_of_Some[OF Some] by auto
  then have "row_by seat_id s sts = Some (sts ! j)" using row_by_in[OF assms, of "sts ! j"] by simp
  then show ?thesis using Some by (simp add: Seat_def setSeats_def setSeats_loop_by_id[OF assms] setSeats_loop_fields)
qed

text \<open>The zone summary is the run-length encoding of the seats.\<close>

definition expand_zones :: "zone list \<Rightarrow> (string \<times> int) list" where
  "expand_zones zs = concat (map (\<lambda>z. replicate (nat (zone_seats z)) (zone_name z, zone_price_vnd z)) zs)"

fun neighbours_differ :: "zone list \<Rightarrow> bool" where
  "neighbours_differ (a # b # zs) = ((zone_name a, zone_price_vnd a) \<noteq> (zone_name b, zone_price_vnd b)
     \<and> neighbours_differ (b # zs))"
| "neighbours_differ _ = True"

definition zones_ok :: "zone list \<Rightarrow> bool" where
  "zones_ok zs \<longleftrightarrow> (\<forall>z\<in>set zs. 0 < zone_seats z) \<and> neighbours_differ zs"

lemma neighbours_differ_snoc:
  "neighbours_differ (zs @ [z]) \<longleftrightarrow> neighbours_differ zs
    \<and> (zs = [] \<or> (zone_name (last zs), zone_price_vnd (last zs)) \<noteq> (zone_name z, zone_price_vnd z))"
  by (induction zs rule: neighbours_differ.induct) auto

lemma add_to_zones_expand:
  assumes "zones_ok zs"
  shows "zones_ok (add_to_zones zs st)
    \<and> expand_zones (add_to_zones zs st) = expand_zones zs @ [(seat_zone st, seat_price_vnd st)]"
proof (cases "zs = [] \<or> zone_name (last zs) \<noteq> seat_zone st \<or> zone_price_vnd (last zs) \<noteq> seat_price_vnd st")
  case True
  then show ?thesis using assms
    by (auto simp: add_to_zones_def Let_def zones_ok_def neighbours_differ_snoc expand_zones_def)
next
  case False
  then obtain ys z where zs: "zs = ys @ [z]" by (meson rev_exhaust)
  have "0 < zone_seats z" using assms zs by (simp add: zones_ok_def)
  then have "nat (zone_seats z + 1) = Suc (nat (zone_seats z))" by simp
  then show ?thesis using assms False
    by (auto simp: add_to_zones_def Let_def zones_ok_def neighbours_differ_snoc expand_zones_def zs
        replicate_append_same)
qed

lemma foldl_add_to_zones:
  "zones_ok zs \<Longrightarrow> zones_ok (foldl add_to_zones zs sts)
    \<and> expand_zones (foldl add_to_zones zs sts) = expand_zones zs @ map (\<lambda>st. (seat_zone st, seat_price_vnd st)) sts"
  by (induction sts arbitrary: zs) (simp_all add: add_to_zones_expand)

section \<open>Seat names\<close>

definition label_value :: "string \<Rightarrow> nat" where
  "label_value s = foldl (\<lambda>a c. 26 * a + (of_char c - 64)) 0 s"

lemma label_value_loop:
  "foldl (\<lambda>a c. 26 * a + (of_char c - 64)) 0 (row_label_loop i l)
    = foldl (\<lambda>a c. 26 * a + (of_char c - 64)) i l"
proof (induction i l rule: row_label_loop.induct)
  case (1 i l)
  show ?case
  proof (cases "i = 0")
    case True
    then show ?thesis by (simp add: row_label_loop.simps[of i])
  next
    case False
    have "(i - 1) mod 26 < 26" by simp
    then have "of_char (char_of (65 + (i - 1) mod 26) :: char) = 65 + (i - 1) mod 26"
      by (simp add: of_char_of)
    then have "26 * ((i - 1) div 26) + (of_char (char_of (65 + (i - 1) mod 26) :: char) - 64) = i"
      using False by simp
    then show ?thesis using False 1 by (simp add: row_label_loop.simps[of i])
  qed
qed

lemma label_value_rowLabel: "label_value (rowLabel i) = i + 1"
  by (simp add: label_value_def rowLabel_def label_value_loop)

lemma rowLabel_inject: "rowLabel i = rowLabel j \<longleftrightarrow> i = j"
  by (metis add_right_cancel label_value_rowLabel)

lemma row_label_letters: "c \<in> set (row_label_loop i l) \<Longrightarrow> c \<in> set l \<or> (65 \<le> (of_char c :: nat) \<and> (of_char c :: nat) \<le> 90)"
proof (induction i l rule: row_label_loop.induct)
  case (1 i l)
  show ?case
  proof (cases "i = 0")
    case True
    then show ?thesis using 1 by (simp add: row_label_loop.simps[of i])
  next
    case False
    then have "c \<in> set (char_of (65 + (i - 1) mod 26) # l) \<or> (65 \<le> (of_char c :: nat) \<and> (of_char c :: nat) \<le> 90)"
      using 1 by (simp add: row_label_loop.simps[of i])
    moreover have "(i - 1) mod 26 < 26" by simp
    ultimately show ?thesis by (auto simp: of_char_of)
  qed
qed

lemma row_label_no_dash: "CHR ''-'' \<notin> set (rowLabel i)"
  by (auto simp: rowLabel_def dest!: row_label_letters)

lemma digits_no_dash: "CHR ''-'' \<notin> set (digits_of n)"
  by (auto simp: is_digit_def digit_val_def dest!: digits_of_digit)

lemma append_sep_inject_last:
  assumes "c \<notin> set us" "c \<notin> set vs" "xs @ c # us = ys @ c # vs"
  shows "xs = ys \<and> us = vs"
proof -
  have "rev us @ c # rev xs = rev vs @ c # rev ys" using arg_cong[OF assms(3), of rev] by simp
  then show ?thesis using append_sep_inject[of c "rev us" "rev vs" "rev xs" "rev ys"] assms(1,2) by simp
qed

lemma seat_name_inject:
  assumes "seat_name z (rowLabel r) n = seat_name z' (rowLabel r') n'"
  shows "z = z' \<and> r = r' \<and> n = n'"
proof -
  have "(z @ ''-'' @ rowLabel r) @ CHR ''-'' # digits_of n = (z' @ ''-'' @ rowLabel r') @ CHR ''-'' # digits_of n'"
    using assms by (simp add: seat_name_def)
  from append_sep_inject_last[OF digits_no_dash digits_no_dash this]
  have n: "n = n'" and "z @ CHR ''-'' # rowLabel r = z' @ CHR ''-'' # rowLabel r'" by simp_all
  from append_sep_inject_last[OF row_label_no_dash row_label_no_dash this(2)] n
  show ?thesis by (simp add: rowLabel_inject)
qed

lemma zone_seats_ids: "seat_id ` set (zone_layout_seats z)
    = (\<lambda>(r, n). seat_name (zl_zone z) (rowLabel r) n) ` ({0..<zl_rows z} \<times> {1..<zl_seats_per_row z + 1})"
  by (force simp: zone_layout_seats_def)

lemma distinct_zone_seats: "distinct (map seat_id (zone_layout_seats z))"
proof -
  have "map seat_id (zone_layout_seats z)
    = map (\<lambda>(r, n). seat_name (zl_zone z) (rowLabel r) n) (List.product [0..<zl_rows z] [1..<zl_seats_per_row z + 1])"
    by (simp add: zone_layout_seats_def product_concat_map map_concat o_def)
  then show ?thesis by (auto simp: distinct_map distinct_product inj_on_def dest: seat_name_inject)
qed

lemma distinct_Seats:
  assumes "distinct (map zl_zone (sp_zones s))"
  shows "distinct (map seat_id (Seats s))"
proof -
  have "distinct (map zl_zone zs) \<Longrightarrow> distinct (map seat_id (concat (map zone_layout_seats zs)))" for zs
  proof (induction zs)
    case (Cons z zs)
    have "seat_id ` set (zone_layout_seats z) \<inter> seat_id ` set (concat (map zone_layout_seats zs)) = {}"
    proof -
      have "zl_zone z' \<noteq> zl_zone z" if "z' \<in> set zs" for z'
        using Cons.prems that by (metis distinct.simps(2) image_eqI list.simps(9) set_map)
      then have "seat_id ` set (zone_layout_seats z) \<inter> seat_id ` set (zone_layout_seats z') = {}" if "z' \<in> set zs" for z'
        unfolding zone_seats_ids using that by (force dest: seat_name_inject)
      then show ?thesis by (simp add: image_UN) blast
    qed
    then show ?case using Cons distinct_zone_seats[of z] by auto
  qed simp
  then show ?thesis using assms by (simp add: Seats_def)
qed

section \<open>Seeding and loading\<close>

definition seed_ok :: "EventSpec \<Rightarrow> bool" where
  "seed_ok s \<longleftrightarrow> distinct (map zl_zone (sp_zones s)) \<and> (\<forall>z\<in>set (sp_zones s). 0 < zl_price_vnd z \<and> int (zl_seats_per_row z) < 2 ^ 31)"

lemma Seats_price: "st \<in> set (Seats s) \<Longrightarrow> \<exists>z\<in>set (sp_zones s). seat_price_vnd st = zl_price_vnd z"
  by (auto simp: Seats_def zone_layout_seats_def)

text \<open>Seat numbers are stored in 32 bits, which keeps them as long as the rows are short enough.\<close>

lemma Seats_no: "seed_ok s \<Longrightarrow> st \<in> set (Seats s) \<Longrightarrow> int32 (seat_no st) = seat_no st"
  by (fastforce simp: seed_ok_def Seats_def zone_layout_seats_def intro: int32_id)

lemma layout_seed_rows: "seed_ok s \<Longrightarrow> map layout_seat (seed_rows eid s) = Seats s"
  by (rule nth_equalityI) (simp_all add: seed_rows_def layout_seat_def Seats_no)

lemma seed_tx_ok:
  assumes "seed_ok s" "new \<notin> e_id ` set (events d)" "distinct (map s_key (seats d))" "new \<notin> s_event_id ` set (seats d)"
  shows "\<exists>r. e_id r = new \<and> e_sale_opens_at r = now + sp_sale_opens_in s
    \<and> seed_tx new s now d = Inr (d\<lparr>events := events d @ [r], seats := seats d @ seed_rows new s\<rparr>, new)"
proof -
  let ?r = "\<lparr>e_id = new, e_name = sp_name s, e_venue = sp_venue s,
            e_starts_at = now + sp_starts_in s, e_sale_opens_at = now + sp_sale_opens_in s,
            e_max_seats_per_order = sp_max_seats_per_order s\<rparr>"
  have price: "\<not> (\<exists>r\<in>set (seed_rows new s). s_price_vnd r \<le> 0)"
    using assms(1) Seats_price[of _ s] by (fastforce simp: seed_rows_def seed_ok_def)
  have "map s_key (seed_rows new s) = map (Pair new) (map seat_id (Seats s))"
    by (simp add: seed_rows_def s_key_def o_def)
  then have "distinct (map s_key (seats d @ seed_rows new s))"
    using assms(3,4) distinct_Seats[of s] assms(1)
    by (auto simp: seed_ok_def distinct_map inj_on_def s_key_def)
  then have "InsertSeats (seed_rows new s) (d\<lparr>events := events d @ [?r]\<rparr>)
      = Inr (d\<lparr>events := events d @ [?r], seats := seats d @ seed_rows new s\<rparr>, int (length (Seats s)))"
    using price by (auto simp: InsertSeats_def seed_rows_def)
  then show ?thesis using assms(2)
    by (intro exI[of _ ?r]) (simp add: seed_tx_def CreateEvent_def tx_bind_def tx_return_def)
qed

text \<open>What a load reads: the event of the row and the seats of the table, in display order.\<close>

definition db_event :: "db \<Rightarrow> int \<Rightarrow> event option" where
  "db_event d eid = map_option (\<lambda>r. build_event r
     (sort_key display_key (filter (\<lambda>s. s_event_id s = eid) (seats d)))) (row_by e_id eid (events d))"

text \<open>The caches hold what the tables hold; events and seats never change after seeding.\<close>

definition cache_ok :: "world \<Rightarrow> bool" where
  "cache_ok w \<longleftrightarrow> (\<forall>n eid ev. cached_events (catalogs w n) eid = Some ev \<longrightarrow> db_event (pg w) eid = Some ev)"

lemma build_event_fields [simp]:
  "event_id (build_event r rows) = e_id r" "event_seats (build_event r rows) = map layout_seat rows"
  "event_seat_ids (build_event r rows) = map s_seat_id rows"
  "event_max_seats_per_order (build_event r rows) = e_max_seats_per_order r"
  by (simp_all add: build_event_def setSeats_def setSeats_loop_fields layout_seat_def o_def)

lemma map_seat_id_layout [simp]: "map seat_id (map layout_seat rows) = map s_seat_id rows"
  by (simp add: layout_seat_def o_def)

lemma option_eqI: "(\<And>r. x = Some r \<longleftrightarrow> y = Some r) \<Longrightarrow> x = y"
  by (cases x; cases y) auto

lemma distinct_event_seats:
  "distinct (map s_key ss) \<Longrightarrow> distinct (map s_seat_id (filter (\<lambda>s. s_event_id s = eid) ss))"
  by (auto simp: distinct_map inj_on_def s_key_def)

lemma row_by_map: "row_by key k (map f rs) = map_option f (row_by (\<lambda>r. key (f r)) k rs)"
  by (induction rs) simp_all

lemma db_event_seat:
  assumes "db_event d eid = Some ev" "distinct (map s_key (seats d))"
  shows "event_id ev = eid"
    and "Seat ev s = map_option layout_seat (row_by s_key (eid, s) (seats d))"
    and "distinct (SeatIDs ev)" and "set (SeatIDs ev) = {s. (eid, s) \<in> s_key ` set (seats d)}"
proof -
  let ?rows = "sort_key display_key (filter (\<lambda>s. s_event_id s = eid) (seats d))"
  obtain r where r: "row_by e_id eid (events d) = Some r" and ev: "ev = build_event r ?rows"
    using assms(1) by (auto simp: db_event_def)
  show "event_id ev = eid" using row_by_SomeD[OF r] by (simp add: ev)
  have dis: "distinct (map s_seat_id ?rows)"
    using distinct_event_seats[OF assms(2), of eid] by (simp add: distinct_map)
  then show "distinct (SeatIDs ev)" by (simp add: ev SeatIDs_def)
  show "set (SeatIDs ev) = {s. (eid, s) \<in> s_key ` set (seats d)}" by (force simp: ev SeatIDs_def s_key_def)
  have "row_by s_seat_id s ?rows = row_by s_key (eid, s) (seats d)"
    by (rule option_eqI) (auto simp: row_by_Some_iff[OF dis] row_by_Some_iff[OF assms(2)] s_key_def)
  moreover have "Seat ev s = row_by seat_id s (map layout_seat ?rows)"
    using dis unfolding ev build_event_def by (intro Seat_setSeats) (simp only: map_seat_id_layout)
  ultimately show "Seat ev s = map_option layout_seat (row_by s_key (eid, s) (seats d))"
    by (simp add: row_by_map layout_seat_def)
qed

section \<open>Guarantees\<close>

lemma keeps_catalog_reads [keeps_intros]:
  assumes "reflp R"
  shows "keeps R (GetEvent eid)" "keeps R (IsSaleOpen now eid)" "keeps R (ListSeats eid)" "keeps R (ListOpenEventIDs now)"
  using assms by (auto simp: GetEvent_def IsSaleOpen_def ListSeats_def ListOpenEventIDs_def keeps_def reflp_def)

lemma guar_pg_cache [guar_intros]:
  assumes "reflp R"
  shows "guar (on_pg R) (local_step (\<lambda>w. (w, f w)))"
    "guar (on_pg R) (local_step (\<lambda>w. (cache_event n eid ev w, ())))"
    "guar (on_pg R) (local_step (\<lambda>w. (cache_sale_open n eid w, ())))"
  using assms by (auto intro!: guar_local simp: on_pg_def cache_event_def cache_sale_open_def reflp_def)

lemma guar_Event [guar_intros]: "reflp R \<Longrightarrow> guar (on_pg R) (Event n eid)"
  unfolding Event_def load_def
  by (intro guar_intros guar_begin_func keeps_catalog_reads | assumption
      | simp split: option.split sum.split | intro conjI allI impI)+

lemma guar_SaleOpen [guar_intros]: "reflp R \<Longrightarrow> guar (on_pg R) (SaleOpen n eid)"
  unfolding SaleOpen_def
  by (intro guar_intros guar_begin_func keeps_catalog_reads | assumption
      | simp split: option.split sum.split | intro conjI allI impI)+

section \<open>The catalog shows what was seeded\<close>

lemma run_load:
  "row_by e_id eid (events (pg w)) = Some r \<Longrightarrow> run [Reply, Reply] w (load eid)
    = Some (w, Inr (build_event r (sort_key display_key (filter (\<lambda>s. s_event_id s = eid) (seats (pg w))))))"
  by (simp add: load_def tx_defs GetEvent_def ListSeats_def one_row_def)

lemma build_event_seat:
  "distinct (map s_seat_id rows) \<Longrightarrow> Seat (build_event r rows) i = row_by seat_id i (map layout_seat rows)"
  unfolding build_event_def by (intro Seat_setSeats) (simp only: map_seat_id_layout)

lemma seeded_layout:
  fixes r new
  assumes "seed_ok s"
  defines "ev \<equiv> build_event r (sort_key display_key (seed_rows new s))"
  shows "mset (event_seats ev) = mset (Seats s) \<and> distinct (SeatIDs ev)
    \<and> list_all (\<lambda>st. Seat ev (seat_id st) = Some st) (Seats s)"
proof -
  let ?rows = "sort_key display_key (seed_rows new s)"
  have seats: "map layout_seat (seed_rows new s) = Seats s" using assms(1) by (rule layout_seed_rows)
  have "map s_seat_id (seed_rows new s) = map seat_id (Seats s)" by (simp flip: seats map_seat_id_layout)
  then have "distinct (map s_seat_id (seed_rows new s))"
    using distinct_Seats[of s] assms(1) by (simp only: seed_ok_def)
  then have dis: "distinct (map s_seat_id ?rows)" by (simp add: distinct_map)
  have m: "mset (map layout_seat ?rows) = mset (Seats s)" unfolding mset_map mset_sort by (simp only: flip: mset_map seats)
  have "row_by seat_id (seat_id st) (map layout_seat ?rows) = Some st" if "st \<in> set (Seats s)" for st
  proof (rule row_by_in)
    show "distinct (map seat_id (map layout_seat ?rows))" using dis by (simp only: map_seat_id_layout)
    show "st \<in> set (map layout_seat ?rows)" using that by (simp only: mset_eq_setD[OF m])
  qed
  then show ?thesis using m dis build_event_seat[OF dis] by (simp add: ev_def list_all_iff SeatIDs_def del: mset_map)
qed

text \<open>
  C35. Seeding and loading are inverse to each other: a layout with distinct zones, positive
  prices and fewer than 2^31 seats in a row is accepted, and loading the new event gives exactly its seats, each found again
  under its id. No two seats of the layout share an id.
\<close>

theorem seeded_event_loads:
  assumes "seed_ok s" "new \<notin> e_id ` set (events (pg w))" "distinct (map s_key (seats (pg w)))"
    and "new \<notin> s_event_id ` set (seats (pg w))"
  shows "\<exists>w' ev. run [Reply] w (Seed new s) = Some (w', Inr new) \<and> run [Reply, Reply] w' (load new) = Some (w', Inr ev)
    \<and> event_id ev = new \<and> mset (event_seats ev) = mset (Seats s) \<and> distinct (SeatIDs ev)
    \<and> list_all (\<lambda>st. Seat ev (seat_id st) = Some st) (Seats s)"
proof -
  obtain r where r: "e_id r = new"
    "seed_tx new s (pg_now w) (pg w) = Inr ((pg w)\<lparr>events := events (pg w) @ [r], seats := seats (pg w) @ seed_rows new s\<rparr>, new)"
    using seed_tx_ok[OF assms, of "pg_now w"] by blast
  define d where "d = (pg w)\<lparr>events := events (pg w) @ [r], seats := seats (pg w) @ seed_rows new s\<rparr>"
  have rows: "filter (\<lambda>x. s_event_id x = new) (seats d) = seed_rows new s"
    using assms(4) by (auto simp: d_def filter_empty_conv filter_id_conv seed_rows_def)
  have row: "row_by e_id new (events d) = Some r"
    using assms(2) r(1) by (simp add: d_def row_by_append row_by_None_iff[THEN iffD2])
  have "run [Reply] w (Seed new s) = Some (w\<lparr>pg := d\<rparr>, Inr new)"
    using r(2) by (simp add: Seed_def begin_func_def run_tx_def d_def)
  moreover have "run [Reply, Reply] (w\<lparr>pg := d\<rparr>) (load new)
      = Some (w\<lparr>pg := d\<rparr>, Inr (build_event r (sort_key display_key (seed_rows new s))))"
    using run_load[of new "w\<lparr>pg := d\<rparr>" r] row rows by simp
  moreover have "event_id (build_event r (sort_key display_key (seed_rows new s))) = new" using r(1) by simp
  ultimately show ?thesis using seeded_layout[OF assms(1), of r new] by blast
qed

definition two_zones :: EventSpec where
  "two_zones = \<lparr>sp_name = ''Gala'', sp_venue = ''Hall'', sp_starts_in = 5000, sp_sale_opens_in = 0,
     sp_max_seats_per_order = 4, sp_zones = [\<lparr>zl_zone = ''A'', zl_rows = 2, zl_seats_per_row = 3, zl_price_vnd = 500\<rparr>,
       \<lparr>zl_zone = ''B'', zl_rows = 1, zl_seats_per_row = 4, zl_price_vnd = 200\<rparr>]\<rparr>"

theorem seeded_event_loads_witness:
  "\<exists>w' ev. run [Reply] (empty_world 0) (Seed 1 two_zones) = Some (w', Inr 1)
    \<and> run [Reply, Reply] w' (load 1) = Some (w', Inr ev) \<and> length (event_seats ev) = 10 \<and> distinct (SeatIDs ev)"
proof -
  have n: "length (Seats two_zones) = 10"
    by (simp add: two_zones_def Seats_def zone_layout_seats_def length_concat numeral_eq_Suc)
  have "seed_ok two_zones" by (simp add: seed_ok_def two_zones_def)
  then obtain w' ev where "run [Reply] (empty_world 0) (Seed 1 two_zones) = Some (w', Inr 1)"
    "run [Reply, Reply] w' (load 1) = Some (w', Inr ev)" "mset (event_seats ev) = mset (Seats two_zones)" "distinct (SeatIDs ev)"
    using seeded_event_loads[of two_zones 1 "empty_world 0"] by (auto simp: empty_world_def empty_db_def)
  then show ?thesis using n mset_eq_length[of "event_seats ev"] by auto
qed

text \<open>
  The zone summary of an event is the run-length encoding of its seats in display order:
  expanding every zone to its number of seats gives back the zone and price of each seat, no
  zone is empty, and neighbouring zones differ.
\<close>

theorem zones_summarise_seats:
  "zones_ok (event_zones (setSeats sts ev))
    \<and> expand_zones (event_zones (setSeats sts ev)) = map (\<lambda>st. (seat_zone st, seat_price_vnd st)) sts"
  using foldl_add_to_zones[of "[]" sts] by (simp add: setSeats_def setSeats_loop_fields zones_ok_def expand_zones_def)

end
