(* ===== verification/Crypto.thy ===== *)
theory Crypto
  imports Prelude "HOL-Library.Word"
begin

text \<open>
  The parts of Go's standard library the sources sign and hash with: \<open>crypto/sha256\<close>,
  \<open>crypto/hmac\<close> with SHA-256, and \<open>encoding/hex\<close>. A byte string is a \<open>string\<close>; a
  \<open>char\<close> is one byte. The lemmas give the round trip of the hexadecimal encoding and the
  digest sizes the signature checks rely on.
\<close>

unbundle bit_operations_syntax

section \<open>SHA-256\<close>

type_synonym w32 = "32 word"

text \<open>
  The constants as FIPS 180-4 defines them: the first 32 bits of the fractional parts of the
  cube roots of the first 64 primes, and of the square roots of the first eight. \<open>int_root\<close>
  finds the integer root of n bit by bit.
\<close>

definition sha_primes :: "nat list" where
  "sha_primes = filter (\<lambda>n. list_all (\<lambda>m. n mod m \<noteq> 0) [2..<n]) [2..<312]"

fun int_root :: "nat \<Rightarrow> nat \<Rightarrow> nat \<Rightarrow> nat \<Rightarrow> nat" where
  "int_root e 0 n a = a"
| "int_root e (Suc b) n a = int_root e b n (if (a + 2 ^ b) ^ e \<le> n then a + 2 ^ b else a)"

definition sha_K :: "w32 list" where
  "sha_K = map (\<lambda>p. of_nat (int_root 3 40 (p * 2 ^ 96) 0)) sha_primes"

definition sha_H0 :: "w32 list" where
  "sha_H0 = map (\<lambda>p. of_nat (int_root 2 40 (p * 2 ^ 64) 0)) (take 8 sha_primes)"

definition rotr :: "nat \<Rightarrow> w32 \<Rightarrow> w32" where
  "rotr n x = drop_bit n x OR push_bit (32 - n) x"

fun words_of_bytes :: "string \<Rightarrow> w32 list" where
  "words_of_bytes (a # b # c # d # cs) =
    of_nat (((of_char a * 256 + of_char b) * 256 + of_char c) * 256 + of_char d) # words_of_bytes cs"
| "words_of_bytes _ = []"

text \<open>Big-endian bytes of a number.\<close>

fun be_bytes :: "nat \<Rightarrow> nat \<Rightarrow> string" where
  "be_bytes 0 n = []"
| "be_bytes (Suc k) n = be_bytes k (n div 256) @ [char_of n]"

text \<open>The message schedule, newest word first.\<close>

fun sha_extend :: "nat \<Rightarrow> w32 list \<Rightarrow> w32 list" where
  "sha_extend 0 ws = ws"
| "sha_extend (Suc n) ws =
    (let x = ws ! 14; y = ws ! 1;
         s0 = rotr 7 x XOR rotr 18 x XOR drop_bit 3 x;
         s1 = rotr 17 y XOR rotr 19 y XOR drop_bit 10 y
     in sha_extend n ((s1 + ws ! 6 + s0 + ws ! 15) # ws))"

fun sha_round :: "w32 \<times> w32 \<Rightarrow> w32 list \<Rightarrow> w32 list" where
  "sha_round (k, w) [a, b, c, d, e, f, g, h] =
    (let t1 = h + (rotr 6 e XOR rotr 11 e XOR rotr 25 e) + ((e AND f) XOR (NOT e AND g)) + k + w;
         t2 = (rotr 2 a XOR rotr 13 a XOR rotr 22 a) + ((a AND b) XOR (a AND c) XOR (b AND c))
     in [t1 + t2, a, b, c, d + t1, e, f, g])"
| "sha_round _ st = st"

definition sha_block :: "w32 list \<Rightarrow> w32 list \<Rightarrow> w32 list" where
  "sha_block hs ws = map2 (+) hs (foldl (\<lambda>st kw. sha_round kw st) hs (zip sha_K (rev (sha_extend 48 (rev ws)))))"

function sha_blocks :: "w32 list \<Rightarrow> w32 list \<Rightarrow> w32 list" where
  "sha_blocks hs ws = (if length ws < 16 then hs else sha_blocks (sha_block hs (take 16 ws)) (drop 16 ws))"
  by pat_completeness auto
termination
  by (relation "measure (\<lambda>(hs, ws). length ws)") auto

declare sha_blocks.simps [simp del]

definition sha_pad :: "string \<Rightarrow> string" where
  "sha_pad m = m @ [char_of (128 :: nat)]
     @ replicate ((119 - length m mod 64) mod 64) (char_of (0 :: nat)) @ be_bytes 8 (8 * length m)"

definition sha256 :: "string \<Rightarrow> string" where
  "sha256 m = concat (map (\<lambda>w. be_bytes 4 (unat w)) (sha_blocks sha_H0 (words_of_bytes (sha_pad m))))"

section \<open>HMAC\<close>

definition xor_pad :: "nat \<Rightarrow> string \<Rightarrow> string" where
  "xor_pad p key = map (\<lambda>c. char_of (of_char c XOR p)) key"

definition hmac_key :: "string \<Rightarrow> string" where
  "hmac_key key = (let k = (if length key > 64 then sha256 key else key)
     in k @ replicate (64 - length k) (char_of (0 :: nat)))"

definition hmac_sha256 :: "string \<Rightarrow> string \<Rightarrow> string" where
  "hmac_sha256 key m = sha256 (xor_pad 0x5c (hmac_key key) @ sha256 (xor_pad 0x36 (hmac_key key) @ m))"

section \<open>Hexadecimal\<close>

definition hex_digit :: "nat \<Rightarrow> char" where
  "hex_digit n = (if n < 10 then char_of (48 + n) else char_of (87 + n))"

definition hex_value :: "char \<Rightarrow> nat option" where
  "hex_value c = (let n = of_char c in
     if 48 \<le> n \<and> n \<le> 57 then Some (n - 48)
     else if 97 \<le> n \<and> n \<le> 102 then Some (n - 87)
     else if 65 \<le> n \<and> n \<le> 70 then Some (n - 55)
     else None)"

fun hex_encode :: "string \<Rightarrow> string" where
  "hex_encode [] = []"
| "hex_encode (c # cs) = hex_digit (of_char c div 16) # hex_digit (of_char c mod 16) # hex_encode cs"

text \<open>\<open>hex.DecodeString\<close>: an odd length or a byte that is no digit is an error.\<close>

fun hex_decode :: "string \<Rightarrow> string option" where
  "hex_decode [] = Some []"
| "hex_decode [c] = None"
| "hex_decode (a # b # cs) = (case (hex_value a, hex_value b, hex_decode cs) of
     (Some x, Some y, Some r) \<Rightarrow> Some (char_of (16 * x + y) # r)
   | _ \<Rightarrow> None)"

lemma hex_value_digit: "n < 16 \<Longrightarrow> hex_value (hex_digit n) = Some n"
  by (auto simp: hex_value_def hex_digit_def Let_def)

lemma of_char_lt: "(of_char c :: nat) < 256"
  by simp

lemma hex_decode_encode: "hex_decode (hex_encode s) = Some s"
proof (induction s)
  case (Cons c s)
  have "(of_char c :: nat) div 16 < 16" using of_char_lt[of c] by linarith
  then show ?case using Cons by (simp add: hex_value_digit)
qed simp

lemma hex_encode_inject: "hex_encode a = hex_encode b \<longleftrightarrow> a = b"
  by (metis hex_decode_encode option.inject)

lemma length_hex_encode [simp]: "length (hex_encode s) = 2 * length s"
  by (induction s) simp_all

section \<open>Sizes\<close>

lemma length_be_bytes [simp]: "length (be_bytes k n) = k"
  by (induction k arbitrary: n) simp_all

lemma length_sha_round: "length st = 8 \<Longrightarrow> length (sha_round kw st) = 8"
  by (cases "(kw, st)" rule: sha_round.cases) (simp_all add: Let_def)

lemma length_sha_rounds: "length st = 8 \<Longrightarrow> length (foldl (\<lambda>st kw. sha_round kw st) st kws) = 8"
  by (induction kws arbitrary: st) (simp_all add: length_sha_round)

lemma length_sha_block: "length hs = 8 \<Longrightarrow> length (sha_block hs ws) = 8"
  by (simp add: sha_block_def length_sha_rounds)

lemma length_sha_blocks: "length hs = 8 \<Longrightarrow> length (sha_blocks hs ws) = 8"
proof (induction hs ws rule: sha_blocks.induct)
  case (1 hs ws)
  then show ?case by (cases "length ws < 16") (simp_all add: sha_blocks.simps[of hs ws] length_sha_block)
qed

lemma eight_sha_primes: "8 \<le> length sha_primes"
proof -
  let ?P = "\<lambda>n. list_all (\<lambda>m. n mod m \<noteq> (0 :: nat)) [2..<n]"
  have "[2..<312] = [2..<20] @ [20..<312 :: nat]"
    using upt_add_eq_append[of 2 20 292] by (simp only: numeral_plus_numeral arith_simps)
  then have "filter ?P [2..<312] = filter ?P [2..<20] @ filter ?P [20..<312]"
    by (simp only: filter_append)
  moreover have "length (filter ?P [2..<20]) = 8" by simp
  ultimately show ?thesis unfolding sha_primes_def by (simp only: length_append le_add1)
qed

lemma length_sha256 [simp]: "length (sha256 m) = 32"
proof -
  have "length (concat (map (\<lambda>w :: w32. be_bytes 4 (unat w)) ws)) = 4 * length ws" for ws
    by (induction ws) simp_all
  moreover have "length (sha_blocks sha_H0 (words_of_bytes (sha_pad m))) = 8"
    by (rule length_sha_blocks) (simp add: sha_H0_def eight_sha_primes)
  ultimately show ?thesis by (simp add: sha256_def)
qed

lemma length_hmac [simp]: "length (hmac_sha256 k m) = 32"
  by (simp add: hmac_sha256_def)

text \<open>The padding fills whole blocks.\<close>

lemma length_sha_pad: "length (sha_pad m) mod 64 = 0"
proof -
  have "length (sha_pad m) = 64 * (length m div 64) + (length m mod 64 + 9 + (119 - length m mod 64) mod 64)"
    by (simp add: sha_pad_def)
  moreover have "(r + 9 + (119 - r) mod 64) mod 64 = 0" if "r < 64" for r :: nat
  proof (cases "r \<le> 55")
    case True
    then have "(119 - r) mod 64 = 55 - r" by (simp add: mod_if)
    then show ?thesis using True by simp
  next
    case False
    then have "(119 - r) mod 64 = 119 - r" using that by simp
    then show ?thesis using that False by simp
  qed
  ultimately show ?thesis by (simp only: mod_mult_self4 mod_less_divisor zero_less_numeral)
qed

end
