(* ===== verification/Request.thy ===== *)
theory Request
  imports Catalog Crypto
begin

text \<open>
  The order request, \<open>internal/order/request.go\<close>: validation and normalisation against the
  event, and the hash that decides whether an Idempotency-Key is replayed or reused. The
  canonical form is what \<open>encoding/json\<close> writes for the struct.
\<close>

record CreateRequest =
  rq_event_id :: int
  rq_seat_ids :: "string list"

definition NewValidationError :: "string \<Rightarrow> string \<Rightarrow> goerror" where
  "NewValidationError field reason = [ErrValidation field reason]"

text \<open>The loop over the sorted ids; \<open>prev\<close> is the id before, if any.\<close>

fun check_seats :: "event \<Rightarrow> string option \<Rightarrow> string list \<Rightarrow> goerror option" where
  "check_seats ev prev [] = None"
| "check_seats ev prev (s # ss) =
    (if prev = Some s then Some (NewValidationError ''seat_ids'' (''duplicate seat '' @ s))
     else if Seat ev s = None then Some (NewValidationError ''seat_ids'' (''unknown seat '' @ s))
     else check_seats ev (Some s) ss)"

definition normalize :: "CreateRequest \<Rightarrow> event \<Rightarrow> CreateRequest res" where
  "normalize r ev =
    (let n = int (length (rq_seat_ids r)) in
     if n = 0 then Inl (NewValidationError ''seat_ids'' ''at least one seat is required'')
     else if n > event_max_seats_per_order ev
     then Inl (NewValidationError ''seat_ids''
       (''at most '' @ format_int (event_max_seats_per_order ev) @ '' seats per order''))
     else let ss = sort (rq_seat_ids r) in
       (case check_seats ev None ss of
          Some e \<Rightarrow> Inl e
        | None \<Rightarrow> Inr \<lparr>rq_event_id = rq_event_id r, rq_seat_ids = ss\<rparr>))"

section \<open>Canonical JSON\<close>

definition hex4 :: "nat \<Rightarrow> string" where
  "hex4 n = map (\<lambda>k. hex_digit (n div 16 ^ k mod 16)) [3, 2, 1, 0]"

definition json_char :: "char \<Rightarrow> string" where
  "json_char c = (let n = of_char c in
     if n = 34 \<or> n = 92 then [CHR 0x5C, c]
     else if n = 8 then [CHR 0x5C, CHR ''b'']
     else if n = 12 then [CHR 0x5C, CHR ''f'']
     else if n = 10 then [CHR 0x5C, CHR ''n'']
     else if n = 13 then [CHR 0x5C, CHR ''r'']
     else if n = 9 then [CHR 0x5C, CHR ''t'']
     else if n < 32 \<or> n = 60 \<or> n = 62 \<or> n = 38 then CHR 0x5C # CHR ''u'' # hex4 n
     else [c])"

text \<open>
  A string literal. Ids of seats are valid UTF-8, whose bytes above 127 are copied, except
  that U+2028 and U+2029 (bytes E2 80 A8 and E2 80 A9) are escaped.
\<close>

fun json_chars :: "string \<Rightarrow> string" where
  "json_chars [] = []"
| "json_chars (c # cs) =
    (if c = CHR 0xE2 \<and> take 2 cs = [CHR 0x80, CHR 0xA8] then CHR 0x5C # CHR ''u'' # hex4 0x2028 @ json_chars (drop 2 cs)
     else if c = CHR 0xE2 \<and> take 2 cs = [CHR 0x80, CHR 0xA9] then CHR 0x5C # CHR ''u'' # hex4 0x2029 @ json_chars (drop 2 cs)
     else json_char c @ json_chars cs)"

definition json_string :: "string \<Rightarrow> string" where
  "json_string s = [CHR 0x22] @ json_chars s @ [CHR 0x22]"

fun json_list :: "string list \<Rightarrow> string" where
  "json_list [] = '']''"
| "json_list [x] = x @ '']''"
| "json_list (x # xs) = x @ '','' @ json_list xs"

definition canonical :: "CreateRequest \<Rightarrow> string" where
  "canonical r = ''{'' @ json_string ''event_id'' @ '':'' @ format_int (rq_event_id r) @ '',''
     @ json_string ''seat_ids'' @ '':['' @ json_list (map json_string (rq_seat_ids r)) @ ''}''"

definition requestHash :: "CreateRequest \<Rightarrow> string" where
  "requestHash r = hex_encode (sha256 (canonical r))"

section \<open>Normalised requests\<close>

lemma check_seats_None:
  "check_seats ev prev ss = None \<longleftrightarrow> (\<forall>s\<in>set ss. Seat ev s \<noteq> None)
    \<and> successively (\<noteq>) (case prev of None \<Rightarrow> ss | Some p \<Rightarrow> p # ss)"
  by (induction ss arbitrary: prev) (auto simp: successively_Cons split: option.splits)

lemma sorted_successively_distinct:
  "sorted (xs :: string list) \<Longrightarrow> successively (\<noteq>) xs \<longleftrightarrow> distinct xs"
proof (induction xs)
  case (Cons x xs)
  then show ?case by (cases xs) auto
qed simp

lemma check_sorted_None:
  "check_seats ev None (sort ss) = None \<longleftrightarrow> distinct ss \<and> (\<forall>s\<in>set ss. Seat ev s \<noteq> None)"
  using sorted_successively_distinct[of "sort ss"] by (auto simp: check_seats_None)

lemma normalize_Inr:
  "normalize r ev = Inr r' \<longleftrightarrow>
     rq_seat_ids r \<noteq> [] \<and> int (length (rq_seat_ids r)) \<le> event_max_seats_per_order ev
     \<and> distinct (rq_seat_ids r) \<and> (\<forall>s\<in>set (rq_seat_ids r). Seat ev s \<noteq> None)
     \<and> r' = \<lparr>rq_event_id = rq_event_id r, rq_seat_ids = sort (rq_seat_ids r)\<rparr>"
  using check_sorted_None[of ev "rq_seat_ids r"]
  by (auto simp: normalize_def Let_def split: option.split)

lemma normalize_perm:
  assumes "mset (rq_seat_ids a) = mset (rq_seat_ids b)" "rq_event_id a = rq_event_id b"
  shows "normalize a ev = normalize b ev"
proof -
  have "sort (rq_seat_ids a) = sort (rq_seat_ids b)" using assms(1) by (simp add: properties_for_sort)
  moreover have "length (rq_seat_ids a) = length (rq_seat_ids b)" using assms(1) by (metis size_mset)
  ultimately show ?thesis using assms(2) by (simp add: normalize_def Let_def split: option.split)
qed

section \<open>The canonical text determines the request\<close>

text \<open>A reader of the string literals that \<open>json_string\<close> writes, after the opening quote.\<close>

fun read_hex4 :: "string \<Rightarrow> nat option" where
  "read_hex4 [a, b, c, d] = (case (hex_value a, hex_value b, hex_value c, hex_value d) of
     (Some w, Some x, Some y, Some z) \<Rightarrow> Some (4096 * w + 256 * x + 16 * y + z)
   | _ \<Rightarrow> None)"
| "read_hex4 _ = None"

definition unescape :: "char \<Rightarrow> char" where
  "unescape e = (if e = CHR ''b'' then CHR 0x08 else if e = CHR ''f'' then CHR 0x0C
     else if e = CHR ''n'' then CHR 0x0A else if e = CHR ''r'' then CHR 0x0D
     else if e = CHR ''t'' then CHR 0x09 else e)"

definition code_point :: "nat \<Rightarrow> string" where
  "code_point n = (if n = 0x2028 then [CHR 0xE2, CHR 0x80, CHR 0xA8]
     else if n = 0x2029 then [CHR 0xE2, CHR 0x80, CHR 0xA9] else [char_of n])"

fun json_read :: "string \<Rightarrow> (string \<times> string) option" where
  "json_read [] = None"
| "json_read (c # cs) =
    (if c = CHR 0x22 then Some ([], cs)
     else if c = CHR 0x5C then (case cs of
         [] \<Rightarrow> None
       | e # es \<Rightarrow>
           if e = CHR ''u'' then (case read_hex4 (take 4 es) of
               None \<Rightarrow> None
             | Some n \<Rightarrow> map_option (apfst ((@) (code_point n))) (json_read (drop 4 es)))
           else map_option (apfst ((#) (unescape e))) (json_read es))
     else map_option (apfst ((#) c)) (json_read cs))"

lemma length_hex4 [simp]: "length (hex4 n) = 4"
  by (simp add: hex4_def)

lemma read_hex4_hex4: "n < 65536 \<Longrightarrow> read_hex4 (hex4 n) = Some n"
proof -
  assume "n < 65536"
  then have "n div 4096 < 16" by simp
  moreover have "n = 16 * (n div 16) + n mod 16" "n div 16 = 16 * (n div 256) + n div 16 mod 16"
    "n div 256 = 16 * (n div 4096) + n div 256 mod 16"
    using div_mult_mod_eq[of "n div 16" 16] div_mult_mod_eq[of "n div 256" 16] by (simp_all add: div_mult2_eq[symmetric])
  ultimately have "n div 4096 < 16" "4096 * (n div 4096) + 256 * (n div 256 mod 16) + 16 * (n div 16 mod 16) + n mod 16 = n"
    by linarith+
  then show ?thesis by (simp add: hex4_def hex_value_digit)
qed

lemma json_read_hex4:
  "n < 65536 \<Longrightarrow> json_read (CHR 0x5C # CHR ''u'' # hex4 n @ t) = map_option (apfst ((@) (code_point n))) (json_read t)"
  by (simp add: read_hex4_hex4)

lemma append_single: "(@) [x] = (#) x"
  by (simp add: fun_eq_iff)

lemma json_char_cases:
  obtains (short) e where "json_char c = [CHR 0x5C, e]" "unescape e = c" "e \<noteq> CHR ''u''"
  | (long) n where "json_char c = CHR 0x5C # CHR ''u'' # hex4 n" "n < 256" "c = char_of n"
  | (plain) "json_char c = [c]" "c \<noteq> CHR 0x22" "c \<noteq> CHR 0x5C"
proof -
  define n :: nat where "n = of_char c"
  have c: "c = char_of n" "n < 256" by (simp_all add: n_def)
  have j: "json_char c = (if n = 34 \<or> n = 92 then [CHR 0x5C, c]
     else if n = 8 then [CHR 0x5C, CHR ''b''] else if n = 12 then [CHR 0x5C, CHR ''f'']
     else if n = 10 then [CHR 0x5C, CHR ''n''] else if n = 13 then [CHR 0x5C, CHR ''r'']
     else if n = 9 then [CHR 0x5C, CHR ''t'']
     else if n < 32 \<or> n = 60 \<or> n = 62 \<or> n = 38 then CHR 0x5C # CHR ''u'' # hex4 n else [c])"
    by (simp add: json_char_def n_def)
  have s: "n = 34 \<or> n = 92 \<Longrightarrow> unescape c = c \<and> c \<noteq> CHR ''u''" by (auto simp: n_def unescape_def)
  have e: "unescape CHR ''b'' = char_of (8::nat)" "unescape CHR ''f'' = char_of (12::nat)"
    "unescape CHR ''n'' = char_of (10::nat)" "unescape CHR ''r'' = char_of (13::nat)" "unescape CHR ''t'' = char_of (9::nat)"
    by (simp_all add: unescape_def char_of_def bit_0)
  consider "n = 34 \<or> n = 92" | "n = 8" | "n = 12" | "n = 10" | "n = 13" | "n = 9"
    | "n \<notin> {34, 92, 8, 12, 10, 13, 9}" "n < 32 \<or> n = 60 \<or> n = 62 \<or> n = 38"
    | "n \<notin> {34, 92, 8, 12, 10, 13, 9}" "\<not> (n < 32 \<or> n = 60 \<or> n = 62 \<or> n = 38)" by blast
  then show thesis
  proof cases
    case 1
    then show ?thesis using short[of c] j s by simp
  next
    case 2
    then show ?thesis using short[of "CHR ''b''"] j e(1) c(1) by simp
  next
    case 3
    then show ?thesis using short[of "CHR ''f''"] j e(2) c(1) by simp
  next
    case 4
    then show ?thesis using short[of "CHR ''n''"] j e(3) c(1) by simp
  next
    case 5
    then show ?thesis using short[of "CHR ''r''"] j e(4) c(1) by simp
  next
    case 6
    then show ?thesis using short[of "CHR ''t''"] j e(5) c(1) by simp
  next
    case 7
    then show ?thesis using long[of n] j c by simp
  next
    case 8
    then have "c \<noteq> CHR 0x22" "c \<noteq> CHR 0x5C" by (auto simp: n_def)
    then show ?thesis using plain j 8 by simp
  qed
qed

lemma json_read_char: "json_read (json_char c @ t) = map_option (apfst ((#) c)) (json_read t)"
proof (cases c rule: json_char_cases)
  case (long n)
  then show ?thesis using json_read_hex4[of n t] by (simp add: code_point_def append_single del: json_read.simps)
qed (auto simp: unescape_def)

lemma json_read_chars: "json_read (json_chars s @ CHR 0x22 # t) = Some (s, t)"
proof (induction s rule: json_chars.induct)
  case (2 c cs)
  have e: "cs = a # b # drop 2 cs" if "take 2 cs = [a, b]" for a b
    using that by (metis append_Cons append_Nil append_take_drop_id)
  show ?case
  proof (cases "c = CHR 0xE2 \<and> take 2 cs \<in> {[CHR 0x80, CHR 0xA8], [CHR 0x80, CHR 0xA9]}")
    case True
    then obtain n :: nat where n: "n = 0x2028 \<and> take 2 cs = [CHR 0x80, CHR 0xA8] \<or> n = 0x2029 \<and> take 2 cs = [CHR 0x80, CHR 0xA9]"
      by blast
    then have cs: "c # cs = code_point n @ drop 2 cs" "n < 65536"
      and j: "json_chars (c # cs) = CHR 0x5C # CHR ''u'' # hex4 n @ json_chars (drop 2 cs)"
      using True by (elim disjE conjE; simp add: code_point_def e[symmetric])+
    have "json_read (json_chars (drop 2 cs) @ CHR 0x22 # t) = Some (drop 2 cs, t)" using 2(1,2) True by auto
    then show ?thesis unfolding j using json_read_hex4[OF cs(2)] cs(1) by (simp del: json_read.simps)
  next
    case False
    then have "json_chars (c # cs) = json_char c @ json_chars cs" "json_read (json_chars cs @ CHR 0x22 # t) = Some (cs, t)"
      using 2(3) by auto
    then show ?thesis using json_read_char[of c "json_chars cs @ CHR 0x22 # t"] by (simp del: json_read.simps json_chars.simps)
  qed
qed simp

lemma json_string_inject: "json_string a @ x = json_string b @ y \<Longrightarrow> a = b \<and> x = y"
proof -
  assume "json_string a @ x = json_string b @ y"
  then have "json_chars a @ CHR 0x22 # x = json_chars b @ CHR 0x22 # y" by (simp add: json_string_def)
  then have "Some (a, x) = Some (b, y)" unfolding json_read_chars[symmetric] by simp
  then show ?thesis by simp
qed

lemma json_list_inject:
  "json_list (map json_string xs) @ t = json_list (map json_string ys) @ u \<Longrightarrow> xs = ys \<and> t = u"
proof (induction xs arbitrary: ys)
  case Nil
  then show ?case by (cases ys; cases "tl ys") (auto simp: json_string_def)
next
  case (Cons x xs)
  have step: "\<exists>s. json_list (map json_string (z # zs)) @ v = json_string z @ s
      \<and> (zs = [] \<longrightarrow> s = CHR '']'' # v) \<and> (zs \<noteq> [] \<longrightarrow> s = CHR '','' # json_list (map json_string zs) @ v)" for z zs v
    by (cases zs) auto
  show ?case
  proof (cases ys)
    case Nil
    then have "json_string x @ s = CHR '']'' # u \<Longrightarrow> False" for s by (simp add: json_string_def)
    then show ?thesis using Cons.prems step[of x xs t] Nil by auto
  next
    case (Cons y ys')
    then show ?thesis using Cons.prems step[of x xs t] step[of y ys' u] Cons.IH[of ys']
      by (cases "xs = []"; cases "ys' = []") (auto dest!: json_string_inject)
  qed
qed

lemma canonical_inject: "canonical a = canonical b \<longleftrightarrow> a = b"
proof
  let ?t = "\<lambda>r. json_string ''seat_ids'' @ '':['' @ json_list (map json_string (rq_seat_ids r)) @ ''}''"
  assume "canonical a = canonical b"
  then have "format_int (rq_event_id a) @ CHR '','' # ?t a = format_int (rq_event_id b) @ CHR '','' # ?t b"
    by (simp add: canonical_def)
  moreover have "CHR '','' \<notin> set (format_int n)" for n
    using format_int_chars[of "CHR '',''" n] by (auto simp: is_digit_def digit_val_def)
  ultimately have "rq_event_id a = rq_event_id b" "?t a = ?t b"
    using append_sep_inject by (metis format_int_inject)+
  then show "a = b" using json_list_inject by (cases a; cases b) auto
qed simp

section \<open>What the validation accepts\<close>

text \<open>
  The validation accepts a request exactly when it names at least one seat and at most the
  event's limit, no seat twice and only seats of the event; what it returns is the same
  request with the seats sorted.
\<close>

theorem normalize_accepts:
  "normalize r ev = Inr r' \<longleftrightarrow>
     0 < length (rq_seat_ids r) \<and> int (length (rq_seat_ids r)) \<le> event_max_seats_per_order ev
     \<and> distinct (rq_seat_ids r) \<and> list_all (\<lambda>s. Seat ev s \<noteq> None) (rq_seat_ids r)
     \<and> r' = \<lparr>rq_event_id = rq_event_id r, rq_seat_ids = sort (rq_seat_ids r)\<rparr>"
  by (auto simp: normalize_Inr list_all_iff)

text \<open>
  C27. The text that is hashed for an Idempotency-Key is the request itself: two accepted
  requests have the same canonical text exactly when they ask for the same seats of the same
  event, in whatever order the client listed them and whatever characters the seat ids have.
  Then the hashes agree, so a retry is recognised.
\<close>

theorem hashed_text_is_the_request:
  assumes "normalize a ev = Inr a'" "normalize b ev' = Inr b'"
  shows "(canonical a' = canonical b' \<longleftrightarrow> rq_event_id a = rq_event_id b \<and> mset (rq_seat_ids a) = mset (rq_seat_ids b))
    \<and> (rq_event_id a = rq_event_id b \<and> mset (rq_seat_ids a) = mset (rq_seat_ids b) \<longrightarrow> requestHash a' = requestHash b')"
proof -
  have n: "a' = \<lparr>rq_event_id = rq_event_id a, rq_seat_ids = sort (rq_seat_ids a)\<rparr>"
    "b' = \<lparr>rq_event_id = rq_event_id b, rq_seat_ids = sort (rq_seat_ids b)\<rparr>"
    using assms by (simp_all add: normalize_Inr)
  have "mset xs = mset ys \<longleftrightarrow> sort xs = sort ys" for xs ys :: "string list" by (metis mset_sort properties_for_sort sorted_sort)
  then show ?thesis unfolding canonical_inject n by auto
qed

definition two_seat_event :: event where
  "two_seat_event = build_event \<lparr>e_id = 1, e_name = ''Gala'', e_venue = ''Hall'', e_starts_at = 9, e_sale_opens_at = 0,
     e_max_seats_per_order = 2\<rparr> (map (\<lambda>s. \<lparr>s_event_id = 1, s_seat_id = s, s_zone = ''A'', s_row_label = ''A'',
     s_seat_no = 1, s_price_vnd = 500\<rparr>) [''A1'', ''A2''])"

theorem hashed_text_is_the_request_witness:
  "requestHash \<lparr>rq_event_id = 1, rq_seat_ids = sort [''A2'', ''A1'']\<rparr>
    = requestHash \<lparr>rq_event_id = 1, rq_seat_ids = sort [''A1'', ''A2'']\<rparr>
    \<and> canonical \<lparr>rq_event_id = 1, rq_seat_ids = sort [''A2'', ''A1'']\<rparr>
    \<noteq> canonical \<lparr>rq_event_id = 1, rq_seat_ids = sort [''A2'']\<rparr>"
proof -
  have ev: "Seat two_seat_event ''A1'' \<noteq> None" "Seat two_seat_event ''A2'' \<noteq> None"
    "event_max_seats_per_order two_seat_event = 2"
    by (simp_all add: two_seat_event_def build_event_seat layout_seat_def)
  have n: "normalize \<lparr>rq_event_id = 1, rq_seat_ids = ss\<rparr> two_seat_event
      = Inr \<lparr>rq_event_id = 1, rq_seat_ids = sort ss\<rparr>" if "ss \<in> {[''A2'', ''A1''], [''A1'', ''A2''], [''A2'']}" for ss
    using that ev by (auto simp: normalize_Inr)
  show ?thesis
    using hashed_text_is_the_request[OF n n, of "[''A2'', ''A1'']" "[''A1'', ''A2'']"]
      hashed_text_is_the_request[OF n n, of "[''A2'', ''A1'']" "[''A2'']"] by (simp add: add_mset_commute)
qed

end
