(* ===== verification/Admission.thy ===== *)
theory Admission
  imports Store
begin

text \<open>
  The two small Redis services the order flow relies on: the lock of
  \<open>internal/platform/redisx/lock.go\<close> that guards an Idempotency-Key, and the ledger of
  \<open>internal/queue/ledger.go\<close> that lets an admission token create one order. What both
  promise, that a taken key stays with its taker until it is given back or runs out, is the
  locale \<open>single_owner\<close>, interpreted for each of them; \<open>exclusive\<close> is the part without the
  giving back, which the admission lease of the waiting room keeps too.
\<close>

record admission =
  adm_user_id :: int
  adm_event_id :: int
  adm_queue_id :: uuid
  adm_jti :: uuid
  adm_expires_at :: time

section \<open>The lock\<close>

text \<open>\<open>SET key v NX\<close> with an expiry.\<close>

definition redis_setnx :: "string \<Rightarrow> string \<Rightarrow> duration \<Rightarrow> redis \<Rightarrow> redis \<times> bool" where
  "redis_setnx k v ttl r = (case redis_get r k of
     None \<Rightarrow> (r\<lparr>kv := (kv r)(k \<mapsto> (v, Some (r_now r + ttl)))\<rparr>, True)
   | Some _ \<Rightarrow> (r, False))"

definition TryLock :: "string \<Rightarrow> string \<Rightarrow> duration \<Rightarrow> (world, bool res) prog" where
  "TryLock key token ttl = redis_call (\<lambda>r. (fst (redis_setnx key token ttl r), Inr (snd (redis_setnx key token ttl r))))"

definition unlock_lua :: "string \<Rightarrow> string \<Rightarrow> redis \<Rightarrow> redis \<times> int res" where
  "unlock_lua key token r =
    (if redis_get r key = Some token then (redis_del key r, Inr 1) else (r, Inr 0))"

text \<open>The function \<open>TryLock\<close> returns.\<close>

definition redisx_unlock :: "string \<Rightarrow> string \<Rightarrow> (world, unit res) prog" where
  "redisx_unlock key token =
    bindp (redis_call (unlock_lua key token)) (\<lambda>r. case r of Inl e \<Rightarrow> Ret (Inl e) | Inr n \<Rightarrow> Ret (Inr ()))"

section \<open>The admission ledger\<close>

definition UsedKey :: "uuid \<Rightarrow> string" where
  "UsedKey jti = ''admission:used:'' @ jti"

definition claim_lua :: "string \<Rightarrow> uuid \<Rightarrow> int \<Rightarrow> redis \<Rightarrow> redis \<times> int res" where
  "claim_lua key oid ttl_ms r = (case redis_get r key of
     None \<Rightarrow> (redis_set_px key oid ttl_ms r, Inr 1)
   | Some v \<Rightarrow> if v = oid then (r, Inr 1) else (r, Inr 0))"

definition unclaim_lua :: "string \<Rightarrow> uuid \<Rightarrow> redis \<Rightarrow> redis \<times> int res" where
  "unclaim_lua key oid r =
    (if redis_get r key = Some oid then (redis_del key r, Inr 1) else (r, Inr 0))"

definition Claim :: "duration \<Rightarrow> uuid \<Rightarrow> uuid \<Rightarrow> (world, bool res) prog" where
  "Claim ttl jti oid =
    bindp (redis_call (claim_lua (UsedKey jti) oid (go_div ttl 1000000))) (\<lambda>r.
      case r of Inl e \<Rightarrow> Ret (Inl e) | Inr n \<Rightarrow> Ret (Inr (n = 1)))"

definition Unclaim :: "duration \<Rightarrow> uuid \<Rightarrow> uuid \<Rightarrow> (world, unit res) prog" where
  "Unclaim ttl jti oid =
    bindp (redis_call (unclaim_lua (UsedKey jti) oid)) (\<lambda>r.
      case r of Inl e \<Rightarrow> Ret (Inl e) | Inr n \<Rightarrow> Ret (Inr ()))"

section \<open>One owner at a time\<close>

text \<open>
  \<open>acquire key who\<close> answers whether \<open>who\<close> now has the key, \<open>giveback key who\<close> gives it back.
\<close>

locale exclusive =
  fixes acquire :: "string \<Rightarrow> string \<Rightarrow> redis \<Rightarrow> redis \<times> bool"
  assumes take_owner: "snd (acquire k a r) \<Longrightarrow> redis_get (fst (acquire k a r)) k = Some a"
    and take_refused: "redis_get r k = Some b \<Longrightarrow> b \<noteq> a \<Longrightarrow> \<not> snd (acquire k a r)"
    and take_keeps: "redis_get r k' = Some b \<Longrightarrow> redis_get (fst (acquire k a r)) k' = Some b"
    and take_free: "redis_get r k = None \<Longrightarrow> snd (acquire k a r)"
begin

text \<open>Of any number of takers, with no time passing, one at most is told it has the key.\<close>

lemma one_winner:
  assumes "snd (acquire k a r)" "b \<noteq> a"
  shows "\<not> snd (acquire k b (fold (\<lambda>(k', c) r. fst (acquire k' c r)) ops (fst (acquire k a r))))"
proof (rule take_refused)
  have "redis_get (fold (\<lambda>(k', c) r. fst (acquire k' c r)) ops s) k = Some a" if "redis_get s k = Some a" for s
    using that by (induction ops arbitrary: s) (auto intro: take_keeps)
  then show "redis_get (fold (\<lambda>(k', c) r. fst (acquire k' c r)) ops (fst (acquire k a r))) k = Some a"
    using take_owner[OF assms(1)] by blast
  show "a \<noteq> b" using assms(2) by simp
qed

end

locale single_owner = exclusive +
  fixes giveback :: "string \<Rightarrow> string \<Rightarrow> redis \<Rightarrow> redis"
  assumes give_keeps: "redis_get r k' = Some b \<Longrightarrow> b \<noteq> a \<or> k' \<noteq> k \<Longrightarrow> redis_get (giveback k a r) k' = Some b"
    and give_frees: "redis_get r k = Some a \<Longrightarrow> redis_get (giveback k a r) k = None"
begin

text \<open>Whatever the others try, in any order, the owner keeps the key.\<close>

lemma owner_keeps:
  assumes "redis_get r k = Some a"
    and "\<forall>(g, k', b) \<in> set ops. b \<noteq> a"
  shows "redis_get (fold (\<lambda>(g, k', b) r. if g then giveback k' b r else fst (acquire k' b r)) ops r) k = Some a"
  using assms
proof (induction ops arbitrary: r)
  case (Cons c ops)
  obtain g k' b where c: "c = (g, k', b)" by (cases c) auto
  have "redis_get (if g then giveback k' b r else fst (acquire k' b r)) k = Some a"
    using Cons.prems c by (auto intro: give_keeps take_keeps)
  then show ?case using Cons c by simp
qed simp

lemma second_taker_refused:
  assumes "snd (acquire k a r)" "b \<noteq> a" "\<forall>(g, k', c) \<in> set ops. c \<noteq> a"
  shows "\<not> snd (acquire k b (fold (\<lambda>(g, k', c) r. if g then giveback k' c r else fst (acquire k' c r)) ops (fst (acquire k a r))))"
proof (rule take_refused)
  show "redis_get (fold (\<lambda>(g, k', c) r. if g then giveback k' c r else fst (acquire k' c r)) ops
      (fst (acquire k a r))) k = Some a"
    using take_owner[OF assms(1)] assms(3) by (rule owner_keeps)
  show "a \<noteq> b" using assms(2) by simp
qed

end

lemma redis_get_setnx [simp]:
  "0 < ttl \<Longrightarrow> redis_get (fst (redis_setnx k v ttl r)) k' =
    (if k' = k \<and> redis_get r k = None then Some v else redis_get r k')"
  by (auto simp: redis_setnx_def redis_get_def split: option.splits)

lemma setnx_ok: "snd (redis_setnx k v ttl r) \<longleftrightarrow> redis_get r k = None"
  by (simp add: redis_setnx_def split: option.split)

lemma get_unlock: "redis_get (fst (unlock_lua k t r)) k' =
    (if k' = k \<and> redis_get r k = Some t then None else redis_get r k')"
  by (simp add: unlock_lua_def)

lemma get_claim: "0 < ms \<Longrightarrow> redis_get (fst (claim_lua k a ms r)) k' =
    (if k' = k \<and> redis_get r k = None then Some a else redis_get r k')"
  by (auto simp: claim_lua_def split: option.split)

lemma claim_ok: "snd (claim_lua k a ms r) = Inr 1 \<longleftrightarrow> redis_get r k = None \<or> redis_get r k = Some a"
  by (simp add: claim_lua_def split: option.split)

lemma get_unclaim: "redis_get (fst (unclaim_lua k a r)) k' =
    (if k' = k \<and> redis_get r k = Some a then None else redis_get r k')"
  by (simp add: unclaim_lua_def)

definition claim_take :: "nat \<Rightarrow> string \<Rightarrow> uuid \<Rightarrow> redis \<Rightarrow> redis \<times> bool" where
  "claim_take ms k a r = (fst (claim_lua k a (1 + int ms) r), snd (claim_lua k a (1 + int ms) r) = Inr 1)"

definition unclaim_give :: "string \<Rightarrow> uuid \<Rightarrow> redis \<Rightarrow> redis" where
  "unclaim_give k a r = fst (unclaim_lua k a r)"

definition unlock_give :: "string \<Rightarrow> string \<Rightarrow> redis \<Rightarrow> redis" where
  "unlock_give k t r = fst (unlock_lua k t r)"

definition lock_take :: "string \<Rightarrow> string \<Rightarrow> redis \<Rightarrow> redis \<times> bool" where
  "lock_take k t r = redis_setnx k t 30000000000 r"

lemma lock_take_get: "redis_get (fst (lock_take k t r)) k' =
    (if k' = k \<and> redis_get r k = None then Some t else redis_get r k')"
  unfolding lock_take_def by (rule redis_get_setnx) simp

interpretation idem_lock: single_owner lock_take unlock_give
  by unfold_locales (auto simp: unlock_give_def lock_take_get get_unlock lock_take_def[THEN arg_cong[of _ _ snd]] setnx_ok)

lemma claim_take_get: "redis_get (fst (claim_take ms k a r)) k' =
    (if k' = k \<and> redis_get r k = None then Some a else redis_get r k')"
  by (simp add: claim_take_def get_claim)

lemma claim_take_ok: "snd (claim_take ms k a r) \<longleftrightarrow> redis_get r k = None \<or> redis_get r k = Some a"
  by (simp add: claim_take_def claim_ok)

interpretation used: single_owner "claim_take ms" unclaim_give for ms
  by unfold_locales (auto simp: unclaim_give_def claim_take_get claim_take_ok get_unclaim)

section \<open>Guarantees\<close>

lemma guar_TryLock [guar_intros]: "reflp R \<Longrightarrow> guar (on_pg R) (TryLock k t ttl)"
  unfolding TryLock_def by (rule guar_redis_call)

lemma guar_unlock [guar_intros]: "reflp R \<Longrightarrow> guar (on_pg R) (redisx_unlock k t)"
  unfolding redisx_unlock_def by (auto intro!: guar_intros guar_redis_call split: sum.split)

lemma guar_Claim [guar_intros]: "reflp R \<Longrightarrow> guar (on_pg R) (Claim ttl j i)"
  unfolding Claim_def by (auto intro!: guar_intros guar_redis_call split: sum.split)

lemma guar_Unclaim [guar_intros]: "reflp R \<Longrightarrow> guar (on_pg R) (Unclaim ttl j i)"
  unfolding Unclaim_def by (auto intro!: guar_intros guar_redis_call split: sum.split)

section \<open>One order per admission, one request per key\<close>

text \<open>
  C26. An admission token is spent by one order: after a claim by an order succeeded, and
  whatever claims and returns other orders make, under any keys and in any sequence, a claim
  of the token by another order is refused, and the order itself may claim it again. This
  is while the claim lasts: no time passes between the operations.
\<close>

theorem admission_spent_once:
  assumes "snd (claim_take ms k a r)" "b \<noteq> a" "list_all (\<lambda>(g, k', c). c \<noteq> a) ops"
  defines "r' \<equiv> fold (\<lambda>(g, k', c) r. if g then unclaim_give k' c r else fst (claim_take ms k' c r)) ops (fst (claim_take ms k a r))"
  shows "\<not> snd (claim_take ms k b r') \<and> snd (claim_take ms k a r')"
proof -
  have ops: "\<forall>(g, k', c)\<in>set ops. c \<noteq> a" using assms(3) by (auto simp: list_all_iff)
  have "redis_get r' k = Some a"
    unfolding r'_def by (rule used.owner_keeps[OF used.take_owner[OF assms(1)] ops])
  then show ?thesis
    using used.second_taker_refused[OF assms(1,2) ops] by (simp add: r'_def claim_take_ok)
qed

theorem admission_spent_once_witness:
  "\<not> snd (claim_take 10 ''used:j'' ''q2'' (unclaim_give ''used:j'' ''q2'' (fst (claim_take 10 ''used:j'' ''q2''
      (fst (claim_take 10 ''used:j'' ''q1'' (empty_redis 0)))))))"
  using admission_spent_once[of 10 "''used:j''" "''q1''" "empty_redis 0" "''q2''"
      "[(False, ''used:j'', ''q2''), (True, ''used:j'', ''q2'')]"]
  by (simp add: claim_take_ok empty_redis_def redis_get_def)

end
