(* ===== verification/Orders.thy ===== *)
theory Orders
  imports Request Admission
begin

text \<open>
  The order service, \<open>internal/order/service.go\<close>: creating, reading and cancelling orders.
  Ids drawn from a generator and the token of the lock are arguments of the handlers; a
  failing generator is \<open>None\<close>. Logging has no effect on the state and is left out. A
  deferred call is written where the function returns.
\<close>

section \<open>Orders and their events\<close>

record order =
  ord_id :: uuid
  ord_event_id :: int
  ord_user_id :: int
  ord_status :: status
  ord_total_vnd :: int
  ord_hold_expires_at :: time
  ord_created_at :: time
  ord_updated_at :: time
  ord_seats :: "(string \<times> int) list"

definition ord_seat_ids :: "order \<Rightarrow> string list" where
  "ord_seat_ids q = map fst (ord_seats q)"

definition fromRow :: "order_row \<Rightarrow> (string \<times> int) list \<Rightarrow> order" where
  "fromRow r ss = \<lparr>ord_id = o_id r, ord_event_id = o_event_id r, ord_user_id = o_user_id r,
     ord_status = o_status r, ord_total_vnd = o_total_vnd r, ord_hold_expires_at = o_hold_expires_at r,
     ord_created_at = o_created_at r, ord_updated_at = o_updated_at r, ord_seats = ss\<rparr>"

definition TopicOrders :: string where "TopicOrders = ''orders.v1''"
definition TopicTickets :: string where "TopicTickets = ''tickets.v1''"
definition OrderHeld :: string where "OrderHeld = ''order.held''"
definition OrderPaid :: string where "OrderPaid = ''order.paid''"
definition OrderExpired :: string where "OrderExpired = ''order.expired''"
definition OrderCancelled :: string where "OrderCancelled = ''order.cancelled''"
definition OrderRefundRequested :: string where "OrderRefundRequested = ''order.refund_requested''"
definition OrderRefunded :: string where "OrderRefunded = ''order.refunded''"
definition TicketIssued :: string where "TicketIssued = ''ticket.issued''"

definition orderEvent :: "order \<Rightarrow> order_event" where
  "orderEvent q = \<lparr>ev_event_id = 0, ev_event_type = '''', ev_occurred_at = 0, ev_order_id = ord_id q,
     ev_event = ord_event_id q, ev_user_id = ord_user_id q, ev_seat_ids = ord_seat_ids q,
     ev_total_vnd = ord_total_vnd q, ev_provider_txn_id = '''', ev_amount_vnd = 0, ev_reason = ''''\<rparr>"

definition writeEvent :: "time \<Rightarrow> string \<Rightarrow> string \<Rightarrow> order_event \<Rightarrow> unit dbtx" where
  "writeEvent now topic ty ev =
    tx_bind (Write now \<lparr>m_topic = topic, m_key = ev_order_id ev, m_event_type = ty, m_payload = ev\<rparr>)
      (\<lambda>_. tx_return ())"

definition writeOrderEvent :: "time \<Rightarrow> string \<Rightarrow> order \<Rightarrow> unit dbtx" where
  "writeOrderEvent now ty q = writeEvent now TopicOrders ty (orderEvent q)"

definition transition :: "time \<Rightarrow> uuid \<Rightarrow> status \<Rightarrow> status \<Rightarrow> order_row dbtx" where
  "transition now oid from to =
    (if \<not> CanTransition from to then tx_fail [Opaque ''illegal order transition'']
     else TransitionOrder now oid from to)"

section \<open>The service\<close>

text \<open>
  \<open>svc_process\<close> names the process, whose catalog cache the service reads;
  \<open>svc_admissions\<close> is the TTL of the admission ledger, \<open>None\<close> when it is not configured.
\<close>

record service =
  svc_process :: nat
  svc_inv :: inventory
  svc_holdTTL :: duration
  svc_holdGrace :: duration
  svc_admissions :: "duration option"

definition releaseSeats :: "inventory \<Rightarrow> int \<Rightarrow> string list \<Rightarrow> uuid \<Rightarrow> (world, unit) prog" where
  "releaseSeats iv eid sids oid = bindp (inv_Release iv eid sids oid) (\<lambda>_. Ret ())"

definition unclaim :: "service \<Rightarrow> uuid \<Rightarrow> uuid \<Rightarrow> (world, unit) prog" where
  "unclaim s jti oid = (case svc_admissions s of
     None \<Rightarrow> Ret ()
   | Some ttl \<Rightarrow> bindp (Unclaim ttl jti oid) (\<lambda>_. Ret ()))"

definition unlock :: "string \<Rightarrow> string \<Rightarrow> (world, unit) prog" where
  "unlock key token = bindp (redisx_unlock key token) (\<lambda>_. Ret ())"

definition idempotencyLockKey :: "int \<Rightarrow> string \<Rightarrow> string" where
  "idempotencyLockKey uid key = ''idem:'' @ format_int uid @ '':'' @ key"

definition idempotencyLockTTL :: duration where
  "idempotencyLockTTL = 30 * 1000000000"

definition constraintOneHeldPerUser :: string where
  "constraintOneHeldPerUser = ''orders_one_held_per_user''"

definition constraintIdempotencyKey :: string where
  "constraintIdempotencyKey = ''orders_user_id_idempotency_key_key''"

text \<open>\<open>errors.As\<close> finds the first \<open>PgError\<close> of the chain.\<close>

fun violatedConstraint :: "goerror \<Rightarrow> string" where
  "violatedConstraint [] = ''''"
| "violatedConstraint (PgError code c # e) = (if code = ''23505'' then c else '''')"
| "violatedConstraint (s # e) = violatedConstraint e"

definition findByKey :: "int \<Rightarrow> string \<Rightarrow> (world, (order \<times> string) res) prog" where
  "findByKey uid key =
    bindp (begin_func (\<lambda>_. True) (\<lambda>now. GetOrderByKey uid key)) (\<lambda>r.
      case r of Inl e \<Rightarrow> Ret (Inl e)
      | Inr row \<Rightarrow>
          bindp (begin_func (\<lambda>_. True) (\<lambda>now. ListOrderSeats (o_id row))) (\<lambda>r.
            case r of Inl e \<Rightarrow> Ret (Inl e)
            | Inr ss \<Rightarrow> Ret (Inr (fromRow row ss, o_request_hash row))))"

definition seat_prices :: "event \<Rightarrow> string list \<Rightarrow> int list" where
  "seat_prices ev sids = map (\<lambda>s. case Seat ev s of None \<Rightarrow> 0 | Some st \<Rightarrow> seat_price_vnd st) sids"

definition insertHeld_tx ::
  "uuid \<Rightarrow> int \<Rightarrow> string \<Rightarrow> string \<Rightarrow> event \<Rightarrow> string list \<Rightarrow> duration \<Rightarrow> time \<Rightarrow> order dbtx" where
  "insertHeld_tx oid uid key hash ev sids ttl now =
    (let prices = seat_prices ev sids; tot = sum64 0 prices in
     tx_bind (InsertHeldOrder now oid (event_id ev) uid tot key hash ttl) (\<lambda>row.
     tx_bind (InsertOrderSeats oid (event_id ev) sids prices) (\<lambda>_.
     let q = fromRow row (zip sids prices) in
     tx_bind (writeOrderEvent now OrderHeld q) (\<lambda>_. tx_return q))))"

definition insertHeld ::
  "service \<Rightarrow> uuid \<Rightarrow> int \<Rightarrow> string \<Rightarrow> string \<Rightarrow> event \<Rightarrow> CreateRequest \<Rightarrow> (world, order res) prog" where
  "insertHeld s oid uid key hash ev req =
    begin_func (\<lambda>_. True) (insertHeld_tx oid uid key hash ev (rq_seat_ids req) (svc_holdTTL s))"

text \<open>The claim of the admission: the answer is the new value of \<open>claimed\<close>.\<close>

definition claim_admission :: "service \<Rightarrow> admission option \<Rightarrow> uuid \<Rightarrow> bool \<Rightarrow> (world, bool res) prog" where
  "claim_admission s adm oid claimed = (case (adm, svc_admissions s) of
     (Some a, Some ttl) \<Rightarrow>
       if claimed then Ret (Inr claimed)
       else bindp (Claim ttl (adm_jti a) oid) (\<lambda>r.
         case r of
           Inl e \<Rightarrow> Ret (Inl (ErrTemporarilyUnavailable # e))
         | Inr ok \<Rightarrow> if \<not> ok then Ret (Inl [ErrAdmissionAlreadyUsed]) else Ret (Inr True))
   | _ \<Rightarrow> Ret (Inr claimed))"

text \<open>
  The loop \<open>for range 2\<close>, with \<open>n\<close> rounds left. The answer carries the result with the
  values of \<open>claimed\<close> and \<open>created\<close> the deferred function looks at.
\<close>

primrec create_rounds ::
  "nat \<Rightarrow> service \<Rightarrow> int \<Rightarrow> string \<Rightarrow> string \<Rightarrow> event \<Rightarrow> CreateRequest \<Rightarrow> admission option \<Rightarrow> uuid \<Rightarrow> bool
    \<Rightarrow> (world, (order \<times> bool) res \<times> bool \<times> bool) prog" where
  "create_rounds 0 s uid key hash ev norm adm oid claimed =
     Ret (Inl [Opaque ''create order: idempotency key still conflicting after retry''], claimed, False)"
| "create_rounds (Suc n) s uid key hash ev norm adm oid claimed =
     bindp (findByKey uid key) (\<lambda>f.
       case f of
         Inr (existing, existing_hash) \<Rightarrow>
           if existing_hash = hash then Ret (Inr (existing, False), claimed, False)
           else Ret (Inl [ErrIdempotencyKeyReused], claimed, False)
       | Inl e \<Rightarrow>
         if \<not> errors_is e NoRows then Ret (Inl e, claimed, False)
         else bindp (claim_admission s adm oid claimed) (\<lambda>c.
           case c of
             Inl e \<Rightarrow> Ret (Inl e, claimed, False)
           | Inr claimed \<Rightarrow>
               bindp (inv_Hold (svc_inv s) (event_id ev) (rq_seat_ids norm) oid (svc_holdTTL s + svc_holdGrace s)) (\<lambda>h.
                 case h of
                   Inl e \<Rightarrow> Ret (Inl e, claimed, False)
                 | Inr taken \<Rightarrow>
                     if taken \<noteq> [] then Ret (Inl [ErrSeatsUnavailable taken], claimed, False)
                     else bindp (insertHeld s oid uid key hash ev norm) (\<lambda>r.
                       case r of
                         Inr q \<Rightarrow> Ret (Inr (q, True), claimed, True)
                       | Inl e \<Rightarrow>
                           bindp (releaseSeats (svc_inv s) (event_id ev) (rq_seat_ids norm) oid) (\<lambda>_.
                             if violatedConstraint e = constraintOneHeldPerUser
                             then Ret (Inl [ErrActiveOrderExists], claimed, False)
                             else if violatedConstraint e = constraintIdempotencyKey
                             then create_rounds n s uid key hash ev norm adm oid claimed
                             else Ret (Inl e, claimed, False))))))"

text \<open>Everything after the lock was taken, with the two deferred calls.\<close>

definition create_locked ::
  "service \<Rightarrow> int \<Rightarrow> string \<Rightarrow> string \<Rightarrow> event \<Rightarrow> CreateRequest \<Rightarrow> admission option \<Rightarrow> uuid option
    \<Rightarrow> (world, (order \<times> bool) res) prog" where
  "create_locked s uid key hash ev norm adm new =
    (case new of
       None \<Rightarrow> Ret (Inl [Opaque ''generate order id''])
     | Some oid \<Rightarrow>
         bindp (create_rounds 2 s uid key hash ev norm adm oid False) (\<lambda>(r, claimed, created).
           case adm of
             Some a \<Rightarrow>
               if claimed \<and> \<not> created then bindp (unclaim s (adm_jti a) oid) (\<lambda>_. Ret r) else Ret r
           | None \<Rightarrow> Ret r))"

definition create ::
  "service \<Rightarrow> int \<Rightarrow> uuid \<Rightarrow> CreateRequest \<Rightarrow> admission option \<Rightarrow> string \<Rightarrow> uuid option
    \<Rightarrow> (world, (order \<times> bool) res) prog" where
  "create s uid key req adm token new =
    bindp (Event (svc_process s) (rq_event_id req)) (\<lambda>r.
      case r of
        Inl e \<Rightarrow>
          if errors_is e ErrEventNotFound then Ret (Inl (NewValidationError ''event_id'' ''unknown event''))
          else Ret (Inl e)
      | Inr ev \<Rightarrow> (case normalize req ev of
          Inl e \<Rightarrow> Ret (Inl e)
        | Inr norm \<Rightarrow>
            bindp (SaleOpen (svc_process s) (event_id ev)) (\<lambda>r.
              case r of
                Inl e \<Rightarrow> Ret (Inl e)
              | Inr opened \<Rightarrow>
                  if \<not> opened then Ret (Inl (NewValidationError ''event_id'' ''sale has not opened yet''))
                  else let hash = requestHash norm; lock = idempotencyLockKey uid key in
                    bindp (TryLock lock token idempotencyLockTTL) (\<lambda>l.
                      case l of
                        Inl e \<Rightarrow> Ret (Inl (ErrTemporarilyUnavailable # e))
                      | Inr locked \<Rightarrow>
                          if \<not> locked
                          then bindp (findByKey uid key) (\<lambda>f.
                            case f of
                              Inr (existing, existing_hash) \<Rightarrow>
                                if existing_hash = hash then Ret (Inr (existing, False))
                                else Ret (Inl [ErrIdempotencyKeyReused])
                            | Inl e \<Rightarrow>
                                if errors_is e NoRows then Ret (Inl [ErrIdempotencyKeyInProgress])
                                else Ret (Inl e))
                          else bindp (create_locked s uid key hash ev norm adm new) (\<lambda>r.
                            bindp (unlock lock token) (\<lambda>_. Ret r))))))"

definition Create ::
  "service \<Rightarrow> int \<Rightarrow> uuid \<Rightarrow> CreateRequest \<Rightarrow> string \<Rightarrow> uuid option \<Rightarrow> (world, (order \<times> bool) res) prog" where
  "Create s uid key req token new = create s uid key req None token new"

definition CreateAdmitted ::
  "service \<Rightarrow> int \<Rightarrow> uuid \<Rightarrow> CreateRequest \<Rightarrow> admission \<Rightarrow> string \<Rightarrow> uuid option
    \<Rightarrow> (world, (order \<times> bool) res) prog" where
  "CreateAdmitted s uid key req adm token new =
    (if adm_user_id adm \<noteq> uid \<or> adm_event_id adm \<noteq> rq_event_id req then Ret (Inl [ErrAdmissionRequired])
     else if svc_admissions s = None then Ret (Inl [Opaque ''no admission ledger configured''])
     else create s uid key req (Some adm) token new)"

section \<open>Reading and cancelling\<close>

definition Get :: "int \<Rightarrow> uuid \<Rightarrow> (world, order res) prog" where
  "Get uid oid =
    bindp (begin_func (\<lambda>_. True) (\<lambda>now. GetOrder oid)) (\<lambda>r.
      case r of
        Inl e \<Rightarrow> if errors_is e NoRows then Ret (Inl [ErrNotFound]) else Ret (Inl e)
      | Inr row \<Rightarrow>
          if o_user_id row \<noteq> uid then Ret (Inl [ErrNotFound])
          else bindp (begin_func (\<lambda>_. True) (\<lambda>now. ListOrderSeats oid)) (\<lambda>r.
            case r of Inl e \<Rightarrow> Ret (Inl e) | Inr ss \<Rightarrow> Ret (Inr (fromRow row ss))))"

text \<open>The transaction of \<open>Cancel\<close>; the boolean is \<open>cancelled\<close>.\<close>

definition cancel_finish :: "time \<Rightarrow> uuid \<Rightarrow> order_row \<Rightarrow> bool \<Rightarrow> (order \<times> bool) dbtx" where
  "cancel_finish now oid row cancelled =
    tx_bind (ListOrderSeats oid) (\<lambda>ss.
      let q = fromRow row ss in
      if cancelled then tx_bind (writeOrderEvent now OrderCancelled q) (\<lambda>_. tx_return (q, cancelled))
      else tx_return (q, cancelled))"

definition cancel_tx :: "int \<Rightarrow> uuid \<Rightarrow> time \<Rightarrow> (order \<times> bool) dbtx" where
  "cancel_tx uid oid now =
    tx_try (GetOrderForUpdate oid)
      (\<lambda>e. if errors_is e NoRows then tx_fail [ErrNotFound] else tx_fail e)
      (\<lambda>row.
        if o_user_id row \<noteq> uid then tx_fail [ErrNotFound]
        else case o_status row of
          StatusCancelled \<Rightarrow> cancel_finish now oid row False
        | StatusHeld \<Rightarrow>
            tx_bind (transition now oid StatusHeld StatusCancelled) (\<lambda>row. cancel_finish now oid row True)
        | st \<Rightarrow> tx_fail [ErrNotCancellable (status_text st)])"

definition order_unlocked :: "uuid \<Rightarrow> world \<Rightarrow> bool" where
  "order_unlocked oid w \<longleftrightarrow> OrderRow oid \<notin> set (locks w)"

definition Cancel :: "service \<Rightarrow> int \<Rightarrow> uuid \<Rightarrow> (world, order res) prog" where
  "Cancel s uid oid =
    bindp (begin_func (order_unlocked oid) (cancel_tx uid oid)) (\<lambda>r.
      case r of
        Inl e \<Rightarrow> Ret (Inl e)
      | Inr (q, cancelled) \<Rightarrow>
          if cancelled
          then bindp (releaseSeats (svc_inv s) (ord_event_id q) (ord_seat_ids q) (ord_id q)) (\<lambda>_. Ret (Inr q))
          else Ret (Inr q))"

section \<open>A key that has an order\<close>

abbreviation by_key :: "int \<Rightarrow> string \<Rightarrow> db \<Rightarrow> order_row option" where
  "by_key uid key d \<equiv> row_by (\<lambda>q. (o_user_id q, o_idempotency_key q)) (uid, key) (orders d)"

lemma findByKey_found:
  assumes "by_key uid key (pg w) = Some row"
  shows "yields (findByKey uid key) w (\<lambda>w' r. w' = w \<and> (r = Inl infra_error
    \<or> (\<exists>ss. r = Inr (fromRow row ss, o_request_hash row))))"
  unfolding findByKey_def
proof (rule yields_bind[OF read_yields], goal_cases)
  case 1
  show ?case by (simp add: keeps_def GetOrderByKey_def one_row_def split: option.splits)
next
  case (2 w' a)
  then have w: "w' = w" "a = Inl infra_error \<or> a = Inr row"
    using assms by (auto simp: run_tx_def GetOrderByKey_def one_row_def)
  have ss: "yields (begin_func (\<lambda>_. True) (\<lambda>now. ListOrderSeats (o_id row))) w
     (\<lambda>w' r. w' = w \<and> (r = Inl infra_error \<or> (\<exists>ss. r = Inr ss)))"
    by (rule yields_mono[OF read_yields]) (auto simp: keeps_def ListOrderSeats_def run_tx_def tx_read_def)
  show ?case using w by (auto intro!: yields_bind[OF ss] split: sum.split)
qed

text \<open>What a request under a key that already has an order may answer.\<close>

definition replayed :: "world \<Rightarrow> order_row \<Rightarrow> string \<Rightarrow> world \<Rightarrow> (order \<times> bool) res \<Rightarrow> bool" where
  "replayed w row hash w' r \<longleftrightarrow> pg w' = pg w \<and> (case r of
     Inl e \<Rightarrow> True
   | Inr (q, created) \<Rightarrow> hash = o_request_hash row \<and> \<not> created \<and> (\<exists>ss. q = fromRow row ss))"

lemma rounds_found:
  assumes "by_key uid key (pg w) = Some row"
  shows "yields (create_rounds (Suc n) s uid key hash ev norm adm oid claimed) w
    (\<lambda>w' (r, c, created). replayed w row hash w' r \<and> c = claimed)"
  unfolding create_rounds.simps
  by (rule yields_bind[OF findByKey_found[OF assms]]) (auto simp: replayed_def errors_is_def)

lemma locked_found:
  assumes "by_key uid key (pg w) = Some row"
  shows "yields (create_locked s uid key hash ev norm adm new) w (replayed w row hash)"
proof (cases new)
  case None
  then show ?thesis by (simp add: create_locked_def replayed_def)
next
  case (Some oid)
  then have c: "create_locked s uid key hash ev norm adm new = bindp (create_rounds (Suc 1) s uid key hash ev norm adm oid False)
      (\<lambda>(r, claimed, created). case adm of
         Some a \<Rightarrow> if claimed \<and> \<not> created then bindp (unclaim s (adm_jti a) oid) (\<lambda>_. Ret r) else Ret r
       | None \<Rightarrow> Ret r)"
    by (simp only: create_locked_def option.case numeral_2_eq_2 One_nat_def)
  show ?thesis unfolding c
    by (rule yields_bind[OF rounds_found[OF assms]]) (auto split: option.split)
qed

lemma lock_found:
  assumes "by_key uid key (pg w) = Some row"
  shows "yields (bindp (TryLock lock token ttl) (\<lambda>l. case l of
        Inl e \<Rightarrow> Ret (Inl (ErrTemporarilyUnavailable # e))
      | Inr locked \<Rightarrow>
          if \<not> locked
          then bindp (findByKey uid key) (\<lambda>f. case f of
              Inr (existing, existing_hash) \<Rightarrow>
                if existing_hash = hash then Ret (Inr (existing, False)) else Ret (Inl [ErrIdempotencyKeyReused])
            | Inl e \<Rightarrow> if errors_is e NoRows then Ret (Inl [ErrIdempotencyKeyInProgress]) else Ret (Inl e))
          else bindp (create_locked s uid key hash ev norm adm new) (\<lambda>r. bindp (unlock lock token) (\<lambda>_. Ret r)))) w
    (replayed w row hash)"
proof (rule yields_bind[OF pg_same_yields], goal_cases)
  case 1
  show ?case by (rule guar_TryLock) simp
next
  case (2 w1 l)
  then have row: "by_key uid key (pg w1) = Some row" using assms by simp
  have rep: "replayed w row hash = replayed w1 row hash" using 2 by (simp add: replayed_def fun_eq_iff)
  consider e where "l = Inl e" | "l = Inr False" | "l = Inr True" by (metis (full_types) sum.exhaust)
  then show ?case
  proof cases
    case 1
    then show ?thesis using 2 by (simp add: replayed_def)
  next
    case 2
    show ?thesis unfolding 2 sum.case rep by (simp, rule yields_bind[OF findByKey_found[OF row]]) (auto simp: replayed_def)
  next
    case 3
    have un: "guar (on_pg (=)) (unlock lock token)" unfolding unlock_def by (intro guar_intros) simp
    have "yields (bindp (unlock lock token) (\<lambda>_. Ret r)) w2 (replayed w1 row hash)" if "replayed w1 row hash w2 r" for w2 r
      by (rule yields_bind[OF pg_same_yields[OF un]]) (use that in \<open>simp add: replayed_def\<close>)
    then show ?thesis unfolding 3 sum.case rep by (simp, intro yields_bind[OF locked_found[OF row]])
  qed
qed

lemma create_found:
  assumes "by_key uid key (pg w) = Some row"
  shows "yields (create s uid key req adm token new) w (\<lambda>w' r. pg w' = pg w
    \<and> (\<forall>q. r = Inr q \<longrightarrow> (\<exists>ev norm. normalize req ev = Inr norm \<and> replayed w row (requestHash norm) w' r)))"
  unfolding create_def
proof (rule yields_bind[OF pg_same_yields], goal_cases)
  case 1
  show ?case by (rule guar_Event) simp
next
  case (2 w1 r1)
  show ?case
  proof (cases r1)
    case (Inl e)
    then show ?thesis using 2 by simp
  next
    case (Inr ev)
    show ?thesis
    proof (cases "normalize req ev")
      case (Inl e)
      then show ?thesis using 2 Inr by simp
    next
      case n: (Inr norm)
      show ?thesis unfolding Inr n sum.case
      proof (rule yields_bind[OF pg_same_yields], goal_cases)
        case 1
        show ?case by (rule guar_SaleOpen) simp
      next
        case (2 w2 r2)
        then have pg: "pg w2 = pg w" using \<open>pg w1 = pg w\<close> by simp
        then have row: "by_key uid key (pg w2) = Some row" using assms by simp
        show ?case
        proof (cases "r2 = Inr True")
          case True
          show ?thesis unfolding True Let_def
            by (simp, rule yields_mono[OF lock_found[OF row]]) (use n pg in \<open>auto simp: replayed_def split: sum.splits\<close>)
        qed (use pg in \<open>auto split: sum.split\<close>)
      qed
    qed
  qed
qed

text \<open>
  C20. An Idempotency-Key makes at most one order. When the user already has an order under the
  key, a request with that key, admitted or not and whatever faults it meets, leaves the
  database as it is; if it succeeds it answers that order as not created, and only when the
  request hashes to what was ordered then.
\<close>

theorem key_is_used_once:
  assumes "by_key uid key (pg w) = Some row" "run fs w (create s uid key req adm token new) = Some (w', r)"
  shows "pg w' = pg w \<and> (case r of
     Inl e \<Rightarrow> True
   | Inr (q, created) \<Rightarrow> \<not> created \<and> ord_id q = o_id row \<and> ord_status q = o_status row \<and> ord_total_vnd q = o_total_vnd row
       \<and> (\<exists>ev norm. normalize req ev = Inr norm \<and> requestHash norm = o_request_hash row))"
proof (cases r)
  case (Inr q)
  obtain ev norm where n: "normalize req ev = Inr norm" "replayed w row (requestHash norm) w' r" "pg w' = pg w"
    using yieldsD[OF create_found[OF assms(1)] assms(2)] Inr by blast
  then obtain ss where "q = (fromRow row ss, False)" "requestHash norm = o_request_hash row"
    using Inr by (cases q) (auto simp: replayed_def)
  then show ?thesis using n(1,3) Inr unfolding fromRow_def by auto
qed (use yieldsD[OF create_found[OF assms(1)] assms(2)] in simp)

section \<open>Cancelling\<close>

lemma row_by_transition:
  "row_by o_id oid os = Some row \<Longrightarrow> o_status row = st \<Longrightarrow>
    row_by o_id oid (update_where (\<lambda>q. o_id q = oid \<and> o_status q = st) (\<lambda>q. q\<lparr>o_status := st', o_updated_at := now\<rparr>) os)
      = Some (row\<lparr>o_status := st', o_updated_at := now\<rparr>)"
  by (induction os) (auto simp: update_where_def)

lemma transition_first:
  assumes "row_by o_id oid (orders d) = Some row" "o_status row = st" "CanTransition st st'"
  shows "transition now oid st st' d = Inr (d\<lparr>orders := update_where (\<lambda>q. o_id q = oid \<and> o_status q = st)
    (\<lambda>q. q\<lparr>o_status := st', o_updated_at := now\<rparr>) (orders d)\<rparr>, row\<lparr>o_status := st', o_updated_at := now\<rparr>)"
proof -
  have "\<exists>q\<in>set (orders d). o_id q = oid \<and> o_status q = st" using row_by_SomeD[OF assms(1)] assms(2) by blast
  then show ?thesis using assms(3) row_by_transition[OF assms(1,2), where st' = st' and now = now]
    by (simp add: transition_def TransitionOrder_def Let_def one_row_def)
qed

text \<open>
  C28. Cancelling is decided by the order alone: the order of another user or no order is
  answered \<open>ErrNotFound\<close>, a held order becomes cancelled with one event for its consumers, a
  cancelled one is answered again unchanged, and any other status is refused by name. No
  branch that fails changes a table.
\<close>

theorem cancel_by_status:
  "case row_by o_id oid (orders d) of
     None \<Rightarrow> cancel_tx uid oid now d = Inl [ErrNotFound]
   | Some row \<Rightarrow>
       if o_user_id row \<noteq> uid then cancel_tx uid oid now d = Inl [ErrNotFound]
       else if o_status row = StatusHeld
       then (\<exists>d' q. cancel_tx uid oid now d = Inr (d', (q, True)) \<and> ord_id q = oid \<and> ord_status q = StatusCancelled
         \<and> map_option o_status (row_by o_id oid (orders d')) = Some StatusCancelled
         \<and> length (outbox d') = length (outbox d) + 1 \<and> tickets d' = tickets d \<and> payments d' = payments d)
       else if o_status row = StatusCancelled
       then (\<exists>q. cancel_tx uid oid now d = Inr (d, (q, False)) \<and> ord_id q = oid \<and> ord_status q = StatusCancelled)
       else cancel_tx uid oid now d = Inl [ErrNotCancellable (status_text (o_status row))]"
proof (cases "row_by o_id oid (orders d)")
  case None
  then show ?thesis by (simp add: cancel_tx_def GetOrderForUpdate_def one_row_def errors_is_def tx_try_def tx_fail_def)
next
  case (Some row)
  then have g: "GetOrderForUpdate oid d = Inr (d, row)" by (simp add: GetOrderForUpdate_def one_row_def)
  have id: "o_id row = oid" using row_by_SomeD[OF Some] by simp
  have t: "o_status row = StatusHeld \<Longrightarrow> transition now oid StatusHeld StatusCancelled d = Inr (d\<lparr>orders :=
      update_where (\<lambda>q. o_id q = oid \<and> o_status q = StatusHeld) (\<lambda>q. q\<lparr>o_status := StatusCancelled, o_updated_at := now\<rparr>) (orders d)\<rparr>,
      row\<lparr>o_status := StatusCancelled, o_updated_at := now\<rparr>)"
    using transition_first[OF Some, where st = StatusHeld and st' = StatusCancelled] by (simp add: CanTransition_def)
  show ?thesis using g Some id t row_by_transition[OF Some, where st = StatusHeld and st' = StatusCancelled and now = now]
    by (cases "o_status row") (simp_all add: cancel_tx_def tx_fail_def writeOrderEvent_def writeEvent_def Write_def InsertMessage_def cancel_finish_def ListOrderSeats_def tx_read_def
      tx_bind_def tx_return_def fromRow_def Let_def)
qed

end
