(* ===== verification/Payments.thy ===== *)
theory Payments
  imports Orders
begin

text \<open>
  Payments: the webhook of \<open>internal/payment/payment.go\<close> and \<open>ApplyPayment\<close> of
  \<open>internal/order/payment.go\<close>.

  The transaction of \<open>ApplyPayment\<close> is one step unless the payment is late. A late payment
  asks the inventory for the seats while the transaction is open, so it takes three: the
  first reads the order, finds that seats are needed and keeps the order row and the key of
  the payment locked; the second is the hold; the third decides with the answer of the hold,
  commits and unlocks. Rows a transaction has locked do not change until it ends, so what the
  third step reads of the order is what the first step read. An error or a crash in between
  rolls back and unlocks.
\<close>

section \<open>The webhook\<close>

record Webhook =
  wh_provider_txn_id :: string
  wh_order_id :: uuid
  wh_amount_vnd :: int
  wh_status :: string
  wh_paid_at :: time

definition StatusSucceeded :: string where "StatusSucceeded = ''SUCCEEDED''"
definition StatusFailed :: string where "StatusFailed = ''FAILED''"

definition Validate :: "Webhook \<Rightarrow> unit res" where
  "Validate w =
    (if wh_provider_txn_id w = '''' \<or> length (wh_provider_txn_id w) > 128 then Inl [ErrInvalidWebhook]
     else if wh_order_id w = uuid_nil then Inl [ErrInvalidWebhook]
     else if wh_status w \<noteq> StatusSucceeded \<and> wh_status w \<noteq> StatusFailed then Inl [ErrInvalidWebhook]
     else if wh_amount_vnd w < 0 then Inl [ErrInvalidWebhook]
     else if wh_status w = StatusSucceeded \<and> wh_amount_vnd w = 0 then Inl [ErrInvalidWebhook]
     else Inr ())"

definition Sign :: "string \<Rightarrow> string \<Rightarrow> string" where
  "Sign secret body = hex_encode (hmac_sha256 secret body)"

definition Verify :: "string \<Rightarrow> string \<Rightarrow> string \<Rightarrow> bool" where
  "Verify secret body signature = (case hex_decode signature of
     None \<Rightarrow> False
   | Some got \<Rightarrow> got = hmac_sha256 secret body)"

section \<open>Outcomes\<close>

datatype Outcome = OutcomeApplied | OutcomeRefundRequired | OutcomeIgnoredFailed | OutcomeDuplicate | OutcomeUnknownOrder

fun outcome_text :: "Outcome \<Rightarrow> string" where
  "outcome_text OutcomeApplied = ''APPLIED''"
| "outcome_text OutcomeRefundRequired = ''REFUND_REQUIRED''"
| "outcome_text OutcomeIgnoredFailed = ''IGNORED_FAILED''"
| "outcome_text OutcomeDuplicate = ''DUPLICATE''"
| "outcome_text OutcomeUnknownOrder = ''UNKNOWN_ORDER''"

definition ReasonAmountMismatch :: string where "ReasonAmountMismatch = ''AMOUNT_MISMATCH''"
definition ReasonLatePaymentSeatTaken :: string where "ReasonLatePaymentSeatTaken = ''LATE_PAYMENT_SEAT_TAKEN''"
definition ReasonPaidAfterCancel :: string where "ReasonPaidAfterCancel = ''PAID_AFTER_CANCEL''"
definition ReasonDoublePayment :: string where "ReasonDoublePayment = ''DOUBLE_PAYMENT''"
definition ReasonSeatConflict :: string where "ReasonSeatConflict = ''SEAT_CONFLICT''"

definition latePaymentHoldTTL :: duration where
  "latePaymentHoldTTL = 60 * 1000000000"

record PaymentResult =
  pr_outcome :: Outcome
  pr_reason :: string
  pr_status :: "status option"

record afterCommit =
  ac_confirm :: bool
  ac_release :: bool

definition no_work :: afterCommit where
  "no_work = \<lparr>ac_confirm = False, ac_release = False\<rparr>"

text \<open>
  What the transaction found: its decision, or that it has to ask for the seats first.
\<close>

datatype decision =
    Decided PaymentResult "order option" afterCommit
  | NeedsHold order

section \<open>The transaction\<close>

definition moveTo :: "time \<Rightarrow> order \<Rightarrow> status \<Rightarrow> order dbtx" where
  "moveTo now q to =
    tx_bind (transition now (ord_id q) (ord_status q) to) (\<lambda>_. tx_return (q\<lparr>ord_status := to\<rparr>))"

text \<open>
  \<open>insertTickets\<close>: \<open>gen i\<close> is the i-th id the generator gives. The savepoint is the
  \<open>tx_try\<close>: a failed insert leaves the transaction as it was before.
\<close>

definition ticket_ids :: "(nat \<Rightarrow> uuid option) \<Rightarrow> nat \<Rightarrow> uuid list option" where
  "ticket_ids gen n = (if \<forall>i < n. gen i \<noteq> None then Some (map (\<lambda>i. the (gen i)) [0..<n]) else None)"

fun is_unique_violation :: "goerror \<Rightarrow> bool" where
  "is_unique_violation [] = False"
| "is_unique_violation (PgError code c # e) = (code = ''23505'')"
| "is_unique_violation (s # e) = is_unique_violation e"

definition insertTickets :: "(nat \<Rightarrow> uuid option) \<Rightarrow> order \<Rightarrow> bool dbtx" where
  "insertTickets gen q =
    (case ticket_ids gen (length (ord_seat_ids q)) of
       None \<Rightarrow> tx_fail [Opaque ''generate ticket id'']
     | Some ids \<Rightarrow>
         tx_try (InsertTickets ids (ord_id q) (ord_event_id q) (ord_seat_ids q))
           (\<lambda>e. if is_unique_violation e then tx_return False else tx_fail e)
           (\<lambda>_. tx_return True))"

definition pay :: "time \<Rightarrow> order \<Rightarrow> decision dbtx" where
  "pay now q =
    tx_bind (moveTo now q StatusPaid) (\<lambda>q.
    tx_bind (writeEvent now TopicOrders OrderPaid (orderEvent q)) (\<lambda>_.
    tx_return (Decided \<lparr>pr_outcome = OutcomeApplied, pr_reason = '''', pr_status = Some StatusPaid\<rparr> (Some q)
      \<lparr>ac_confirm = True, ac_release = False\<rparr>)))"

text \<open>\<open>refund\<close>: \<open>to\<close> is the new status of the order, \<open>None\<close> to keep it.\<close>

definition refund :: "time \<Rightarrow> Webhook \<Rightarrow> order \<Rightarrow> string \<Rightarrow> status option \<Rightarrow> afterCommit \<Rightarrow> decision dbtx" where
  "refund now p q reason to after =
    tx_bind (case to of None \<Rightarrow> tx_return q | Some st \<Rightarrow> moveTo now q st) (\<lambda>q.
    tx_bind (InsertRefund now (wh_provider_txn_id p) (ord_id q) (wh_amount_vnd p) reason) (\<lambda>_.
    tx_bind (writeEvent now TopicOrders OrderRefundRequested
      ((orderEvent q)\<lparr>ev_provider_txn_id := wh_provider_txn_id p, ev_amount_vnd := wh_amount_vnd p, ev_reason := reason\<rparr>)) (\<lambda>_.
    tx_return (Decided \<lparr>pr_outcome = OutcomeRefundRequired, pr_reason = reason, pr_status = Some (ord_status q)\<rparr>
      (Some q) after))))"

text \<open>Tickets for a held seat, or a refund when a seat already has one.\<close>

definition sell :: "(nat \<Rightarrow> uuid option) \<Rightarrow> time \<Rightarrow> Webhook \<Rightarrow> order \<Rightarrow> decision dbtx" where
  "sell gen now p q =
    tx_bind (insertTickets gen q) (\<lambda>ok.
      if \<not> ok then refund now p q ReasonSeatConflict (Some StatusRefunding) \<lparr>ac_confirm = False, ac_release = True\<rparr>
      else pay now q)"

definition decide ::
  "(nat \<Rightarrow> uuid option) \<Rightarrow> string list res option \<Rightarrow> time \<Rightarrow> Webhook \<Rightarrow> order \<Rightarrow> bool \<Rightarrow> decision dbtx" where
  "decide gen answer now p q holdActive =
    (let st = ord_status q in
     if wh_status p = StatusFailed
     then tx_return (Decided \<lparr>pr_outcome = OutcomeIgnoredFailed, pr_reason = '''', pr_status = Some st\<rparr> (Some q) no_work)
     else if st = StatusPaid \<or> st = StatusTicketed \<or> st = StatusRefunding \<or> st = StatusRefunded
     then refund now p q ReasonDoublePayment None no_work
     else if wh_amount_vnd p \<noteq> ord_total_vnd q
     then refund now p q ReasonAmountMismatch (Some StatusRefunding)
       \<lparr>ac_confirm = False, ac_release = (st = StatusHeld)\<rparr>
     else if st = StatusHeld \<and> holdActive
     then sell gen now p q
     else if st = StatusHeld \<or> st = StatusExpired
     then (case answer of
         None \<Rightarrow> tx_return (NeedsHold q)
       | Some (Inl e) \<Rightarrow> tx_fail e
       | Some (Inr taken) \<Rightarrow>
           if taken \<noteq> [] then refund now p q ReasonLatePaymentSeatTaken (Some StatusRefunding) no_work
           else sell gen now p q)
     else if st = StatusCancelled
     then refund now p q ReasonPaidAfterCancel (Some StatusRefunding) no_work
     else tx_fail [Opaque ''payment for order in unexpected status''])"

text \<open>\<open>SetPaymentOutcome\<close> follows the decision; a transaction that waits for a hold has not come so far.\<close>

definition record_outcome :: "Webhook \<Rightarrow> decision \<Rightarrow> decision dbtx" where
  "record_outcome p dec = (case dec of
     NeedsHold q \<Rightarrow> tx_return dec
   | Decided res q after \<Rightarrow>
       tx_bind (SetPaymentOutcome (wh_provider_txn_id p) (outcome_text (pr_outcome res))) (\<lambda>_. tx_return dec))"

definition payment_tx ::
  "(nat \<Rightarrow> uuid option) \<Rightarrow> string list res option \<Rightarrow> Webhook \<Rightarrow> time \<Rightarrow> decision dbtx" where
  "payment_tx gen answer p now =
    tx_try (LockOrderForPayment now (wh_order_id p))
      (\<lambda>e. if errors_is e NoRows
           then tx_return (Decided \<lparr>pr_outcome = OutcomeUnknownOrder, pr_reason = '''', pr_status = None\<rparr> None no_work)
           else tx_fail e)
      (\<lambda>(row, holdActive).
        tx_try (InsertPayment now (wh_provider_txn_id p) (wh_order_id p) (wh_amount_vnd p) (wh_status p))
          (\<lambda>e. if errors_is e NoRows
               then tx_bind (ListOrderSeats (wh_order_id p)) (\<lambda>ss.
                 let q = fromRow row ss in
                 tx_return (Decided \<lparr>pr_outcome = OutcomeDuplicate, pr_reason = '''', pr_status = Some (ord_status q)\<rparr>
                   (Some q) \<lparr>ac_confirm = (ord_status q = StatusPaid \<or> ord_status q = StatusTicketed), ac_release = False\<rparr>))
               else tx_fail e)
          (\<lambda>_.
            tx_bind (ListOrderSeats (wh_order_id p)) (\<lambda>ss.
              tx_bind (decide gen answer now p (fromRow row ss) holdActive) (record_outcome p))))"

section \<open>The handler\<close>

definition payment_unlocked :: "Webhook \<Rightarrow> world \<Rightarrow> bool" where
  "payment_unlocked p w \<longleftrightarrow>
    OrderRow (wh_order_id p) \<notin> set (locks w) \<and> TxnKey (wh_provider_txn_id p) \<notin> set (locks w)"

definition payment_lock :: "Webhook \<Rightarrow> world \<Rightarrow> world" where
  "payment_lock p w = w\<lparr>locks := OrderRow (wh_order_id p) # TxnKey (wh_provider_txn_id p) # locks w\<rparr>"

definition payment_unlock :: "Webhook \<Rightarrow> world \<Rightarrow> world" where
  "payment_unlock p w = w\<lparr>locks := remove1 (OrderRow (wh_order_id p)) (remove1 (TxnKey (wh_provider_txn_id p)) (locks w))\<rparr>"

text \<open>
  The first step: commit, roll back, or wait for a hold with the rows locked. A connection
  that is lost while waiting is a rollback.
\<close>

definition payment_begin :: "(nat \<Rightarrow> uuid option) \<Rightarrow> Webhook \<Rightarrow> (world, (decision \<times> time) res) prog" where
  "payment_begin gen p = Step (payment_unlocked p)
     (\<lambda>x w. case payment_tx gen None p (pg_now w) (pg w) of
        Inl e \<Rightarrow> w
      | Inr (d, Decided res q after) \<Rightarrow> if x = Fail then w else w\<lparr>pg := d\<rparr>
      | Inr (d, NeedsHold q) \<Rightarrow> if x = Reply then payment_lock p w else w)
     (\<lambda>x w. Ret (if x \<noteq> Reply then Inl infra_error
        else case payment_tx gen None p (pg_now w) (pg w) of
          Inl e \<Rightarrow> Inl e
        | Inr (d, dec) \<Rightarrow> Inr (dec, pg_now w)))"

text \<open>The third step, with the answer of the hold and the \<open>now()\<close> of the transaction.\<close>

definition payment_finish ::
  "(nat \<Rightarrow> uuid option) \<Rightarrow> Webhook \<Rightarrow> string list res \<Rightarrow> time \<Rightarrow> (world, decision res) prog" where
  "payment_finish gen p answer now = Step (\<lambda>_. True)
     (\<lambda>x w. payment_unlock p (case payment_tx gen (Some answer) p now (pg w) of
        Inl e \<Rightarrow> w
      | Inr (d, dec) \<Rightarrow> if x = Fail then w else w\<lparr>pg := d\<rparr>))
     (\<lambda>x w. Ret (if x \<noteq> Reply then Inl infra_error
        else case payment_tx gen (Some answer) p now (pg w) of
          Inl e \<Rightarrow> Inl e
        | Inr (d, dec) \<Rightarrow> Inr dec))"

definition after_payment :: "service \<Rightarrow> decision \<Rightarrow> (world, PaymentResult res) prog" where
  "after_payment s dec = (case dec of
     NeedsHold q \<Rightarrow> Ret (Inl [Opaque ''unreachable''])
   | Decided res None after \<Rightarrow> Ret (Inr res)
   | Decided res (Some q) after \<Rightarrow>
       bindp (if ac_confirm after
              then bindp (inv_Confirm (svc_inv s) (ord_event_id q) (ord_seat_ids q) (ord_id q)) (\<lambda>_. Ret ())
              else Ret ()) (\<lambda>_.
       bindp (if ac_release after
              then releaseSeats (svc_inv s) (ord_event_id q) (ord_seat_ids q) (ord_id q)
              else Ret ()) (\<lambda>_. Ret (Inr res))))"

definition ApplyPayment :: "service \<Rightarrow> (nat \<Rightarrow> uuid option) \<Rightarrow> Webhook \<Rightarrow> (world, PaymentResult res) prog" where
  "ApplyPayment s gen p =
    bindp (payment_begin gen p) (\<lambda>r.
      case r of
        Inl e \<Rightarrow> Ret (Inl e)
      | Inr (Decided res q after, now) \<Rightarrow> after_payment s (Decided res q after)
      | Inr (NeedsHold q, now) \<Rightarrow>
          bindp (inv_Hold (svc_inv s) (ord_event_id q) (ord_seat_ids q) (ord_id q) latePaymentHoldTTL) (\<lambda>h.
          bindp (payment_finish gen p h now) (\<lambda>r.
            case r of Inl e \<Rightarrow> Ret (Inl e) | Inr dec \<Rightarrow> after_payment s dec)))"

section \<open>Signatures\<close>

text \<open>The lower case of a hexadecimal digit.\<close>

definition hex_lower :: "char \<Rightarrow> char" where
  "hex_lower c = (if 65 \<le> (of_char c :: nat) \<and> (of_char c :: nat) \<le> 70 then char_of (of_char c + 32 :: nat) else c)"

lemma hex_value_lower: "hex_value c = Some n \<Longrightarrow> hex_lower c = hex_digit n \<and> n < 16"
  by (auto simp: hex_value_def hex_lower_def hex_digit_def Let_def split: if_splits)

lemma hex_decode_lower: "hex_decode s = Some x \<Longrightarrow> map hex_lower s = hex_encode x"
proof (induction s arbitrary: x rule: hex_decode.induct)
  case (3 a b cs)
  then obtain m n r where h: "hex_value a = Some m" "hex_value b = Some n" "hex_decode cs = Some r"
    "x = char_of (16 * m + n) # r" by (auto split: option.splits)
  then have "m < 16" "n < 16" using hex_value_lower by blast+
  then have "of_char (char_of (16 * m + n) :: char) = 16 * m + n" by (simp add: of_char_of)
  then show ?case using h 3 hex_value_lower[OF h(1)] hex_value_lower[OF h(2)] by simp
qed simp_all

lemma hex_value_of_lower:
  assumes "hex_lower c = hex_digit n" "n < 16"
  shows "hex_value c = Some n"
proof -
  have d: "(of_char (hex_digit n) :: nat) = (if n < 10 then 48 + n else 87 + n)"
    using assms(2) by (simp add: hex_digit_def of_char_of)
  define m :: nat where "m = of_char c"
  have "(of_char (hex_lower c) :: nat) = (if 65 \<le> m \<and> m \<le> 70 then m + 32 else m)"
    by (auto simp: hex_lower_def m_def of_char_of)
  then have "(if 65 \<le> m \<and> m \<le> 70 then m + 32 else m) = (if n < 10 then 48 + n else 87 + n)"
    using assms(1) d by simp
  then show ?thesis using assms(2) by (auto simp: hex_value_def Let_def m_def[symmetric] split: if_splits)
qed

lemma hex_decode_of_lower: "map hex_lower s = hex_encode x \<Longrightarrow> hex_decode s = Some x"
proof (induction x arbitrary: s)
  case (Cons c cs)
  then obtain a b t where s: "s = a # b # t" "hex_lower a = hex_digit (of_char c div 16)"
    "hex_lower b = hex_digit (of_char c mod 16)" "map hex_lower t = hex_encode cs"
    by (auto simp: map_eq_Cons_conv)
  have "of_char c div 16 < (16 :: nat)" by (rule less_mult_imp_div_less) simp
  then have "hex_value a = Some (of_char c div 16)" "hex_value b = Some (of_char c mod 16)"
    using s(2,3) hex_value_of_lower by auto
  moreover have "char_of (16 * (of_char c div 16) + of_char c mod 16 :: nat) = c" by simp
  ultimately show ?case using Cons.IH[OF s(4)] s(1) by simp
qed simp

text \<open>
  A webhook is accepted exactly when its signature is the hexadecimal HMAC-SHA256 of the
  raw body under the shared secret, written in lower or upper case digits. In particular
  what \<open>Sign\<close> writes is accepted.
\<close>

theorem signature_accepted:
  "(Verify secret body s \<longleftrightarrow> map hex_lower s = Sign secret body) \<and> Verify secret body (Sign secret body)"
  by (auto simp: Verify_def Sign_def hex_decode_encode dest: hex_decode_lower hex_decode_of_lower split: option.split)

section \<open>Decisions\<close>

text \<open>
  The transaction of a webhook whose payment is recorded already: every table stays as it is,
  and seats are confirmed again only if they were sold.
\<close>

definition sold_order :: "uuid \<Rightarrow> db \<Rightarrow> bool" where
  "sold_order i d \<longleftrightarrow> map_option o_status (row_by o_id i (orders d)) \<in> {Some StatusPaid, Some StatusTicketed}"

lemma duplicate_tx:
  assumes "wh_provider_txn_id p \<in> p_provider_txn_id ` set (payments d)" "wh_status p \<in> {StatusSucceeded, StatusFailed}"
  shows "\<exists>res q after. payment_tx gen answer p now d = Inr (d, Decided res q after) \<and> \<not> ac_release after
    \<and> (ac_confirm after \<longrightarrow> sold_order (wh_order_id p) d)
    \<and> pr_outcome res = (if row_by o_id (wh_order_id p) (orders d) = None then OutcomeUnknownOrder else OutcomeDuplicate)"
proof (cases "row_by o_id (wh_order_id p) (orders d)")
  case None
  then show ?thesis
    by (simp add: payment_tx_def LockOrderForPayment_def errors_is_def tx_return_def no_work_def)
next
  case (Some row)
  have "InsertPayment now (wh_provider_txn_id p) (wh_order_id p) (wh_amount_vnd p) (wh_status p) d = Inl [NoRows]"
    using assms by (auto simp: InsertPayment_def StatusSucceeded_def StatusFailed_def)
  then show ?thesis using Some
    by (simp add: payment_tx_def LockOrderForPayment_def errors_is_def ListOrderSeats_def tx_read_def tx_bind_def
        tx_return_def Let_def fromRow_def sold_order_def)
qed

lemma refund_not_applied: "refund now p q reason to after d = Inr (d', Decided res q' after') \<Longrightarrow> pr_outcome res \<noteq> OutcomeApplied"
  by (auto simp: refund_def elim!: tx_bind_InrE)

lemma decide_applied:
  assumes "decide gen answer now p q active d = Inr (d', Decided res q' after)" "pr_outcome res = OutcomeApplied"
  shows "wh_amount_vnd p = ord_total_vnd q \<and> ord_status q \<in> {StatusHeld, StatusExpired} \<and> wh_status p \<noteq> StatusFailed"
  using assms unfolding decide_def Let_def
  by (auto simp: sell_def split: if_splits option.splits sum.splits elim!: tx_bind_InrE dest: refund_not_applied)

text \<open>
  C22. Tickets are sold only for the full price and only once: the transaction answers that the
  payment is applied only if the gateway reported success, the amount is the total of the
  order, the order was held or expired until then, and the transaction id is new.
\<close>

theorem applied_only_in_full:
  assumes "payment_tx gen answer p now d = Inr (d', Decided res q after)" "pr_outcome res = OutcomeApplied"
  shows "\<exists>row. row_by o_id (wh_order_id p) (orders d) = Some row \<and> wh_amount_vnd p = o_total_vnd row
    \<and> o_status row \<in> {StatusHeld, StatusExpired} \<and> wh_status p = StatusSucceeded
    \<and> wh_provider_txn_id p \<notin> p_provider_txn_id ` set (payments d)"
proof (cases "row_by o_id (wh_order_id p) (orders d)")
  case None
  then show ?thesis using assms by (auto simp: payment_tx_def LockOrderForPayment_def errors_is_def tx_try_def)
next
  case (Some row)
  then have l: "LockOrderForPayment now (wh_order_id p) d = Inr (d, row, now \<le> o_hold_expires_at row)"
    by (simp add: LockOrderForPayment_def)
  let ?ins = "InsertPayment now (wh_provider_txn_id p) (wh_order_id p) (wh_amount_vnd p) (wh_status p)"
  obtain d1 x where i: "?ins d = Inr (d1, x)"
    using assms l by (cases "?ins d") (auto simp: payment_tx_def errors_is_def tx_bind_def Let_def split: if_splits sum.splits)
  then obtain ss d2 dec where dec: "decide gen answer now p (fromRow row ss) (now \<le> o_hold_expires_at row) d1 = Inr (d2, dec)"
    "record_outcome p dec d2 = Inr (d', Decided res q after)"
    using assms(1) l by (auto simp: payment_tx_def ListOrderSeats_def elim!: tx_bind_InrE)
  then have "dec = Decided res q after"
    by (cases dec) (auto simp: record_outcome_def elim!: tx_bind_InrE)
  then have "wh_amount_vnd p = o_total_vnd row \<and> o_status row \<in> {StatusHeld, StatusExpired} \<and> wh_status p \<noteq> StatusFailed"
    using decide_applied[of gen answer now p "fromRow row ss"] dec(1) assms(2) by (simp add: fromRow_def)
  moreover have "wh_provider_txn_id p \<notin> p_provider_txn_id ` set (payments d)" "wh_status p \<in> {''SUCCEEDED'', ''FAILED''}"
    using i by (auto simp: InsertPayment_def split: if_splits)
  ultimately show ?thesis using Some by (auto simp: StatusSucceeded_def StatusFailed_def)
qed

end
