(* ===== verification/Lifecycle.thy ===== *)
theory Lifecycle
  imports Payments Ticket_QR
begin

text \<open>
  What happens to an order after it was placed: expiry (\<open>internal/order/expiry.go\<close>), the
  issue of tickets (\<open>tickets.go\<close>) and refunds (\<open>refund.go\<close>). The release of expired seats
  runs inside a transaction that keeps the orders locked, so it is a sequence of steps
  between a locking and an unlocking one. The payment gateway is a parameter of the refund.
\<close>

section \<open>Expiry\<close>

definition ExpiryBatchSize :: nat where
  "ExpiryBatchSize = 500"

text \<open>The order value built from a row of \<open>ExpireDueOrders\<close>; fields it does not set are zero.\<close>

definition expired_order :: "(uuid \<times> string \<times> int) list \<Rightarrow> uuid \<times> int \<times> int \<times> int \<Rightarrow> order" where
  "expired_order ss r = (case r of (oid, eid, uid, tot) \<Rightarrow>
     \<lparr>ord_id = oid, ord_event_id = eid, ord_user_id = uid, ord_status = StatusExpired, ord_total_vnd = tot,
      ord_hold_expires_at = 0, ord_created_at = 0, ord_updated_at = 0,
      ord_seats = map snd (filter (\<lambda>s. fst s = oid) ss)\<rparr>)"

definition expire_tx :: "(uuid \<Rightarrow> bool) \<Rightarrow> time \<Rightarrow> order list dbtx" where
  "expire_tx locked now =
    tx_bind (ExpireDueOrders now ExpiryBatchSize locked) (\<lambda>rows.
      if rows = [] then tx_return []
      else tx_bind (ListSeatsOfOrders (map fst rows)) (\<lambda>ss.
        let expired = map (expired_order ss) rows in
        tx_bind (tx_each (writeOrderEvent now OrderExpired) expired) (\<lambda>_. tx_return expired)))"

definition locked_order :: "world \<Rightarrow> uuid \<Rightarrow> bool" where
  "locked_order w oid \<longleftrightarrow> OrderRow oid \<in> set (locks w)"

definition expire_batch :: "(world, order list res) prog" where
  "expire_batch = call (\<lambda>w. run_tx (expire_tx (locked_order w)) w)"

text \<open>\<open>LockOrderStatuses\<close> waits for the rows and keeps them.\<close>

definition lock_statuses :: "uuid list \<Rightarrow> (world, (uuid \<times> status) list res) prog" where
  "lock_statuses ids = Step (\<lambda>w. \<forall>i\<in>set ids. order_unlocked i w)
     (\<lambda>x w. if x = Reply then w\<lparr>locks := map OrderRow ids @ locks w\<rparr> else w)
     (\<lambda>x w. Ret (if x \<noteq> Reply then Inl infra_error
        else case LockOrderStatuses ids (pg w) of Inl e \<Rightarrow> Inl e | Inr (d, rows) \<Rightarrow> Inr rows))"

definition unlock_statuses :: "uuid list \<Rightarrow> (world, unit res) prog" where
  "unlock_statuses ids = Step (\<lambda>_. True)
     (\<lambda>x w. w\<lparr>locks := fold (\<lambda>i. remove1 (OrderRow i)) ids (locks w)\<rparr>)
     (\<lambda>x w. Ret (if x = Reply then Inr () else Inl infra_error))"

definition release_one :: "inventory \<Rightarrow> (uuid \<times> status) list \<Rightarrow> order \<Rightarrow> (world, unit) prog" where
  "release_one iv rows q = (case map_of rows (ord_id q) of
     Some StatusPaid \<Rightarrow> Ret ()
   | Some StatusTicketed \<Rightarrow> Ret ()
   | _ \<Rightarrow> releaseSeats iv (ord_event_id q) (ord_seat_ids q) (ord_id q))"

definition releaseExpired :: "inventory \<Rightarrow> order list \<Rightarrow> (world, unit res) prog" where
  "releaseExpired iv expired =
    (let ids = map ord_id expired in
     bindp (lock_statuses ids) (\<lambda>r.
       case r of Inl e \<Rightarrow> Ret (Inl e)
       | Inr rows \<Rightarrow>
           bindp (progs_each (release_one iv rows) expired) (\<lambda>_. unlock_statuses ids)))"

definition expiry_RunOnce :: "inventory \<Rightarrow> (world, int res) prog" where
  "expiry_RunOnce iv =
    (if \<not> CanTransition StatusHeld StatusExpired then Ret (Inl [Opaque ''state machine forbids''])
     else bindp expire_batch (\<lambda>r.
       case r of
         Inl e \<Rightarrow> Ret (Inl e)
       | Inr expired \<Rightarrow>
           if expired \<noteq> [] then bindp (releaseExpired iv expired) (\<lambda>_. Ret (Inr (int (length expired))))
           else Ret (Inr 0)))"

text \<open>The pause of \<open>Run\<close> after a batch.\<close>

definition expiry_wait :: "duration \<Rightarrow> int res \<Rightarrow> duration" where
  "expiry_wait interval r = (if r = Inr (int ExpiryBatchSize) then 0 else interval)"

section \<open>Tickets\<close>

definition set_qr :: "string \<Rightarrow> time \<Rightarrow> ticket_row \<Rightarrow> unit dbtx" where
  "set_qr secret now t =
    (if t_qr_payload t \<noteq> None then tx_return () else SetTicketQR now (t_id t) (Payload secret (t_id t)))"

definition issue_tx :: "string \<Rightarrow> uuid \<Rightarrow> time \<Rightarrow> status dbtx" where
  "issue_tx secret oid now =
    tx_try (GetOrderForUpdate oid)
      (\<lambda>e. if errors_is e NoRows then tx_fail [ErrNotFound] else tx_fail e)
      (\<lambda>row.
        if o_status row \<noteq> StatusPaid then tx_return (o_status row)
        else tx_bind (ListOrderTickets oid) (\<lambda>ts.
          if ts = [] then tx_fail [Opaque ''PAID order has no tickets'']
          else tx_bind (tx_each (set_qr secret now) ts) (\<lambda>_.
            tx_bind (transition now oid StatusPaid StatusTicketed) (\<lambda>row.
            tx_bind (ListOrderSeats oid) (\<lambda>ss.
            tx_bind (writeEvent now TopicTickets TicketIssued (orderEvent (fromRow row ss))) (\<lambda>_.
            tx_return StatusTicketed))))))"

definition Issue :: "string \<Rightarrow> uuid \<Rightarrow> (world, status res) prog" where
  "Issue secret oid = begin_func (order_unlocked oid) (issue_tx secret oid)"

record ticket =
  tk_id :: uuid
  tk_seat_id :: string
  tk_qr_payload :: string
  tk_issued_at :: "time option"

definition ticket_of_row :: "ticket_row \<Rightarrow> ticket" where
  "ticket_of_row r = \<lparr>tk_id = t_id r, tk_seat_id = t_seat_id r,
     tk_qr_payload = (case t_qr_payload r of None \<Rightarrow> '''' | Some p \<Rightarrow> p), tk_issued_at = t_issued_at r\<rparr>"

definition Tickets :: "int \<Rightarrow> uuid \<Rightarrow> (world, ticket list res) prog" where
  "Tickets uid oid =
    bindp (Get uid oid) (\<lambda>r.
      case r of
        Inl e \<Rightarrow> Ret (Inl e)
      | Inr q \<Rightarrow> bindp (begin_func (\<lambda>_. True) (\<lambda>now. ListOrderTickets oid)) (\<lambda>r.
          case r of Inl e \<Rightarrow> Ret (Inl e) | Inr rows \<Rightarrow> Ret (Inr (map ticket_of_row rows))))"

section \<open>Refunds\<close>

definition RefundPending :: string where "RefundPending = ''PENDING''"
definition RefundSucceeded :: string where "RefundSucceeded = ''SUCCEEDED''"

definition refunded_event :: "string \<Rightarrow> refund_row \<Rightarrow> order \<Rightarrow> order_event" where
  "refunded_event txn r q = (orderEvent q)\<lparr>ev_provider_txn_id := txn, ev_amount_vnd := r_amount_vnd r, ev_reason := r_reason r\<rparr>"

definition complete_tx :: "string \<Rightarrow> time \<Rightarrow> unit dbtx" where
  "complete_tx txn now =
    tx_try (CompleteRefund now txn)
      (\<lambda>e. if errors_is e NoRows then tx_return () else tx_fail e)
      (\<lambda>r.
        tx_bind (GetOrderForUpdate (r_order_id r)) (\<lambda>row.
        tx_bind (if r_reason r \<noteq> ReasonDoublePayment \<and> o_status row = StatusRefunding
                 then transition now (r_order_id r) StatusRefunding StatusRefunded
                 else tx_return row) (\<lambda>row.
        tx_bind (ListOrderSeats (r_order_id r)) (\<lambda>ss.
        writeEvent now TopicOrders OrderRefunded (refunded_event txn r (fromRow row ss))))))"

definition refund_unlocked :: "string \<Rightarrow> world \<Rightarrow> bool" where
  "refund_unlocked txn w = (case row_by r_provider_txn_id txn (refunds (pg w)) of
     None \<Rightarrow> True
   | Some r \<Rightarrow> r_status r = RefundPending \<longrightarrow> order_unlocked (r_order_id r) w)"

text \<open>The gateway call takes the order, the transaction and the amount.\<close>

type_synonym gateway = "uuid \<Rightarrow> string \<Rightarrow> int \<Rightarrow> (world, unit res) prog"

definition Process :: "gateway \<Rightarrow> string \<Rightarrow> (world, unit res) prog" where
  "Process gw txn =
    bindp (begin_func (\<lambda>_. True) (\<lambda>now. GetRefund txn)) (\<lambda>r.
      case r of
        Inl e \<Rightarrow> if errors_is e NoRows then Ret (Inl [ErrRefundNotFound]) else Ret (Inl e)
      | Inr ref \<Rightarrow>
          if r_status ref = RefundSucceeded then Ret (Inr ())
          else bindp (gw (r_order_id ref) txn (r_amount_vnd ref)) (\<lambda>r.
            case r of
              Inl e \<Rightarrow> Ret (Inl e)
            | Inr _ \<Rightarrow> begin_func (refund_unlocked txn) (complete_tx txn)))"

end
