(* ===== verification/Relay.thy ===== *)
theory Relay
  imports Order_DB "HOL-Library.Multiset"
begin

text \<open>
  The outbox relay, \<open>internal/outbox/relay.go\<close>, with its statements in
  \<open>internal/outbox/outboxdb\<close>, and the record headers of \<open>internal/events/events.go\<close>.

  \<open>RunOnce\<close> produces to Kafka inside a transaction, so it takes several steps: one that
  reads the batch and locks its rows, one for every record of \<open>ProduceSync\<close>, since each
  record is acknowledged or fails by itself, and one that marks the rows, commits and
  unlocks, or rolls back. The lemmas show that a batch is marked only when all its records
  were produced, and that \<open>Cleanup\<close> removes exactly the published rows past the retention.
\<close>

section \<open>Statements\<close>

definition unpublished :: "nat \<Rightarrow> (int \<Rightarrow> bool) \<Rightarrow> outbox_row list \<Rightarrow> outbox_row list" where
  "unpublished n locked ms =
    take n (sort_key ob_id (filter (\<lambda>m. ob_published_at m = None \<and> \<not> locked (ob_id m)) ms))"

definition LockUnpublished :: "nat \<Rightarrow> (int \<Rightarrow> bool) \<Rightarrow> outbox_row list dbtx" where
  "LockUnpublished n locked = tx_read (\<lambda>d. unpublished n locked (outbox d))"

definition MarkPublished :: "time \<Rightarrow> int list \<Rightarrow> unit dbtx" where
  "MarkPublished now ids d = Inr (d\<lparr>outbox := update_where (\<lambda>m. ob_id m \<in> set ids)
     (\<lambda>m. m\<lparr>ob_published_at := Some now\<rparr>) (outbox d)\<rparr>, ())"

definition published_before :: "time \<Rightarrow> outbox_row \<Rightarrow> bool" where
  "published_before t m = (case ob_published_at m of None \<Rightarrow> False | Some p \<Rightarrow> p < t)"

definition DeletePublishedBefore :: "time \<Rightarrow> duration \<Rightarrow> nat \<Rightarrow> int dbtx" where
  "DeletePublishedBefore now retention n d =
    (let old = take n (sort (map ob_id (filter (published_before (now - retention)) (outbox d))));
         hit = (\<lambda>m. ob_id m \<in> set old)
     in Inr (d\<lparr>outbox := delete_where hit (outbox d)\<rparr>, int (length (filter hit (outbox d)))))"

definition CountUnpublished :: "int dbtx" where
  "CountUnpublished = tx_read (\<lambda>d. int (length (filter (\<lambda>m. ob_published_at m = None) (outbox d))))"

section \<open>The relay\<close>

definition RelayBatchSize :: nat where "RelayBatchSize = 500"
definition idleWait :: duration where "idleWait = 100 * 1000000"
definition errorWait :: duration where "errorWait = 1000000000"
definition Retention :: duration where "Retention = 7 * 24 * 3600 * 1000000000"
definition cleanupMaxBatch :: nat where "cleanupMaxBatch = 10000"
definition HeaderEventType :: string where "HeaderEventType = ''event_type''"
definition HeaderEventID :: string where "HeaderEventID = ''event_id''"

definition record_of :: "outbox_row \<Rightarrow> kafka_record" where
  "record_of m = \<lparr>k_topic = ob_topic m, k_key = ob_msg_key m, k_value = Some (ob_payload m),
     k_headers = [(HeaderEventType, ob_event_type m), (HeaderEventID, format_int (ob_id m))]\<rparr>"

definition outbox_locked :: "world \<Rightarrow> int \<Rightarrow> bool" where
  "outbox_locked w i \<longleftrightarrow> OutboxRow i \<in> set (locks w)"

definition relay_batch :: "world \<Rightarrow> outbox_row list" where
  "relay_batch w = unpublished RelayBatchSize (outbox_locked w) (outbox (pg w))"

text \<open>The batch and the \<open>now()\<close> of the transaction.\<close>

definition relay_lock :: "(world, (outbox_row list \<times> time) res) prog" where
  "relay_lock = Step (\<lambda>_. True)
     (\<lambda>x w. if x = Reply then w\<lparr>locks := map (\<lambda>m. OutboxRow (ob_id m)) (relay_batch w) @ locks w\<rparr> else w)
     (\<lambda>x w. Ret (if x = Reply then Inr (relay_batch w, pg_now w) else Inl infra_error))"

definition produce :: "kafka_record \<Rightarrow> (world, unit res) prog" where
  "produce r = call (\<lambda>w. (w\<lparr>kafka := kafka w @ [r]\<rparr>, Inr ()))"

text \<open>\<open>ProduceSync(records).FirstErr()\<close>: every record is tried, the first error is returned.\<close>

fun ProduceSync :: "kafka_record list \<Rightarrow> (world, unit res) prog" where
  "ProduceSync [] = Ret (Inr ())"
| "ProduceSync (r # rs) = bindp (produce r) (\<lambda>x. bindp (ProduceSync rs) (\<lambda>y.
     Ret (case x of Inl e \<Rightarrow> Inl e | Inr _ \<Rightarrow> y)))"

definition relay_unlock :: "int list \<Rightarrow> world \<Rightarrow> world" where
  "relay_unlock ids w = w\<lparr>locks := fold (\<lambda>i. remove1 (OutboxRow i)) ids (locks w)\<rparr>"

text \<open>The end of the transaction: commit with the rows marked, or roll back with the error.\<close>

definition relay_end :: "int list \<Rightarrow> time \<Rightarrow> unit res \<Rightarrow> (world, int res) prog" where
  "relay_end ids now r = Step (\<lambda>_. True)
     (\<lambda>x w. relay_unlock ids (case r of
        Inl e \<Rightarrow> w
      | Inr _ \<Rightarrow> if x = Fail then w else fst (run_tx (\<lambda>_. MarkPublished now ids) w)))
     (\<lambda>x w. Ret (case r of
        Inl e \<Rightarrow> Inl e
      | Inr _ \<Rightarrow> if x = Reply then Inr (int (length ids)) else Inl infra_error))"

definition relay_RunOnce :: "(world, int res) prog" where
  "relay_RunOnce = bindp relay_lock (\<lambda>r.
     case r of
       Inl e \<Rightarrow> Ret (Inl e)
     | Inr (rows, now) \<Rightarrow>
         if rows = [] then Ret (Inr 0)
         else bindp (ProduceSync (map record_of rows)) (relay_end (map ob_id rows) now))"

text \<open>
  \<open>Cleanup\<close> under a deadline that leaves time for at most n statements: the deadline makes
  the next statement fail. The answer is the count with the error, if any.
\<close>

primrec Cleanup :: "nat \<Rightarrow> int \<Rightarrow> (world, int \<times> goerror option) prog" where
  "Cleanup 0 tot = Ret (tot, Some [Opaque ''context deadline exceeded''])"
| "Cleanup (Suc n) tot =
    bindp (begin_func (\<lambda>_. True) (\<lambda>now. DeletePublishedBefore now Retention cleanupMaxBatch)) (\<lambda>r.
      case r of
        Inl e \<Rightarrow> Ret (tot, Some e)
      | Inr k \<Rightarrow> if k < int cleanupMaxBatch then Ret (int64 (tot + k), None) else Cleanup n (int64 (tot + k)))"

definition relay_wait :: "int res \<Rightarrow> duration" where
  "relay_wait r = (case r of
     Inl e \<Rightarrow> errorWait
   | Inr n \<Rightarrow> if n > 0 then (if n < int RelayBatchSize then idleWait else 0) else idleWait)"

text \<open>One turn of \<open>Run\<close>: a batch, a cleanup when it is due, and the pause that follows.\<close>

definition relay_turn :: "bool \<Rightarrow> nat \<Rightarrow> (world, duration) prog" where
  "relay_turn due n = bindp relay_RunOnce (\<lambda>r.
     bindp (if due then bindp (Cleanup n 0) (\<lambda>_. Ret ()) else Ret ()) (\<lambda>_. Ret (relay_wait r)))"

section \<open>Cleaning up\<close>

lemma filter_ids:
  assumes "distinct (map ob_id ms)" "set ids \<subseteq> ob_id ` set ms" "distinct ids"
  shows "length (filter (\<lambda>m. ob_id m \<in> set ids) ms) = length ids"
proof -
  have "distinct (map ob_id (filter (\<lambda>m. ob_id m \<in> set ids) ms))" by (rule distinct_map_filter[OF assms(1)])
  then have "length (filter (\<lambda>m. ob_id m \<in> set ids) ms) = card (ob_id ` set (filter (\<lambda>m. ob_id m \<in> set ids) ms))"
    by (metis distinct_card length_map set_map)
  also have "ob_id ` set (filter (\<lambda>m. ob_id m \<in> set ids) ms) = set ids" using assms(2) by auto
  finally show ?thesis using assms(3) by (simp add: distinct_card)
qed

text \<open>One statement deletes the oldest of the rows that are due, at most a batch of them.\<close>

lemma delete_batch:
  fixes now :: time and keep :: duration
  assumes "distinct (map ob_id (outbox d))"
  defines "old \<equiv> published_before (now - keep)"
  defines "k \<equiv> length (filter old (outbox d))"
  obtains d' where "DeletePublishedBefore now keep b d = Inr (d', int (min b k))"
    "d' = d\<lparr>outbox := outbox d'\<rparr>" "filter (\<lambda>m. \<not> old m) (outbox d') = filter (\<lambda>m. \<not> old m) (outbox d)"
    "length (filter old (outbox d')) = k - min b k" "distinct (map ob_id (outbox d'))"
proof -
  define ids where "ids = take b (sort (map ob_id (filter old (outbox d))))"
  define hit where "hit = (\<lambda>m :: outbox_row. ob_id m \<in> set ids)"
  have ids: "distinct ids" "set ids \<subseteq> ob_id ` set (filter old (outbox d))" "length ids = min b k"
    using distinct_map_filter[OF assms(1), of old] set_take_subset[of b "sort (map ob_id (filter old (outbox d)))"]
    by (auto simp: ids_def k_def)
  have hits: "hit m \<Longrightarrow> m \<in> set (outbox d) \<Longrightarrow> old m" for m
    using ids(2) assms(1) by (auto simp: hit_def distinct_map inj_on_def)
  have len: "length (filter hit (outbox d)) = min b k"
    using filter_ids[OF assms(1), of ids] ids unfolding hit_def by auto
  let ?d = "d\<lparr>outbox := delete_where hit (outbox d)\<rparr>"
  have del: "outbox ?d = filter (\<lambda>m. \<not> hit m) (outbox d)" by (simp add: delete_where_def)
  have k: "k = length (filter hit (outbox d)) + length (filter (\<lambda>m. old m \<and> \<not> hit m) (outbox d))"
  proof -
    have "k = length (filter hit (filter old (outbox d))) + length (filter (\<lambda>m. \<not> hit m) (filter old (outbox d)))"
      unfolding k_def by (rule sum_length_filter_compl[symmetric])
    moreover have "filter hit (filter old (outbox d)) = filter hit (outbox d)" using hits by (auto intro!: filter_cong)
    ultimately show ?thesis by (simp add: conj_commute)
  qed
  show thesis
  proof (rule that[of ?d])
    show "DeletePublishedBefore now keep b d = Inr (?d, int (min b k))"
      using len by (simp add: DeletePublishedBefore_def Let_def hit_def ids_def old_def)
    show "filter (\<lambda>m. \<not> old m) (outbox ?d) = filter (\<lambda>m. \<not> old m) (outbox d)"
      unfolding del using hits by (auto intro!: filter_cong)
    show "length (filter old (outbox ?d)) = k - min b k"
      unfolding del using k len by (simp add: conj_commute)
    show "distinct (map ob_id (outbox ?d))" unfolding del by (rule distinct_map_filter[OF assms(1)])
  qed simp
qed

lemma Cleanup_run:
  assumes "distinct (map ob_id (outbox (pg w)))"
    and "length (filter (published_before (pg_now w - Retention)) (outbox (pg w))) < n * cleanupMaxBatch"
    and "0 \<le> tot" "tot + int (length (outbox (pg w))) < 2 ^ 63"
  shows "\<exists>d. run (replicate n Reply) w (Cleanup n tot)
      = Some (w\<lparr>pg := d\<rparr>, tot + int (length (filter (published_before (pg_now w - Retention)) (outbox (pg w)))), None)
    \<and> d = (pg w)\<lparr>outbox := filter (\<lambda>m. \<not> published_before (pg_now w - Retention) m) (outbox (pg w))\<rparr>"
  using assms
proof (induction n arbitrary: w tot)
  case (Suc n)
  let ?old = "published_before (pg_now w - Retention)"
  let ?k = "length (filter ?old (outbox (pg w)))"
  obtain d' where d: "DeletePublishedBefore (pg_now w) Retention cleanupMaxBatch (pg w) = Inr (d', int (min cleanupMaxBatch ?k))"
    "d' = (pg w)\<lparr>outbox := outbox d'\<rparr>" "filter (\<lambda>m. \<not> ?old m) (outbox d') = filter (\<lambda>m. \<not> ?old m) (outbox (pg w))"
    "length (filter ?old (outbox d')) = ?k - min cleanupMaxBatch ?k" "distinct (map ob_id (outbox d'))"
    by (rule delete_batch[OF Suc.prems(1)])
  have le: "?k \<le> length (outbox (pg w))" by simp
  have len: "length (outbox d') + min cleanupMaxBatch ?k = length (outbox (pg w))"
    using sum_length_filter_compl[of ?old "outbox d'"] sum_length_filter_compl[of ?old "outbox (pg w)"] d(3,4) by simp
  have "0 \<le> tot + int (min cleanupMaxBatch ?k)" "tot + int (min cleanupMaxBatch ?k) < 2 ^ 63"
    using Suc.prems(3,4) le by linarith+
  then have i: "int64 (tot + int (min cleanupMaxBatch ?k)) = tot + int (min cleanupMaxBatch ?k)"
    by (intro int64_id) (simp add: in_int64_def)
  show ?case
  proof (cases "?k < cleanupMaxBatch")
    case True
    then have "filter ?old (outbox d') = []" using d(4) by simp
    then have "filter (\<lambda>m. \<not> ?old m) (outbox d') = outbox d'" by (simp add: filter_empty_conv filter_id_conv)
    then have "d' = (pg w)\<lparr>outbox := filter (\<lambda>m. \<not> ?old m) (outbox (pg w))\<rparr>" using d(2,3) by simp
    then show ?thesis using d(1) True i by (simp add: begin_func_def run_tx_def)
  next
    case False
    let ?w = "w\<lparr>pg := d'\<rparr>"
    have "\<exists>d. run (replicate n Reply) ?w (Cleanup n (tot + int cleanupMaxBatch))
        = Some (?w\<lparr>pg := d\<rparr>, tot + int cleanupMaxBatch + int (length (filter ?old (outbox d'))), None)
      \<and> d = d'\<lparr>outbox := filter (\<lambda>m. \<not> ?old m) (outbox d')\<rparr>"
      using Suc.IH[of ?w "tot + int cleanupMaxBatch"] d(4,5) False Suc.prems(2-4) len by simp
    moreover have "d'\<lparr>outbox := filter (\<lambda>m. \<not> ?old m) (outbox d')\<rparr>
        = (pg w)\<lparr>outbox := filter (\<lambda>m. \<not> ?old m) (outbox (pg w))\<rparr>"
      unfolding d(3) by (subst d(2)) simp
    ultimately show ?thesis using d(1,4) False i by (simp add: begin_func_def run_tx_def)
  qed
qed simp

text \<open>
  C36. The cleanup of the outbox ends and is exact: with time for more statements than there are
  full batches, it deletes every message published before the retention period and nothing
  else, so no unpublished message, and answers their number without an error. The count
  stays within 64 bits.
\<close>

theorem cleanup_deletes_old:
  assumes "distinct (map ob_id (outbox (pg w)))" "int (length (outbox (pg w))) < 2 ^ 63"
    and "length (filter (published_before (pg_now w - Retention)) (outbox (pg w))) < n * cleanupMaxBatch"
  shows "run (replicate n Reply) w (Cleanup n 0)
    = Some (w\<lparr>pg := (pg w)\<lparr>outbox := filter (\<lambda>m. \<not> published_before (pg_now w - Retention) m) (outbox (pg w))\<rparr>\<rparr>,
        int (length (filter (published_before (pg_now w - Retention)) (outbox (pg w)))), None)"
  using Cleanup_run[OF assms(1,3), of 0] assms(2) by simp

definition aged_outbox :: world where
  "aged_outbox = (empty_world Retention)\<lparr>pg := (empty_db 4)\<lparr>outbox := map (\<lambda>(i, p). \<lparr>ob_id = i, ob_topic = ''t'',
     ob_msg_key = ''k'', ob_event_type = ''e'', ob_payload = \<lparr>ev_event_id = i, ev_event_type = ''e'', ev_occurred_at = 0,
       ev_order_id = ''k'', ev_event = 1, ev_user_id = 1, ev_seat_ids = [], ev_total_vnd = 0, ev_provider_txn_id = [],
       ev_amount_vnd = 0, ev_reason = []\<rparr>, ob_created_at = 0, ob_published_at = p\<rparr>)
     [(1, Some (-5)), (2, None), (3, Some 7)]\<rparr>\<rparr>"

theorem cleanup_deletes_old_witness:
  "\<exists>w'. run (replicate 1 Reply) aged_outbox (Cleanup 1 0) = Some (w', 1, None) \<and> map ob_id (outbox (pg w')) = [2, 3]"
  using cleanup_deletes_old[of aged_outbox 1]
  by (simp add: aged_outbox_def empty_world_def published_before_def cleanupMaxBatch_def del: Cleanup.simps)

end
