(* ===== verification/Ledger.thy ===== *)
theory Ledger
  imports Lifecycle Relay
begin

text \<open>
  The abstract specification of the order book and its invariant. \<open>ledger_step\<close> lists what
  may happen to the tables: an order is placed, moves along the state machine, is paid with
  its tickets, a payment is ignored or refunded, a refund completes, tickets get their QR
  code, outbox rows are published or cleaned up, seat holds change, an event is seeded. Each
  change of an order comes with its outbox event. \<open>ledger\<close> is the invariant of SPEC.md 13.4:
  no seat with two tickets, paid orders with all their tickets and the others with none,
  every payment accounted for, and the money received equal to the money of paid orders plus
  the refunds. The component theories show that their transactions are sequences of such
  steps.
\<close>

section \<open>Effects\<close>

definition outbox_message :: "int \<Rightarrow> time \<Rightarrow> string \<Rightarrow> string \<Rightarrow> order_event \<Rightarrow> outbox_row" where
  "outbox_message i now topic ty ev = \<lparr>ob_id = i, ob_topic = topic, ob_msg_key = ev_order_id ev,
     ob_event_type = ty, ob_payload = ev\<lparr>ev_event_id := i, ev_event_type := ty, ev_occurred_at := now\<rparr>,
     ob_created_at = now, ob_published_at = None\<rparr>"

definition add_event :: "time \<Rightarrow> string \<Rightarrow> string \<Rightarrow> order_event \<Rightarrow> db \<Rightarrow> db" where
  "add_event now topic ty ev d = d\<lparr>outbox_seq := outbox_seq d + 1,
     outbox := outbox d @ [outbox_message (outbox_seq d) now topic ty ev]\<rparr>"

definition set_status :: "uuid \<Rightarrow> status \<Rightarrow> time \<Rightarrow> order_row list \<Rightarrow> order_row list" where
  "set_status i to now = update_where (\<lambda>q. o_id q = i) (\<lambda>q. q\<lparr>o_status := to, o_updated_at := now\<rparr>)"

fun event_topic :: "status \<Rightarrow> string" where
  "event_topic StatusTicketed = TopicTickets"
| "event_topic s = TopicOrders"

fun event_type :: "status \<Rightarrow> string" where
  "event_type StatusHeld = OrderHeld"
| "event_type StatusPaid = OrderPaid"
| "event_type StatusTicketed = TicketIssued"
| "event_type StatusExpired = OrderExpired"
| "event_type StatusCancelled = OrderCancelled"
| "event_type StatusRefunding = OrderRefundRequested"
| "event_type StatusRefunded = OrderRefunded"

definition seats_of :: "db \<Rightarrow> uuid \<Rightarrow> order_seat_row list" where
  "seats_of d i = filter (\<lambda>s. os_order_id s = i) (order_seats d)"

definition tickets_of :: "db \<Rightarrow> uuid \<Rightarrow> ticket_row list" where
  "tickets_of d i = filter (\<lambda>t. t_order_id t = i) (tickets d)"

definition payments_of :: "db \<Rightarrow> uuid \<Rightarrow> payment_row list" where
  "payments_of d i = filter (\<lambda>p. p_order_id p = i) (payments d)"

definition refunds_of :: "db \<Rightarrow> uuid \<Rightarrow> refund_row list" where
  "refunds_of d i = filter (\<lambda>r. r_order_id r = i) (refunds d)"

section \<open>The specification\<close>

text \<open>
  \<open>qr\<close> is the QR code of a ticket id and \<open>K\<close> the set of records Kafka has: a ticket gets no
  other code and a message is marked published only when its record is in K.
\<close>

inductive ledger_step :: "(uuid \<Rightarrow> string) \<Rightarrow> kafka_record set \<Rightarrow> db \<Rightarrow> db \<Rightarrow> bool" for qr K where
  place: "o_id q \<notin> order_ids d
    \<Longrightarrow> (o_user_id q, o_idempotency_key q) \<notin> (\<lambda>q. (o_user_id q, o_idempotency_key q)) ` set (orders d)
    \<Longrightarrow> (o_event_id q, o_user_id q) \<notin> (\<lambda>q. (o_event_id q, o_user_id q)) ` set (filter held (orders d))
    \<Longrightarrow> o_status q = StatusHeld
    \<Longrightarrow> rows \<noteq> [] \<Longrightarrow> distinct (map os_seat_id rows)
    \<Longrightarrow> \<forall>r\<in>set rows. os_order_id r = o_id q \<and> os_event_id r = o_event_id q
    \<Longrightarrow> o_total_vnd q = sum64 0 (map os_price_vnd rows)
    \<Longrightarrow> ev_order_id ev = o_id q
    \<Longrightarrow> ledger_step qr K d (add_event now TopicOrders OrderHeld ev
          (d\<lparr>orders := orders d @ [q], order_seats := order_seats d @ rows\<rparr>))"
| move: "row_by o_id i (orders d) = Some q \<Longrightarrow> CanTransition (o_status q) to
    \<Longrightarrow> to \<in> {StatusCancelled, StatusExpired, StatusTicketed} \<Longrightarrow> ev_order_id ev = i
    \<Longrightarrow> to = StatusTicketed \<longrightarrow> (\<forall>t\<in>set (tickets_of d i). t_qr_payload t \<noteq> None)
    \<Longrightarrow> ledger_step qr K d (add_event now (event_topic to) (event_type to) ev
          (d\<lparr>orders := set_status i to now (orders d)\<rparr>))"
| ignore: "p_provider_txn_id p \<notin> p_provider_txn_id ` set (payments d) \<Longrightarrow> p_order_id p \<in> order_ids d
    \<Longrightarrow> p_status p = StatusFailed \<Longrightarrow> p_outcome p = ''IGNORED_FAILED''
    \<Longrightarrow> ledger_step qr K d (d\<lparr>payments := payments d @ [p]\<rparr>)"
| settle: "p_provider_txn_id p \<notin> p_provider_txn_id ` set (payments d) \<Longrightarrow> p_order_id p = i
    \<Longrightarrow> p_status p = StatusSucceeded \<Longrightarrow> p_outcome p = ''APPLIED''
    \<Longrightarrow> row_by o_id i (orders d) = Some q \<Longrightarrow> o_status q = StatusHeld \<or> o_status q = StatusExpired
    \<Longrightarrow> p_amount_vnd p = o_total_vnd q
    \<Longrightarrow> distinct (map t_id (tickets d @ ts)) \<Longrightarrow> distinct (map t_key (tickets d @ ts))
    \<Longrightarrow> \<forall>t\<in>set ts. t_order_id t = i \<and> t_event_id t = o_event_id q \<and> t_qr_payload t = None
    \<Longrightarrow> t_seat_id ` set ts = os_seat_id ` set (seats_of d i)
    \<Longrightarrow> ev_order_id ev = i
    \<Longrightarrow> ledger_step qr K d (add_event now TopicOrders OrderPaid ev
          (d\<lparr>payments := payments d @ [p], tickets := tickets d @ ts,
             orders := set_status i StatusPaid now (orders d)\<rparr>))"
| request_refund: "p_provider_txn_id p \<notin> p_provider_txn_id ` set (payments d) \<Longrightarrow> p_order_id p = i
    \<Longrightarrow> p_status p = StatusSucceeded \<Longrightarrow> p_outcome p = ''REFUND_REQUIRED''
    \<Longrightarrow> row_by o_id i (orders d) = Some q
    \<Longrightarrow> r_provider_txn_id r = p_provider_txn_id p \<Longrightarrow> r_order_id r = i
    \<Longrightarrow> r_amount_vnd r = p_amount_vnd p \<Longrightarrow> r_status r = RefundPending
    \<Longrightarrow> r_provider_txn_id r \<notin> r_provider_txn_id ` set (refunds d)
    \<Longrightarrow> (if paid (o_status q) \<or> refund_side (o_status q)
         then r_reason r = ReasonDoublePayment \<and> os = orders d
         else r_reason r \<noteq> ReasonDoublePayment \<and> os = set_status i StatusRefunding now (orders d))
    \<Longrightarrow> ev_order_id ev = i \<and> ev_provider_txn_id ev = p_provider_txn_id p
    \<Longrightarrow> ledger_step qr K d (add_event now TopicOrders OrderRefundRequested ev
          (d\<lparr>payments := payments d @ [p], refunds := refunds d @ [r], orders := os\<rparr>))"
| complete_refund: "r \<in> set (refunds d) \<Longrightarrow> r_provider_txn_id r = txn \<Longrightarrow> r_status r = RefundPending
    \<Longrightarrow> row_by o_id (r_order_id r) (orders d) = Some q
    \<Longrightarrow> os = (if r_reason r \<noteq> ReasonDoublePayment \<and> o_status q = StatusRefunding
              then set_status (r_order_id r) StatusRefunded now (orders d) else orders d)
    \<Longrightarrow> ev_order_id ev = r_order_id r \<and> ev_provider_txn_id ev = txn
    \<Longrightarrow> ledger_step qr K d (add_event now TopicOrders OrderRefunded ev
          (d\<lparr>refunds := update_where (\<lambda>x. r_provider_txn_id x = txn \<and> r_status x = RefundPending)
               (\<lambda>x. x\<lparr>r_status := RefundSucceeded, r_completed_at := Some now\<rparr>) (refunds d), orders := os\<rparr>))"
| issue_qr: "ledger_step qr K d (d\<lparr>tickets := update_where (\<lambda>t. C t \<and> t_qr_payload t = None)
    (\<lambda>t. t\<lparr>t_qr_payload := Some (qr (t_id t)), t_issued_at := Some now\<rparr>) (tickets d)\<rparr>)"
| publish: "\<forall>m\<in>set (outbox d). P m \<longrightarrow> record_of m \<in> K
    \<Longrightarrow> ledger_step qr K d (d\<lparr>outbox := update_where P (\<lambda>m. m\<lparr>ob_published_at := Some now\<rparr>) (outbox d)\<rparr>)"
| clean_up: "\<forall>m\<in>set (outbox d). P m \<longrightarrow> ob_published_at m \<noteq> None
    \<Longrightarrow> ledger_step qr K d (d\<lparr>outbox := delete_where P (outbox d)\<rparr>)"
| skip_id: "outbox_seq d \<le> n \<Longrightarrow> ledger_step qr K d (d\<lparr>outbox_seq := n\<rparr>)"
| change_holds: "ledger_step qr K d (d\<lparr>seat_holds := hs\<rparr>)"
| seed: "ledger_step qr K d (d\<lparr>events := es, seats := ss\<rparr>)"

abbreviation ledger_steps :: "(uuid \<Rightarrow> string) \<Rightarrow> kafka_record set \<Rightarrow> db \<Rightarrow> db \<Rightarrow> bool" where
  "ledger_steps qr K \<equiv> (ledger_step qr K)\<^sup>*\<^sup>*"

section \<open>The invariant\<close>

definition sum_by :: "('r \<Rightarrow> bool) \<Rightarrow> ('r \<Rightarrow> int) \<Rightarrow> 'r list \<Rightarrow> int" where
  "sum_by P f rs = sum_list (map f (filter P rs))"

text \<open>An order with its seats, tickets, payments and refunds.\<close>

definition order_seats_ok :: "order_row \<Rightarrow> order_seat_row list \<Rightarrow> bool" where
  "order_seats_ok q ss \<longleftrightarrow> ss \<noteq> [] \<and> (\<forall>s\<in>set ss. os_event_id s = o_event_id q)
    \<and> o_total_vnd q = sum64 0 (map os_price_vnd ss)"

definition sold :: "status \<Rightarrow> bool" where
  "sold s \<longleftrightarrow> paid s"

definition order_tickets_ok :: "order_row \<Rightarrow> order_seat_row list \<Rightarrow> ticket_row list \<Rightarrow> bool" where
  "order_tickets_ok q ss ts \<longleftrightarrow>
    (if sold (o_status q)
     then t_seat_id ` set ts = os_seat_id ` set ss \<and> (\<forall>t\<in>set ts. t_event_id t = o_event_id q)
       \<and> (o_status q = StatusTicketed \<longrightarrow> (\<forall>t\<in>set ts. t_qr_payload t \<noteq> None))
     else ts = [])"

definition order_payments_ok :: "order_row \<Rightarrow> payment_row list \<Rightarrow> bool" where
  "order_payments_ok q ps \<longleftrightarrow>
    map p_amount_vnd (filter (\<lambda>p. p_outcome p = ''APPLIED'') ps) = (if sold (o_status q) then [o_total_vnd q] else [])"

fun refund_states :: "status \<Rightarrow> string list" where
  "refund_states StatusRefunding = [RefundPending]"
| "refund_states StatusRefunded = [RefundSucceeded]"
| "refund_states s = []"

definition order_refunds_ok :: "order_row \<Rightarrow> refund_row list \<Rightarrow> bool" where
  "order_refunds_ok q rs \<longleftrightarrow>
    map r_status (filter (\<lambda>r. r_reason r \<noteq> ReasonDoublePayment) rs) = refund_states (o_status q)"

definition payment_ok :: "db \<Rightarrow> payment_row \<Rightarrow> bool" where
  "payment_ok d p \<longleftrightarrow>
    (p_status p = StatusFailed \<and> p_outcome p = ''IGNORED_FAILED'')
    \<or> (p_status p = StatusSucceeded \<and> p_outcome p = ''APPLIED'')
    \<or> (p_status p = StatusSucceeded \<and> p_outcome p = ''REFUND_REQUIRED''
       \<and> (\<exists>r\<in>set (refunds d). r_provider_txn_id r = p_provider_txn_id p \<and> r_order_id r = p_order_id p
            \<and> r_amount_vnd r = p_amount_vnd p))"

definition refund_ok :: "db \<Rightarrow> refund_row \<Rightarrow> bool" where
  "refund_ok d r \<longleftrightarrow> (r_status r = RefundPending \<or> r_status r = RefundSucceeded)
    \<and> (\<exists>p\<in>set (payments d). p_provider_txn_id p = r_provider_txn_id r \<and> p_outcome p = ''REFUND_REQUIRED'')"

definition balance :: "db \<Rightarrow> bool" where
  "balance d \<longleftrightarrow>
    sum_by (\<lambda>p. p_status p = StatusSucceeded) p_amount_vnd (payments d)
    = sum_by (\<lambda>q. sold (o_status q)) o_total_vnd (orders d) + sum_by (\<lambda>_. True) r_amount_vnd (refunds d)"

definition orders_ok :: "db \<Rightarrow> bool" where
  "orders_ok d \<longleftrightarrow> (\<forall>q\<in>set (orders d).
     order_seats_ok q (seats_of d (o_id q))
     \<and> order_tickets_ok q (seats_of d (o_id q)) (tickets_of d (o_id q))
     \<and> order_payments_ok q (payments_of d (o_id q))
     \<and> order_refunds_ok q (refunds_of d (o_id q)))"

definition ledger :: "db \<Rightarrow> bool" where
  "ledger d \<longleftrightarrow> schema d \<and> orders_ok d \<and> (\<forall>p\<in>set (payments d). payment_ok d p)
    \<and> (\<forall>r\<in>set (refunds d). refund_ok d r) \<and> balance d"

section \<open>Steps keep the schema\<close>

lemma add_event_tables [simp]:
  "orders (add_event now tp ty ev d) = orders d" "order_seats (add_event now tp ty ev d) = order_seats d"
  "tickets (add_event now tp ty ev d) = tickets d" "payments (add_event now tp ty ev d) = payments d"
  "refunds (add_event now tp ty ev d) = refunds d" "events (add_event now tp ty ev d) = events d"
  "seats (add_event now tp ty ev d) = seats d" "seat_holds (add_event now tp ty ev d) = seat_holds d"
  by (simp_all add: add_event_def)

lemma ids_set_status [simp]: "map o_id (set_status i to now os) = map o_id os"
  by (simp add: set_status_def map_update_where)

lemma image_ids_set_status [simp]: "o_id ` set (set_status i to now os) = o_id ` set os"
  by (metis ids_set_status set_map)

lemma schema_outbox_add:
  "schema_outbox n ms \<Longrightarrow> schema_outbox (n + 1) (ms @ [outbox_message n now tp ty ev])"
  by (fastforce simp: schema_outbox_def outbox_message_def)

lemma schema_add_event: "schema d \<Longrightarrow> schema (add_event now tp ty ev d)"
  unfolding schema_def order_ids_def
  by (simp add: schema_outbox_add) (simp add: add_event_def schema_outbox_add)

lemma schema_set_status:
  "schema d \<Longrightarrow> to \<noteq> StatusHeld \<Longrightarrow> schema (d\<lparr>orders := set_status i to now (orders d)\<rparr>)"
  unfolding set_status_def by (rule schema_status_update)

lemma schema_add_seats:
  assumes "schema d" "\<forall>r\<in>set rows. os_order_id r = i" "i \<in> order_ids d"
    and "distinct (map os_seat_id rows)" "seats_of d i = []"
  shows "schema (d\<lparr>order_seats := order_seats d @ rows\<rparr>)"
proof -
  have "distinct (map os_key rows)"
    using assms(4) by (auto simp: distinct_map inj_on_def os_key_def)
  moreover have "os_key ` set (order_seats d) \<inter> os_key ` set rows = {}"
    using assms(2,5) by (force simp: os_key_def seats_of_def filter_empty_conv)
  ultimately have "schema_order_seats (order_ids d) (order_seats d @ rows)"
    using assms(1,2,3) by (auto simp: schema_def schema_order_seats_def)
  then show ?thesis using assms(1) by (simp add: schema_def)
qed

lemma schema_add_payment:
  "schema d \<Longrightarrow> p_provider_txn_id p \<notin> p_provider_txn_id ` set (payments d) \<Longrightarrow> p_order_id p \<in> order_ids d
    \<Longrightarrow> schema (d\<lparr>payments := payments d @ [p]\<rparr>)"
  by (simp add: schema_def schema_money_def subset_insertI2)

lemma schema_add_refund:
  "schema d \<Longrightarrow> r_provider_txn_id r \<notin> r_provider_txn_id ` set (refunds d)
    \<Longrightarrow> r_provider_txn_id r \<in> p_provider_txn_id ` set (payments d) \<Longrightarrow> r_order_id r \<in> order_ids d
    \<Longrightarrow> schema (d\<lparr>refunds := refunds d @ [r]\<rparr>)"
  by (simp add: schema_def schema_money_def)

lemma schema_add_tickets:
  assumes "schema d" "distinct (map t_id (tickets d @ ts))" "distinct (map t_key (tickets d @ ts))"
    and "\<forall>t\<in>set ts. t_order_id t = i" "i \<in> order_ids d"
  shows "schema (d\<lparr>tickets := tickets d @ ts\<rparr>)"
proof -
  have "t_order_id ` set ts \<subseteq> order_ids d" using assms(4,5) by auto
  then have "schema_tickets (order_ids d) (tickets d @ ts)"
    using assms(1-3) unfolding schema_def schema_tickets_def by (simp only: set_append image_Un) simp
  then show ?thesis using assms(1) by (simp add: schema_def)
qed

lemma row_in_ids: "row_by o_id i (orders d) = Some q \<Longrightarrow> i \<in> order_ids d"
  by (auto simp: order_ids_def dest: row_by_SomeD)

lemma seats_of_fresh: "schema d \<Longrightarrow> i \<notin> order_ids d \<Longrightarrow> seats_of d i = []"
  by (auto simp: schema_def schema_order_seats_def seats_of_def filter_empty_conv)

lemma schema_ids: "schema d \<Longrightarrow> distinct (map o_id (orders d))"
  by (simp add: schema_def schema_orders_def)

lemma step_schema:
  assumes "ledger_step qr K d d'" "schema d"
  shows "schema d'"
  using assms
proof (induction rule: ledger_step.induct)
  case (place q d rows ev now)
  have "schema (d\<lparr>orders := orders d @ [q]\<rparr>)" using place by (intro schema_add_order) (auto simp: order_ids_def)
  moreover have "seats_of (d\<lparr>orders := orders d @ [q]\<rparr>) (o_id q) = []"
    using seats_of_fresh[of d "o_id q"] place by (simp add: seats_of_def)
  ultimately have "schema (d\<lparr>orders := orders d @ [q], order_seats := order_seats d @ rows\<rparr>)"
    using schema_add_seats[of "d\<lparr>orders := orders d @ [q]\<rparr>" rows "o_id q"] place by simp
  then show ?case by (rule schema_add_event)
next
  case (move i d q to ev now)
  then show ?case by (auto intro: schema_add_event schema_set_status)
next
  case (ignore p d)
  then show ?case by (simp add: schema_add_payment)
next
  case (settle p d i q ts ev now)
  have i: "i \<in> order_ids d" using settle(5) by (rule row_in_ids)
  have "schema (d\<lparr>payments := payments d @ [p]\<rparr>)" using settle i by (intro schema_add_payment) auto
  then have "schema (d\<lparr>payments := payments d @ [p], tickets := tickets d @ ts\<rparr>)"
    using schema_add_tickets[of "d\<lparr>payments := payments d @ [p]\<rparr>" ts i] settle i by simp
  then have "schema (d\<lparr>payments := payments d @ [p], tickets := tickets d @ ts, orders := set_status i StatusPaid now (orders d)\<rparr>)"
    using schema_set_status[of "d\<lparr>payments := payments d @ [p], tickets := tickets d @ ts\<rparr>" StatusPaid i now] by simp
  then show ?case by (rule schema_add_event)
next
  case (request_refund p d i q r os now ev)
  have i: "i \<in> order_ids d" using request_refund(5) by (rule row_in_ids)
  let ?d = "d\<lparr>payments := payments d @ [p], refunds := refunds d @ [r]\<rparr>"
  have "schema (d\<lparr>payments := payments d @ [p]\<rparr>)" using request_refund i by (intro schema_add_payment) auto
  then have s: "schema ?d"
    using schema_add_refund[of "d\<lparr>payments := payments d @ [p]\<rparr>" r] request_refund i by simp
  have "schema (?d\<lparr>orders := os\<rparr>)"
    using s schema_set_status[of ?d StatusRefunding i now] request_refund(11) by (simp split: if_splits)
  then show ?case by (rule schema_add_event)
next
  case (complete_refund r d txn q os now ev)
  let ?rs = "update_where (\<lambda>x. r_provider_txn_id x = txn \<and> r_status x = RefundPending)
               (\<lambda>x. x\<lparr>r_status := RefundSucceeded, r_completed_at := Some now\<rparr>) (refunds d)"
  have s: "schema (d\<lparr>refunds := ?rs\<rparr>)"
    using complete_refund by (simp add: schema_def schema_money_def map_update_where image_update_where)
  have "schema (d\<lparr>refunds := ?rs, orders := os\<rparr>)"
    using s schema_set_status[of "d\<lparr>refunds := ?rs\<rparr>" StatusRefunded "r_order_id r" now] complete_refund(5)
    by (simp split: if_splits)
  then show ?case by (rule schema_add_event)
next
  case (issue_qr d C now)
  then show ?case by (simp add: schema_def schema_tickets_def map_update_where image_update_where t_key_def)
next
  case (publish d P now)
  then show ?case by (auto simp: schema_def schema_outbox_def map_update_where set_update_where)
next
  case (clean_up P d)
  then show ?case by (auto simp: schema_def schema_outbox_def delete_where_def distinct_map_filter)
next
  case (skip_id d n)
  then show ?case by (auto simp: schema_def schema_outbox_def)
next
  case (change_holds d hs)
  then show ?case by (simp add: schema_def)
next
  case (seed d es ss)
  then show ?case by (simp add: schema_def order_ids_def)
qed

section \<open>Steps keep the invariant\<close>

lemma of_append [simp]:
  "seats_of (d\<lparr>order_seats := order_seats d @ rows\<rparr>) i = seats_of d i @ filter (\<lambda>s. os_order_id s = i) rows"
  "tickets_of (d\<lparr>tickets := tickets d @ ts\<rparr>) i = tickets_of d i @ filter (\<lambda>t. t_order_id t = i) ts"
  "payments_of (d\<lparr>payments := payments d @ ps\<rparr>) i = payments_of d i @ filter (\<lambda>p. p_order_id p = i) ps"
  "refunds_of (d\<lparr>refunds := refunds d @ rs\<rparr>) i = refunds_of d i @ filter (\<lambda>r. r_order_id r = i) rs"
  by (simp_all add: seats_of_def tickets_of_def payments_of_def refunds_of_def)

text \<open>The rows of an order depend on one table each.\<close>

lemma of_cong:
  "order_seats d' = order_seats d \<Longrightarrow> seats_of d' i = seats_of d i"
  "tickets d' = tickets d \<Longrightarrow> tickets_of d' i = tickets_of d i"
  "payments d' = payments d \<Longrightarrow> payments_of d' i = payments_of d i"
  "refunds d' = refunds d \<Longrightarrow> refunds_of d' i = refunds_of d i"
  by (simp_all add: seats_of_def tickets_of_def payments_of_def refunds_of_def)

definition order_ok :: "db \<Rightarrow> order_row \<Rightarrow> bool" where
  "order_ok d q \<longleftrightarrow> order_seats_ok q (seats_of d (o_id q))
     \<and> order_tickets_ok q (seats_of d (o_id q)) (tickets_of d (o_id q))
     \<and> order_payments_ok q (payments_of d (o_id q))
     \<and> order_refunds_ok q (refunds_of d (o_id q))"

lemma orders_ok_iff: "orders_ok d \<longleftrightarrow> (\<forall>q\<in>set (orders d). order_ok d q)"
  by (simp add: orders_ok_def order_ok_def)

text \<open>
  An order whose rows did not change is as good as before, and a status update leaves
  the other orders alone.
\<close>

lemma order_ok_frame:
  assumes "order_ok d q" "seats_of d' (o_id q) = seats_of d (o_id q)" "tickets_of d' (o_id q) = tickets_of d (o_id q)"
    "payments_of d' (o_id q) = payments_of d (o_id q)" "refunds_of d' (o_id q) = refunds_of d (o_id q)"
  shows "order_ok d' q"
  using assms by (simp add: order_ok_def)

lemma orders_ok_set_status:
  assumes "orders_ok d" "orders d' = set_status i to now (orders d)"
    and "row_by o_id i (orders d) = Some q" "distinct (map o_id (orders d))"
    and old: "\<And>q'. order_ok d q' \<Longrightarrow> o_id q' \<noteq> i \<Longrightarrow> order_ok d' q'"
    and new: "order_ok d' (q\<lparr>o_status := to, o_updated_at := now\<rparr>)"
  shows "orders_ok d'"
  unfolding orders_ok_iff
proof
  fix q' assume "q' \<in> set (orders d')"
  then obtain q0 where q0: "q0 \<in> set (orders d)"
    "q' = (if o_id q0 = i then q0\<lparr>o_status := to, o_updated_at := now\<rparr> else q0)"
    by (auto simp: assms(2) set_status_def update_where_def)
  show "order_ok d' q'"
  proof (cases "o_id q0 = i")
    case True
    then have "q0 = q" using row_by_SomeD[OF assms(3)] distinct_key_eq[OF assms(4)] q0(1) by metis
    then show ?thesis using new q0(2) True by simp
  next
    case False
    then show ?thesis using old[of q0] assms(1) q0 by (simp add: orders_ok_iff)
  qed
qed

lemma orders_ok_same:
  assumes "orders_ok d" "orders d' = orders d" "\<And>j. seats_of d' j = seats_of d j" "\<And>j. tickets_of d' j = tickets_of d j"
    "\<And>j. payments_of d' j = payments_of d j" "\<And>j. refunds_of d' j = refunds_of d j"
  shows "orders_ok d'"
  using assms by (auto simp: orders_ok_iff intro: order_ok_frame)

lemma sold_simps [simp]:
  "sold StatusPaid" "sold StatusTicketed" "\<not> sold StatusHeld" "\<not> sold StatusExpired" "\<not> sold StatusCancelled"
  "\<not> sold StatusRefunding" "\<not> sold StatusRefunded"
  by (simp_all add: sold_def)

text \<open>Sums over an updated table.\<close>

lemma sum_by_append [simp]: "sum_by P f (xs @ ys) = sum_by P f xs + sum_by P f ys"
  by (simp add: sum_by_def)

lemma sum_by_single [simp]: "sum_by P f [x] = (if P x then f x else 0)"
  by (simp add: sum_by_def)

lemma sum_by_Nil [simp]: "sum_by P f [] = 0"
  by (simp add: sum_by_def)

lemma sum_by_update_where:
  assumes "\<And>r. H r \<Longrightarrow> f (g r) = f r" "\<And>r. r \<in> set rs \<Longrightarrow> H r \<Longrightarrow> P (g r) = P r"
  shows "sum_by P f (update_where H g rs) = sum_by P f rs"
  using assms(2) by (induction rs) (auto simp: sum_by_def update_where_def assms(1))

lemma sum_paid_set_status:
  assumes "distinct (map o_id os)" "row_by o_id i os = Some q"
  shows "sum_by (\<lambda>q. sold (o_status q)) o_total_vnd (set_status i to now os)
    = sum_by (\<lambda>q. sold (o_status q)) o_total_vnd os
      + (if sold to then o_total_vnd q else 0) - (if sold (o_status q) then o_total_vnd q else 0)"
  using assms
proof (induction os)
  case (Cons a os)
  show ?case
  proof (cases "o_id a = i")
    case True
    then have "set_status i to now os = os"
      using Cons.prems(1) unfolding set_status_def by (intro update_where_id) (auto simp: image_iff)
    then show ?thesis using True Cons.prems by (auto simp: set_status_def sum_by_def)
  next
    case False
    then show ?thesis using Cons by (auto simp: set_status_def sum_by_def)
  qed
qed simp

lemma ledgerD:
  assumes "ledger d"
  shows "schema d" "orders_ok d" "\<forall>p\<in>set (payments d). payment_ok d p" "\<forall>r\<in>set (refunds d). refund_ok d r" "balance d"
    "distinct (map o_id (orders d))"
  using assms by (auto simp: ledger_def schema_def schema_orders_def)

lemma ledger_order:
  assumes "ledger d" "row_by o_id i (orders d) = Some q"
  shows "order_ok d q" "o_id q = i" "q \<in> set (orders d)"
proof -
  show "o_id q = i" "q \<in> set (orders d)" using row_by_SomeD[OF assms(2)] by auto
  then show "order_ok d q" using ledgerD(2)[OF assms(1)] by (simp add: orders_ok_iff)
qed

lemma ledger_add_event: "ledger d \<Longrightarrow> ledger (add_event now tp ty ev d)"
  using schema_add_event[of d]
  by (auto simp: ledger_def orders_ok_def seats_of_def tickets_of_def payments_of_def refunds_of_def
      payment_ok_def refund_ok_def balance_def)

text \<open>A freshly placed order has no tickets, payments or refunds.\<close>

lemma fresh_rows:
  assumes "schema d" "i \<notin> order_ids d"
  shows "seats_of d i = []" "tickets_of d i = []" "payments_of d i = []" "refunds_of d i = []"
  using assms by (auto simp: schema_def schema_order_seats_def schema_tickets_def schema_money_def
      seats_of_def tickets_of_def payments_of_def refunds_of_def filter_empty_conv)

lemma filter_const: "\<forall>x\<in>set xs. P x \<Longrightarrow> filter P xs = xs" "\<forall>x\<in>set xs. \<not> P x \<Longrightarrow> filter P xs = []"
  by (simp_all add: filter_empty_conv)

lemma ledger_place:
  assumes "ledger d" "schema (d\<lparr>orders := orders d @ [q], order_seats := order_seats d @ rows\<rparr>)"
    and "o_id q \<notin> order_ids d" "o_status q = StatusHeld" "rows \<noteq> []"
    and "\<forall>r\<in>set rows. os_order_id r = o_id q \<and> os_event_id r = o_event_id q"
    and "o_total_vnd q = sum64 0 (map os_price_vnd rows)"
  shows "ledger (d\<lparr>orders := orders d @ [q], order_seats := order_seats d @ rows\<rparr>)" (is "ledger ?d")
proof -
  note f = fresh_rows[OF ledgerD(1)[OF assms(1)] assms(3)]
  have rows: "seats_of ?d j = seats_of d j @ (if j = o_id q then rows else [])" for j
    using assms(6) filter_const[of rows "\<lambda>s. os_order_id s = j"] by (auto simp: seats_of_def)
  have rest: "tickets_of ?d j = tickets_of d j" "payments_of ?d j = payments_of d j" "refunds_of ?d j = refunds_of d j" for j
    by (simp_all add: tickets_of_def payments_of_def refunds_of_def)
  have new: "order_ok ?d q"
    using assms(4-7) by (simp add: order_ok_def rows rest f order_seats_ok_def order_tickets_ok_def order_payments_ok_def order_refunds_ok_def)
  have old: "order_ok ?d q'" if "q' \<in> set (orders d)" for q'
  proof -
    have "o_id q' \<noteq> o_id q" using assms(3) that by (auto simp: order_ids_def image_iff)
    then show ?thesis using order_ok_frame[of d q' ?d] ledgerD(2)[OF assms(1)] that
      by (simp add: orders_ok_iff rows rest)
  qed
  have "orders_ok ?d" using new old by (auto simp: orders_ok_iff)
  then show ?thesis using assms(1,2,4) by (simp add: ledger_def payment_ok_def refund_ok_def balance_def)
qed

lemma ledger_move:
  assumes "ledger d" "row_by o_id i (orders d) = Some q" "CanTransition (o_status q) to"
    and "to \<in> {StatusCancelled, StatusExpired, StatusTicketed}"
    and "to = StatusTicketed \<longrightarrow> (\<forall>t\<in>set (tickets_of d i). t_qr_payload t \<noteq> None)"
  shows "ledger (d\<lparr>orders := set_status i to now (orders d)\<rparr>)" (is "ledger ?d")
proof -
  note l = ledgerD[OF assms(1)]
  have st: "sold to = sold (o_status q)" "refund_states to = refund_states (o_status q)"
    using assms(3,4) by (cases "o_status q"; auto simp: CanTransition_iff)+
  have rows: "seats_of ?d j = seats_of d j" "tickets_of ?d j = tickets_of d j"
    "payments_of ?d j = payments_of d j" "refunds_of ?d j = refunds_of d j" for j
    by (simp_all add: seats_of_def tickets_of_def payments_of_def refunds_of_def)
  have "order_ok ?d (q\<lparr>o_status := to, o_updated_at := now\<rparr>)"
    using ledger_order(1,2)[OF assms(1,2)] assms(5)
    by (simp add: st order_ok_def rows order_seats_ok_def order_tickets_ok_def order_payments_ok_def order_refunds_ok_def)
  moreover have "order_ok ?d q'" if "order_ok d q'" "o_id q' \<noteq> i" for q'
    by (rule order_ok_frame[OF that(1)]) (simp_all only: rows)
  ultimately have "orders_ok ?d" by (intro orders_ok_set_status[OF l(2) _ assms(2) l(6)]) simp_all
  moreover have "schema ?d" using assms(4) l(1) by (intro schema_set_status) auto
  moreover have "balance ?d" using l(5) sum_paid_set_status[OF l(6) assms(2), of to now] by (simp add: balance_def st)
  ultimately show ?thesis using l(3,4) by (simp add: ledger_def payment_ok_def refund_ok_def)
qed

lemma ledger_ignore:
  assumes "ledger d" "schema (d\<lparr>payments := payments d @ [p]\<rparr>)" "p_status p = StatusFailed" "p_outcome p = ''IGNORED_FAILED''"
  shows "ledger (d\<lparr>payments := payments d @ [p]\<rparr>)" (is "ledger ?d")
proof -
  note l = ledgerD[OF assms(1)]
  have "order_ok ?d q" if "order_ok d q" for q
    using that assms(4)
    by (auto simp: order_ok_def order_payments_ok_def) (simp_all add: seats_of_def tickets_of_def refunds_of_def)
  then have "orders_ok ?d" using l(2) by (simp add: orders_ok_iff)
  moreover have "StatusFailed \<noteq> StatusSucceeded" by (simp add: StatusFailed_def StatusSucceeded_def)
  ultimately show ?thesis using l(3,4,5) assms(2,3,4)
    by (auto simp: ledger_def payment_ok_def refund_ok_def balance_def)
qed

text \<open>A ticket for each seat of an order that had none, and its payment.\<close>

lemma ledger_settle:
  assumes "ledger d" "row_by o_id i (orders d) = Some q" "o_status q = StatusHeld \<or> o_status q = StatusExpired"
    and "p_order_id p = i" "p_status p = StatusSucceeded" "p_outcome p = ''APPLIED''" "p_amount_vnd p = o_total_vnd q"
    and "\<forall>t\<in>set ts. t_order_id t = i \<and> t_event_id t = o_event_id q \<and> t_qr_payload t = None"
    and "t_seat_id ` set ts = os_seat_id ` set (seats_of d i)"
    and "schema (d\<lparr>payments := payments d @ [p], tickets := tickets d @ ts, orders := set_status i StatusPaid now (orders d)\<rparr>)"
  shows "ledger (d\<lparr>payments := payments d @ [p], tickets := tickets d @ ts, orders := set_status i StatusPaid now (orders d)\<rparr>)"
    (is "ledger ?d")
proof -
  note l = ledgerD[OF assms(1)] and q = ledger_order[OF assms(1,2)]
  have rows: "seats_of ?d j = seats_of d j" "refunds_of ?d j = refunds_of d j"
    "tickets_of ?d j = tickets_of d j @ (if j = i then ts else [])"
    "payments_of ?d j = payments_of d j @ (if j = i then [p] else [])" for j
    using assms(4,8) filter_const[of ts "\<lambda>t. t_order_id t = j"]
    by (auto simp: seats_of_def tickets_of_def payments_of_def refunds_of_def)
  have "order_ok ?d (q\<lparr>o_status := StatusPaid, o_updated_at := now\<rparr>)"
    using q(1,2) assms(3,6-9)
    by (auto simp: order_ok_def rows order_seats_ok_def order_tickets_ok_def order_payments_ok_def order_refunds_ok_def)
  moreover have "order_ok ?d q'" if "order_ok d q'" "o_id q' \<noteq> i" for q'
    using that(2) by (intro order_ok_frame[OF that(1)]) (simp_all only: rows if_False append_Nil2)
  ultimately have "orders_ok ?d" by (intro orders_ok_set_status[OF l(2) _ assms(2) l(6)]) simp_all
  moreover have "balance ?d"
    using l(5) assms(3,5,7) sum_paid_set_status[OF l(6) assms(2), of StatusPaid now] by (auto simp: balance_def)
  ultimately show ?thesis using l(3,4) assms(5,6,10) by (auto simp: ledger_def payment_ok_def refund_ok_def)
qed

lemma ledger_request_refund:
  assumes "ledger d" "row_by o_id i (orders d) = Some q"
    and "p_order_id p = i" "p_status p = StatusSucceeded" "p_outcome p = ''REFUND_REQUIRED''"
    and "r_provider_txn_id r = p_provider_txn_id p" "r_order_id r = i" "r_amount_vnd r = p_amount_vnd p" "r_status r = RefundPending"
    and "if paid (o_status q) \<or> refund_side (o_status q)
         then r_reason r = ReasonDoublePayment \<and> os = orders d
         else r_reason r \<noteq> ReasonDoublePayment \<and> os = set_status i StatusRefunding now (orders d)"
    and "schema (d\<lparr>payments := payments d @ [p], refunds := refunds d @ [r], orders := os\<rparr>)"
  shows "ledger (d\<lparr>payments := payments d @ [p], refunds := refunds d @ [r], orders := os\<rparr>)" (is "ledger ?d")
proof -
  note l = ledgerD[OF assms(1)] and q = ledger_order[OF assms(1,2)]
  have rows: "seats_of ?d j = seats_of d j" "tickets_of ?d j = tickets_of d j"
    "refunds_of ?d j = refunds_of d j @ (if j = i then [r] else [])"
    "payments_of ?d j = payments_of d j @ (if j = i then [p] else [])" for j
    using assms(3,7) by (auto simp: seats_of_def tickets_of_def payments_of_def refunds_of_def)
  have "orders_ok ?d \<and> sum_by (\<lambda>q. sold (o_status q)) o_total_vnd os = sum_by (\<lambda>q. sold (o_status q)) o_total_vnd (orders d)"
  proof (cases "paid (o_status q) \<or> refund_side (o_status q)")
    case True
    then have os: "os = orders d" "r_reason r = ReasonDoublePayment" using assms(10) by auto
    have "order_ok ?d q'" if "order_ok d q'" for q'
      using that os(2) assms(5) by (auto simp: order_ok_def rows order_payments_ok_def order_refunds_ok_def)
    then show ?thesis using l(2) os(1) by (simp add: orders_ok_iff)
  next
    case False
    then have os: "os = set_status i StatusRefunding now (orders d)" "r_reason r \<noteq> ReasonDoublePayment"
      using assms(10) by auto
    have "order_ok ?d (q\<lparr>o_status := StatusRefunding, o_updated_at := now\<rparr>)"
      using q(1,2) False os(2) assms(5,9)
      by (cases "o_status q") (auto simp: order_ok_def rows order_seats_ok_def order_tickets_ok_def order_payments_ok_def order_refunds_ok_def)
    moreover have "orders ?d = set_status i StatusRefunding now (orders d)" by (simp add: os)
    moreover have "order_ok ?d q'" if "order_ok d q'" "o_id q' \<noteq> i" for q'
      using that(2) by (intro order_ok_frame[OF that(1)]) (simp_all only: rows if_False append_Nil2)
    ultimately have "orders_ok ?d" by (intro orders_ok_set_status[OF l(2) _ assms(2) l(6)])
    then show ?thesis using False sum_paid_set_status[OF l(6) assms(2), of StatusRefunding now] by (simp add: os sold_def)
  qed
  moreover have "balance ?d" using calculation l(5) assms(4,8) by (simp add: balance_def)
  moreover have "\<forall>p\<in>set (payments ?d). payment_ok ?d p"
    using l(3) assms(3-8) by (auto simp: payment_ok_def)
  moreover have "\<forall>r\<in>set (refunds ?d). refund_ok ?d r"
    using l(4) assms(5,6,9) by (auto simp: refund_ok_def)
  ultimately show ?thesis using assms(11) by (simp add: ledger_def)
qed

text \<open>The pending refund of an order is the only one that concerns its status.\<close>

lemma pending_refund:
  assumes "ledger d" "r \<in> set (refunds d)" "r_status r = RefundPending" "r_reason r \<noteq> ReasonDoublePayment"
    and "row_by o_id (r_order_id r) (orders d) = Some q"
  shows "o_status q = StatusRefunding \<and> filter (\<lambda>r. r_reason r \<noteq> ReasonDoublePayment) (refunds_of d (r_order_id r)) = [r]"
proof -
  let ?f = "filter (\<lambda>r. r_reason r \<noteq> ReasonDoublePayment) (refunds_of d (r_order_id r))"
  have ok: "order_refunds_ok q (refunds_of d (r_order_id r))"
    using ledger_order[OF assms(1,5)] by (simp add: order_ok_def)
  have "r \<in> set ?f" using assms(2,4) by (simp add: refunds_of_def)
  then have "r_status r \<in> set (map r_status ?f)" by (metis image_eqI list.set_map)
  then have "r_status r \<in> set (refund_states (o_status q))"
    using ok unfolding order_refunds_ok_def by (simp only:)
  then have st: "o_status q = StatusRefunding"
    using assms(3) by (cases "o_status q") (simp_all add: RefundPending_def RefundSucceeded_def)
  then have "map r_status ?f = [RefundPending]" using ok by (simp add: order_refunds_ok_def)
  then obtain x where "?f = [x]" by auto
  with \<open>r \<in> set ?f\<close> st show ?thesis by simp
qed

lemma ledger_complete_refund:
  assumes "ledger d" "r \<in> set (refunds d)" "r_provider_txn_id r = txn" "r_status r = RefundPending"
    and "row_by o_id (r_order_id r) (orders d) = Some q"
    and "os = (if r_reason r \<noteq> ReasonDoublePayment \<and> o_status q = StatusRefunding
              then set_status (r_order_id r) StatusRefunded now (orders d) else orders d)"
    and "rs = update_where (\<lambda>x. r_provider_txn_id x = txn \<and> r_status x = RefundPending)
               (\<lambda>x. x\<lparr>r_status := RefundSucceeded, r_completed_at := Some now\<rparr>) (refunds d)"
    and "schema (d\<lparr>refunds := rs, orders := os\<rparr>)"
  shows "ledger (d\<lparr>refunds := rs, orders := os\<rparr>)" (is "ledger ?d")
proof -
  note l = ledgerD[OF assms(1)] and q = ledger_order[OF assms(1,5)]
  let ?g = "\<lambda>x. if x = r then x\<lparr>r_status := RefundSucceeded, r_completed_at := Some now\<rparr> else x"
  have "distinct (map r_provider_txn_id (refunds d))" using l(1) by (simp add: schema_def schema_money_def)
  then have "x \<in> set (refunds d) \<Longrightarrow> (r_provider_txn_id x = txn \<and> r_status x = RefundPending) = (x = r)" for x
    using distinct_key_eq[of r_provider_txn_id "refunds d" x r] assms(2,3,4) by auto
  then have rs: "rs = map ?g (refunds d)" by (simp add: assms(7) update_where_def)
  have "filter (\<lambda>r. r_order_id r = j) (map ?g xs) = map ?g (filter (\<lambda>r. r_order_id r = j) xs)" for j xs
    by (induction xs) auto
  then have rows: "seats_of ?d j = seats_of d j" "tickets_of ?d j = tickets_of d j" "payments_of ?d j = payments_of d j"
    "refunds_of ?d j = map ?g (refunds_of d j)" for j
    by (simp_all add: seats_of_def tickets_of_def payments_of_def refunds_of_def rs)
  have nd: "filter (\<lambda>r. r_reason r \<noteq> ReasonDoublePayment) (map ?g xs)
      = map ?g (filter (\<lambda>r. r_reason r \<noteq> ReasonDoublePayment) xs)" for xs by (induction xs) auto
  have "refund_ok ?d (?g x)" if "refund_ok d x" for x using that by (cases "x = r") (simp_all add: refund_ok_def)
  moreover have "refunds ?d = map ?g (refunds d)" by (simp add: rs)
  ultimately have fin: "\<forall>x\<in>set (refunds ?d). refund_ok ?d x" using l(4) by (metis (no_types, lifting) image_iff set_map)
  have "payment_ok ?d p" if "payment_ok d p" for p
  proof -
    have "\<exists>x\<in>set rs. r_provider_txn_id x = p_provider_txn_id p \<and> r_order_id x = p_order_id p \<and> r_amount_vnd x = p_amount_vnd p"
      if "x \<in> set (refunds d)" "r_provider_txn_id x = p_provider_txn_id p" "r_order_id x = p_order_id p"
        "r_amount_vnd x = p_amount_vnd p" for x
      using that by (intro bexI[of _ "?g x"]) (auto simp: rs)
    then show ?thesis using that unfolding payment_ok_def by auto
  qed
  then have pay: "\<forall>p\<in>set (payments ?d). payment_ok ?d p" using l(3) by simp
  have amt: "sum_by (\<lambda>_. True) r_amount_vnd rs = sum_by (\<lambda>_. True) r_amount_vnd (refunds d)"
    unfolding assms(7) by (rule sum_by_update_where) auto
  have unaffected: "order_refunds_ok q' (refunds_of ?d j)"
    if "order_refunds_ok q' (refunds_of d j)" "r_reason r = ReasonDoublePayment \<or> j \<noteq> r_order_id r" for q' j
  proof -
    have "r \<notin> set (filter (\<lambda>r. r_reason r \<noteq> ReasonDoublePayment) (refunds_of d j))"
      using that(2) by (auto simp: refunds_of_def)
    then have "map ?g (filter (\<lambda>r. r_reason r \<noteq> ReasonDoublePayment) (refunds_of d j))
        = filter (\<lambda>r. r_reason r \<noteq> ReasonDoublePayment) (refunds_of d j)" by (intro map_idI) auto
    then show ?thesis using that(1) unfolding order_refunds_ok_def rows nd by simp
  qed
  have "orders_ok ?d \<and> sum_by (\<lambda>q. sold (o_status q)) o_total_vnd os = sum_by (\<lambda>q. sold (o_status q)) o_total_vnd (orders d)"
  proof (cases "r_reason r = ReasonDoublePayment")
    case True
    then have "os = orders d" using assms(6) by simp
    moreover have "order_ok ?d q'" if "order_ok d q'" for q'
      using that unaffected True unfolding order_ok_def rows(1-3) by blast
    ultimately show ?thesis using l(2) by (simp add: orders_ok_iff)
  next
    case False
    note p = pending_refund[OF assms(1,2,4) False assms(5)]
    then have os: "os = set_status (r_order_id r) StatusRefunded now (orders d)" using False assms(6) by simp
    have new: "order_ok ?d (q\<lparr>o_status := StatusRefunded, o_updated_at := now\<rparr>)"
      using q(1,2) p unfolding order_ok_def rows order_refunds_ok_def nd
      by (auto simp: order_seats_ok_def order_tickets_ok_def order_payments_ok_def)
    have old: "order_ok ?d q'" if "order_ok d q'" "o_id q' \<noteq> r_order_id r" for q'
      using that unaffected unfolding order_ok_def rows(1-3) by blast
    have "orders ?d = set_status (r_order_id r) StatusRefunded now (orders d)" by (simp add: os)
    then have "orders_ok ?d" using old new by (rule orders_ok_set_status[OF l(2) _ assms(5) l(6)])
    then show ?thesis using p sum_paid_set_status[OF l(6) assms(5), of StatusRefunded now] by (simp add: os)
  qed
  then show ?thesis using assms(8) fin pay amt l(5) by (simp add: ledger_def balance_def)
qed

lemma schema_add_event_iff: "schema (add_event now tp ty ev d) \<longleftrightarrow> schema d"
proof -
  have "schema_outbox (n + 1) (ms @ [outbox_message n now tp ty ev]) \<longleftrightarrow> schema_outbox n ms" for n ms
    by (fastforce simp: schema_outbox_def outbox_message_def)
  then show ?thesis
    unfolding schema_def order_ids_def by (simp only: add_event_tables) (simp add: add_event_def)
qed

lemma ledger_issue_qr:
  assumes "ledger d" "schema (d\<lparr>tickets := update_where C f (tickets d)\<rparr>)"
    and f: "\<And>t. t_id (f t) = t_id t \<and> t_order_id (f t) = t_order_id t \<and> t_event_id (f t) = t_event_id t
      \<and> t_seat_id (f t) = t_seat_id t \<and> t_qr_payload (f t) \<noteq> None"
  shows "ledger (d\<lparr>tickets := update_where C f (tickets d)\<rparr>)" (is "ledger ?d")
proof -
  define g where "g = (\<lambda>t. if C t then f t else t)"
  have g: "t_order_id (g t) = t_order_id t" "t_event_id (g t) = t_event_id t" "t_seat_id (g t) = t_seat_id t"
    "\<exists>y. t_qr_payload t = Some y \<Longrightarrow> \<exists>y. t_qr_payload (g t) = Some y" for t using f by (auto simp: g_def)
  have ts: "tickets_of ?d j = map g (tickets_of d j)" for j
    by (simp add: tickets_of_def update_where_def filter_map o_def g(1) flip: g_def)
  have rest: "seats_of ?d j = seats_of d j" "payments_of ?d j = payments_of d j" "refunds_of ?d j = refunds_of d j" for j
    by (simp_all add: seats_of_def payments_of_def refunds_of_def)
  have "order_ok ?d q" if "order_ok d q" for q
    using that unfolding order_ok_def ts rest order_tickets_ok_def by (auto simp: image_image g(1-3) intro!: g(4))
  then have "orders_ok ?d" using ledgerD(2)[OF assms(1)] by (simp add: orders_ok_iff)
  then show ?thesis using assms(1,2) by (simp add: ledger_def payment_ok_def refund_ok_def balance_def)
qed

lemma ledger_frame:
  assumes "ledger d" "schema d'" "orders d' = orders d" "order_seats d' = order_seats d" "tickets d' = tickets d"
    "payments d' = payments d" "refunds d' = refunds d"
  shows "ledger d'"
proof -
  have "seats_of d' j = seats_of d j" "tickets_of d' j = tickets_of d j" "payments_of d' j = payments_of d j"
    "refunds_of d' j = refunds_of d j" for j
    by (simp_all add: seats_of_def tickets_of_def payments_of_def refunds_of_def assms(4-7))
  then show ?thesis
    using assms(1,2) unfolding ledger_def orders_ok_def payment_ok_def refund_ok_def balance_def assms(3,6,7) by simp
qed

lemma step_ledger: "ledger_step qr K d d' \<Longrightarrow> ledger d \<Longrightarrow> ledger d'"
proof (induction rule: ledger_step.induct)
  case (place q d rows ev now)
  have "schema (add_event now TopicOrders OrderHeld ev (d\<lparr>orders := orders d @ [q], order_seats := order_seats d @ rows\<rparr>))"
    using ledgerD(1)[OF place(10)] by (rule step_schema[OF ledger_step.place[OF place(1-9)]])
  then show ?case using place by (intro ledger_add_event ledger_place) (simp_all add: schema_add_event_iff)
next
  case (move i d q to ev now)
  then show ?case by (intro ledger_add_event ledger_move)
next
  case (ignore p d)
  then show ?case using step_schema[OF ledger_step.ignore[OF ignore(1-4)] ledgerD(1)[OF ignore(5)]] by (intro ledger_ignore)
next
  case (settle p d i q ts ev now)
  then show ?case using step_schema[OF ledger_step.settle[OF settle(1-12)] ledgerD(1)[OF settle(13)]]
    by (intro ledger_add_event ledger_settle[of d i q]) (simp_all only: schema_add_event_iff)
next
  case (request_refund p d i q r os now ev)
  then show ?case using step_schema[OF ledger_step.request_refund[OF request_refund(1-12)] ledgerD(1)[OF request_refund(13)]]
    by (intro ledger_add_event ledger_request_refund[of d i q p r os now]) (simp_all only: schema_add_event_iff)
next
  case (complete_refund r d txn q os now ev)
  then show ?case using step_schema[OF ledger_step.complete_refund[OF complete_refund(1-6)] ledgerD(1)[OF complete_refund(7)]]
    by (intro ledger_add_event ledger_complete_refund[of d r txn q os now]) (simp_all only: schema_add_event_iff)
next
  case (issue_qr d C now)
  then show ?case using step_schema[OF ledger_step.issue_qr ledgerD(1)[OF issue_qr]] by (intro ledger_issue_qr) auto
next
  case (publish d P now)
  then show ?case using step_schema[OF ledger_step.publish[OF publish(1)] ledgerD(1)[OF publish(2)]]
    by (intro ledger_frame[OF publish(2)]) simp_all
next
  case (clean_up P d)
  then show ?case using step_schema[OF ledger_step.clean_up[OF clean_up(1)] ledgerD(1)[OF clean_up(2)]]
    by (intro ledger_frame[OF clean_up(2)]) simp_all
next
  case (skip_id d n)
  then show ?case using step_schema[OF ledger_step.skip_id[OF skip_id(1)] ledgerD(1)[OF skip_id(2)]]
    by (intro ledger_frame[OF skip_id(2)]) simp_all
next
  case (change_holds d hs)
  then show ?case using step_schema[OF ledger_step.change_holds ledgerD(1)[OF change_holds]] by (rule ledger_frame) simp_all
next
  case (seed d es ss)
  then show ?case using step_schema[OF ledger_step.seed ledgerD(1)[OF seed]] by (rule ledger_frame) simp_all
qed

lemma steps_schema: "ledger_steps qr K d d' \<Longrightarrow> schema d \<Longrightarrow> schema d'"
  by (induction rule: rtranclp_induct) (auto intro: step_schema)

lemma steps_ledger: "ledger_steps qr K d d' \<Longrightarrow> ledger d \<Longrightarrow> ledger d'"
  by (induction rule: rtranclp_induct) (auto intro: step_ledger)

section \<open>Refinement\<close>

text \<open>On a database with the schema constraints, the change is a sequence of ledger steps.\<close>

definition refines :: "(uuid \<Rightarrow> string) \<Rightarrow> kafka_record set \<Rightarrow> db \<Rightarrow> db \<Rightarrow> bool" where
  "refines qr K d d' \<longleftrightarrow> (schema d \<longrightarrow> ledger_steps qr K d d')"

lemma reflp_refines [simp]: "reflp (refines qr K)"
  by (simp add: reflp_def refines_def)

lemma transp_refines [simp]: "transp (refines qr K)"
  by (auto simp: transp_def refines_def intro: steps_schema)

lemma refines_holds [simp]: "refines qr K d (d\<lparr>seat_holds := h\<rparr>)"
  by (auto simp: refines_def intro: ledger_step.change_holds)

lemma refines_ledger: "refines qr K d d' \<Longrightarrow> ledger d \<Longrightarrow> ledger d'"
  using steps_ledger ledgerD(1) by (auto simp: refines_def)

end
