(* ===== verification/Books.thy ===== *)
theory Books
  imports Ledger
begin

text \<open>
  What the order book promises to the outside: every status of an order and every refund has
  been announced by an event that is in the outbox or in Kafka, a message is marked published
  only when Kafka has its record, no event is lost when old rows are deleted, and a ticket
  carries no QR code but its own. \<open>books\<close> joins these promises with the invariant of theory
  Ledger; every ledger step keeps it.
\<close>

definition records :: "db \<Rightarrow> kafka_record set" where
  "records d = record_of ` set (outbox d)"

definition delivered :: "kafka_record set \<Rightarrow> db \<Rightarrow> bool" where
  "delivered K d \<longleftrightarrow> (\<forall>m\<in>set (outbox d). ob_published_at m \<noteq> None \<longrightarrow> record_of m \<in> K)"

definition qr_ok :: "(uuid \<Rightarrow> string) \<Rightarrow> db \<Rightarrow> bool" where
  "qr_ok qr d \<longleftrightarrow> (\<forall>t\<in>set (tickets d). t_qr_payload t = None \<or> t_qr_payload t = Some (qr (t_id t)))"

text \<open>The record of an event, as the relay writes it.\<close>

definition event_record :: "string \<Rightarrow> string \<Rightarrow> order_event \<Rightarrow> kafka_record" where
  "event_record topic ty ev = \<lparr>k_topic = topic, k_key = ev_order_id ev, k_value = Some ev,
     k_headers = [(HeaderEventType, ty), (HeaderEventID, format_int (ev_event_id ev))]\<rparr>"

definition announces_status :: "status \<Rightarrow> uuid \<Rightarrow> kafka_record \<Rightarrow> bool" where
  "announces_status s i r \<longleftrightarrow> (\<exists>ev. r = event_record (event_topic s) (event_type s) ev
     \<and> ev_event_type ev = event_type s \<and> ev_order_id ev = i)"

definition announces_refund :: "uuid \<Rightarrow> string \<Rightarrow> kafka_record \<Rightarrow> bool" where
  "announces_refund i txn r \<longleftrightarrow> (\<exists>ev. r = event_record TopicOrders OrderRefundRequested ev
     \<and> ev_event_type ev = OrderRefundRequested \<and> ev_order_id ev = i \<and> ev_provider_txn_id ev = txn)"

definition announced :: "kafka_record set \<Rightarrow> db \<Rightarrow> bool" where
  "announced K d \<longleftrightarrow>
    (\<forall>q\<in>set (orders d). \<exists>r \<in> records d \<union> K. announces_status (o_status q) (o_id q) r)
    \<and> (\<forall>f\<in>set (refunds d). \<exists>r \<in> records d \<union> K. announces_refund (r_order_id f) (r_provider_txn_id f) r)"

definition books :: "(uuid \<Rightarrow> string) \<Rightarrow> kafka_record set \<Rightarrow> db \<Rightarrow> bool" where
  "books qr K d \<longleftrightarrow> ledger d \<and> delivered K d \<and> qr_ok qr d \<and> announced K d"

text \<open>How the outbox of d may have become that of d'.\<close>

definition outbox_evolves :: "db \<Rightarrow> db \<Rightarrow> bool" where
  "outbox_evolves d d' \<longleftrightarrow> outbox_seq d \<le> outbox_seq d'
    \<and> (\<forall>m'\<in>set (outbox d'). (\<exists>m\<in>set (outbox d). ob_id m = ob_id m' \<and> record_of m = record_of m') \<or> outbox_seq d \<le> ob_id m')"

lemma record_of_published [simp]: "record_of (m\<lparr>ob_published_at := t\<rparr>) = record_of m"
  by (simp add: record_of_def)

lemma books_mono: "books qr K d \<Longrightarrow> K \<subseteq> K' \<Longrightarrow> books qr K' d"
  unfolding books_def delivered_def announced_def by blast

section \<open>Messages\<close>

lemma record_of_message:
  "\<exists>ev'. record_of (outbox_message i now tp ty ev) = event_record tp ty ev'
     \<and> ev_event_type ev' = ty \<and> ev_order_id ev' = ev_order_id ev \<and> ev_provider_txn_id ev' = ev_provider_txn_id ev"
  by (rule exI[of _ "ev\<lparr>ev_event_id := i, ev_event_type := ty, ev_occurred_at := now\<rparr>"])
    (simp add: record_of_def outbox_message_def event_record_def)

lemma records_add_event: "records (add_event now tp ty ev d)
    = insert (record_of (outbox_message (outbox_seq d) now tp ty ev)) (records d)"
  by (simp add: records_def add_event_def)

lemma outbox_add_event [simp]:
  "outbox (add_event now tp ty ev d) = outbox d @ [outbox_message (outbox_seq d) now tp ty ev]"
  "outbox_seq (add_event now tp ty ev d) = outbox_seq d + 1"
  by (simp_all add: add_event_def)

lemma outbox_message_simps [simp]:
  "ob_published_at (outbox_message i now tp ty ev) = None" "ob_id (outbox_message i now tp ty ev) = i"
  by (simp_all add: outbox_message_def)

lemma delivered_add_event [simp]: "delivered K (add_event now tp ty ev d) = delivered K d"
  by (simp add: delivered_def)

lemma announces_message:
  "ev_order_id ev = i \<Longrightarrow> announces_status s i (record_of (outbox_message n now (event_topic s) (event_type s) ev))"
  "ev_order_id ev = i \<Longrightarrow> ev_provider_txn_id ev = txn
    \<Longrightarrow> announces_refund i txn (record_of (outbox_message n now TopicOrders OrderRefundRequested ev))"
  using record_of_message[of n now "event_topic s" "event_type s" ev]
    record_of_message[of n now TopicOrders OrderRefundRequested ev]
  by (auto simp: announces_status_def announces_refund_def)

section \<open>Steps keep the promises\<close>

text \<open>A message stays in the outbox until Kafka has it.\<close>

lemma step_records:
  assumes "ledger_step qr K d d'" "delivered K d"
  shows "records d \<subseteq> records d' \<union> K \<and> delivered K d'"
  using assms
proof (induction rule: ledger_step.induct)
  case (publish d P now)
  then show ?case by (auto simp: records_def delivered_def update_where_def split: if_splits)
next
  case (clean_up d P)
  then show ?case by (auto simp: records_def delivered_def delete_where_def)
qed (auto simp: records_add_event, auto simp: records_def delivered_def)

lemma step_outbox:
  assumes "ledger_step qr K d d'"
  shows "outbox_evolves d d'"
  using assms
proof (induction rule: ledger_step.induct)
  case (publish d P now)
  then show ?case by (auto simp: outbox_evolves_def update_where_def)
next
  case (clean_up d P)
  then show ?case by (auto simp: outbox_evolves_def delete_where_def)
qed (auto simp: outbox_evolves_def)

lemma outbox_evolves_trans:
  assumes "outbox_evolves a b" "outbox_evolves b c"
  shows "outbox_evolves a c"
proof -
  have "(\<exists>m\<in>set (outbox a). ob_id m = ob_id m2 \<and> record_of m = record_of m2) \<or> outbox_seq a \<le> ob_id m2"
    if "m2 \<in> set (outbox c)" for m2
  proof -
    consider m1 where "m1 \<in> set (outbox b)" "ob_id m1 = ob_id m2" "record_of m1 = record_of m2" | "outbox_seq b \<le> ob_id m2"
      using assms(2) \<open>m2 \<in> set (outbox c)\<close> by (auto simp: outbox_evolves_def)
    then show ?thesis
      using assms(1) unfolding outbox_evolves_def by cases (metis, linarith)
  qed
  then show ?thesis using assms by (auto simp: outbox_evolves_def)
qed

lemma steps_outbox: "ledger_steps qr K d d' \<Longrightarrow> outbox_evolves d d'"
proof (induction rule: rtranclp_induct)
  case base
  show ?case by (auto simp: outbox_evolves_def)
next
  case (step y z)
  then show ?case using step_outbox outbox_evolves_trans by blast
qed

lemma step_qr:
  assumes "ledger_step qr K d d'" "qr_ok qr d"
  shows "qr_ok qr d'"
  using assms by (induction rule: ledger_step.induct) (auto simp: qr_ok_def update_where_def)

text \<open>An order or a refund is announced as before, or by the event that was just written.\<close>

lemma announced_step:
  assumes "announced K d" "records d \<subseteq> records d' \<union> K"
    and "\<And>q. q \<in> set (orders d') \<Longrightarrow> (\<exists>q0\<in>set (orders d). o_id q0 = o_id q \<and> o_status q0 = o_status q)
      \<or> (\<exists>r \<in> records d'. announces_status (o_status q) (o_id q) r)"
    and "\<And>f. f \<in> set (refunds d') \<Longrightarrow>
      (\<exists>f0\<in>set (refunds d). r_order_id f0 = r_order_id f \<and> r_provider_txn_id f0 = r_provider_txn_id f)
      \<or> (\<exists>r \<in> records d'. announces_refund (r_order_id f) (r_provider_txn_id f) r)"
  shows "announced K d'"
proof -
  have "\<exists>r \<in> records d' \<union> K. announces_status (o_status q) (o_id q) r" if "q \<in> set (orders d')" for q
    using assms(3)[OF that] assms(1,2) unfolding announced_def by (metis UnE UnI1 UnI2 subsetD)
  moreover have "\<exists>r \<in> records d' \<union> K. announces_refund (r_order_id f) (r_provider_txn_id f) r" if "f \<in> set (refunds d')" for f
    using assms(4)[OF that] assms(1,2) unfolding announced_def by (metis UnE UnI1 UnI2 subsetD)
  ultimately show ?thesis by (simp add: announced_def)
qed

lemma set_status_cases:
  assumes "q \<in> set (set_status i to now os)"
  obtains (new) "o_id q = i" "o_status q = to" | (old) "q \<in> set os"
  using assms by (auto simp: set_status_def update_where_def split: if_splits)

lemma step_announced:
  assumes "ledger_step qr K d d'" "announced K d" "delivered K d"
  shows "announced K d'"
proof -
  note rec = step_records[OF assms(1,3), THEN conjunct1]
  show ?thesis
    using assms(1) rec
  proof (cases rule: ledger_step.cases)
    case (place q rows ev now)
    show ?thesis by (rule announced_step[OF assms(2) rec])
      (use place announces_message(1)[of ev "o_id q" StatusHeld] in \<open>auto simp: records_add_event\<close>)
  next
    case (move i q to ev now)
    show ?thesis by (rule announced_step[OF assms(2) rec])
      (use move announces_message(1)[of ev i to] in \<open>auto simp: records_add_event elim!: set_status_cases\<close>)
  next
    case (settle p i q ts ev now)
    show ?thesis by (rule announced_step[OF assms(2) rec])
      (use settle announces_message(1)[of ev i StatusPaid] in \<open>auto simp: records_add_event elim!: set_status_cases\<close>)
  next
    case (request_refund p i q r os now ev)
    show ?thesis by (rule announced_step[OF assms(2) rec])
      (use request_refund announces_message(1)[of ev i StatusRefunding] announces_message(2)[of ev i "p_provider_txn_id p"]
       in \<open>auto simp: records_add_event elim!: set_status_cases split: if_splits\<close>)
  next
    case (complete_refund r txn q os now ev)
    show ?thesis by (rule announced_step[OF assms(2) rec])
      (use complete_refund announces_message(1)[of ev "r_order_id r" StatusRefunded]
       in \<open>auto simp: records_add_event update_where_def elim!: set_status_cases split: if_splits\<close>)
  qed (rule announced_step[OF assms(2) rec]; auto)+
qed

lemma step_books: "ledger_step qr K d d' \<Longrightarrow> books qr K d \<Longrightarrow> books qr K d'"
  unfolding books_def using step_ledger step_records step_qr step_announced by blast

lemma refines_books: "refines qr K d d' \<Longrightarrow> books qr K d \<Longrightarrow> books qr K d'"
proof -
  assume "refines qr K d d'" "books qr K d"
  then have "ledger_steps qr K d d'" by (simp add: refines_def books_def ledger_def)
  then show "books qr K d'" using \<open>books qr K d\<close>
    by (induction rule: rtranclp_induct) (auto intro: step_books)
qed

lemma refines_outbox: "refines qr K d d' \<Longrightarrow> ledger d \<Longrightarrow> outbox_evolves d d'"
  by (auto simp: refines_def ledger_def intro: steps_outbox)

section \<open>What is never undone\<close>

text \<open>
  Orders stay, with their data and seats, and move only along the state machine; a ticket
  stays with its order and seat, and keeps its code; a payment stays.
\<close>

definition same_order :: "order_row \<Rightarrow> order_row \<Rightarrow> bool" where
  "same_order q q' \<longleftrightarrow> o_id q' = o_id q \<and> o_event_id q' = o_event_id q \<and> o_user_id q' = o_user_id q
     \<and> o_total_vnd q' = o_total_vnd q \<and> o_idempotency_key q' = o_idempotency_key q \<and> o_request_hash q' = o_request_hash q
     \<and> o_hold_expires_at q' = o_hold_expires_at q"

definition same_ticket :: "ticket_row \<Rightarrow> ticket_row \<Rightarrow> bool" where
  "same_ticket t t' \<longleftrightarrow> t_id t' = t_id t \<and> t_order_id t' = t_order_id t \<and> t_key t' = t_key t
     \<and> (t_qr_payload t \<noteq> None \<longrightarrow> t_qr_payload t' = t_qr_payload t)"

definition order_goes_on :: "order_row list \<Rightarrow> order_row \<Rightarrow> bool" where
  "order_goes_on os q \<longleftrightarrow> (\<exists>q'\<in>set os. same_order q q' \<and> CanTransition\<^sup>*\<^sup>* (o_status q) (o_status q'))"

definition ticket_stays :: "ticket_row list \<Rightarrow> ticket_row \<Rightarrow> bool" where
  "ticket_stays ts t \<longleftrightarrow> (\<exists>t'\<in>set ts. same_ticket t t')"

definition history_kept :: "db \<Rightarrow> db \<Rightarrow> bool" where
  "history_kept d d' \<longleftrightarrow>
    (\<forall>q\<in>set (orders d). seats_of d' (o_id q) = seats_of d (o_id q) \<and> order_goes_on (orders d') q)
    \<and> (\<forall>t\<in>set (tickets d). ticket_stays (tickets d') t)
    \<and> set (payments d) \<subseteq> set (payments d')"

lemma same_refl [simp]: "same_order q q" "same_ticket t t"
  by (simp_all add: same_order_def same_ticket_def)

lemma goes_on_self [simp]: "q \<in> set os \<Longrightarrow> order_goes_on os q"
  unfolding order_goes_on_def by (rule bexI[of _ q]) simp_all

lemma stays_self [simp]: "t \<in> set ts \<Longrightarrow> ticket_stays ts t"
  unfolding ticket_stays_def by (rule bexI[of _ t]) simp_all

lemma stays_update: "t \<in> set ts \<Longrightarrow> (P t \<Longrightarrow> same_ticket t (f t)) \<Longrightarrow> ticket_stays (update_where P f ts) t"
  unfolding ticket_stays_def set_update_where by (rule bexI[of _ "if P t then f t else t"]) auto

lemma same_order_set_status:
  assumes "distinct (map o_id (orders d))" "row_by o_id i (orders d) = Some r" "CanTransition (o_status r) to" "q \<in> set (orders d)"
  shows "order_goes_on (set_status i to now (orders d)) q"
proof (cases "o_id q = i")
  case True
  then have "r = q" using assms row_by_in by fastforce
  then have "q\<lparr>o_status := to, o_updated_at := now\<rparr> \<in> set (set_status i to now (orders d))"
    using True assms(4) by (auto simp: set_status_def set_update_where)
  moreover have "CanTransition\<^sup>*\<^sup>* (o_status q) to" using assms(3) \<open>r = q\<close> by blast
  ultimately show ?thesis unfolding order_goes_on_def same_order_def
    by (intro bexI[of _ "q\<lparr>o_status := to, o_updated_at := now\<rparr>"]) simp_all
next
  case False
  then have "q \<in> set (set_status i to now (orders d))" using assms(4) by (auto simp: set_status_def set_update_where)
  then show ?thesis by simp
qed

lemma step_history:
  assumes "ledger_step qr K d d'" "schema d"
  shows "history_kept d d'"
  using assms
proof (induction rule: ledger_step.induct)
  case (place q d rows ev now)
  have "seats_of (d\<lparr>order_seats := order_seats d @ rows\<rparr>) (o_id q') = seats_of d (o_id q')" if "q' \<in> set (orders d)" for q'
    using place(1,7) that by (force simp: order_ids_def filter_empty_conv)
  then show ?case by (auto simp: history_kept_def seats_of_def)
next
  case (move i d q to ev now)
  then show ?case using same_order_set_status[OF schema_ids[OF move(6)] move(1,2)]
    by (auto simp: history_kept_def seats_of_def)
next
  case (settle p d i q ts ev now)
  have "CanTransition (o_status q) StatusPaid" using settle(6) by (auto simp: CanTransition_iff)
  then show ?case using same_order_set_status[OF schema_ids[OF settle(13)] settle(5)]
    by (auto simp: history_kept_def seats_of_def)
next
  case (request_refund p d i q r os now ev)
  have "CanTransition (o_status q) StatusRefunding" if "\<not> (paid (o_status q) \<or> refund_side (o_status q))"
    using that by (cases "o_status q") (auto simp: CanTransition_iff)
  then show ?case using same_order_set_status[OF schema_ids[OF request_refund(13)] request_refund(5)] request_refund(11)
    by (auto simp: history_kept_def seats_of_def split: if_splits)
next
  case (complete_refund r d txn q os now ev)
  have "CanTransition StatusRefunding StatusRefunded" by (simp add: CanTransition_iff)
  then show ?case using same_order_set_status[OF schema_ids[OF complete_refund(7)] complete_refund(4)] complete_refund(5)
    by (auto simp: history_kept_def seats_of_def split: if_splits)
next
  case (issue_qr d C now)
  have "ticket_stays (update_where (\<lambda>t. C t \<and> t_qr_payload t = None)
      (\<lambda>t. t\<lparr>t_qr_payload := Some (qr (t_id t)), t_issued_at := Some now\<rparr>) (tickets d)) t" if "t \<in> set (tickets d)" for t
    using that by (rule stays_update) (simp add: same_ticket_def t_key_def)
  then show ?case by (simp add: history_kept_def seats_of_def)
qed (auto simp: history_kept_def seats_of_def)

lemma order_goes_on_trans: "order_goes_on os q \<Longrightarrow> (\<And>q'. q' \<in> set os \<Longrightarrow> order_goes_on os' q') \<Longrightarrow> order_goes_on os' q"
  unfolding order_goes_on_def same_order_def by (metis rtranclp_trans)

lemma ticket_stays_trans: "ticket_stays ts t \<Longrightarrow> (\<And>t'. t' \<in> set ts \<Longrightarrow> ticket_stays ts' t') \<Longrightarrow> ticket_stays ts' t"
  unfolding ticket_stays_def same_ticket_def by metis

lemma steps_history:
  assumes "ledger_steps qr K d d'" "schema d"
  shows "history_kept d d'"
  using assms
proof (induction rule: rtranclp_induct)
  case (step d1 d2)
  have 1: "history_kept d d1" and 2: "history_kept d1 d2"
    using step step_history steps_schema by blast+
  have "seats_of d2 (o_id q) = seats_of d (o_id q)" if "q \<in> set (orders d)" for q
    using that 1 2 unfolding history_kept_def order_goes_on_def same_order_def by metis
  then show ?case using 1 2 unfolding history_kept_def
    by (meson order_goes_on_trans ticket_stays_trans subset_trans)
qed (simp add: history_kept_def)

lemma refines_history: "refines qr K d d' \<Longrightarrow> schema d \<Longrightarrow> history_kept d d'"
  unfolding refines_def using steps_history by blast

end
