(* ===== verification/Refinement.thy ===== *)
theory Refinement
  imports Ledger
begin

text \<open>
  Every transaction of the order service refines the specification of theory Ledger: on a
  database with the schema constraints, a commit is a sequence of ledger steps. One lemma per
  transaction of \<open>service.go\<close>, \<open>payment.go\<close>, \<open>expiry.go\<close>, \<open>tickets.go\<close>,
  \<open>refund.go\<close> and \<open>seed.go\<close>.
\<close>

section \<open>Building blocks\<close>

lemma writeEvent_eq [simp]: "writeEvent now tp ty ev d = Inr (add_event now tp ty ev d, ())"
  by (simp add: writeEvent_def Write_def InsertMessage_def Let_def tx_bind_def tx_return_def
      add_event_def outbox_message_def)

lemma orderEvent_simps [simp]: "ev_order_id (orderEvent q) = ord_id q"
  by (simp add: orderEvent_def)

lemma fromRow_simps [simp]:
  "ord_id (fromRow r ss) = o_id r" "ord_event_id (fromRow r ss) = o_event_id r"
  "ord_status (fromRow r ss) = o_status r" "ord_total_vnd (fromRow r ss) = o_total_vnd r"
  "ord_user_id (fromRow r ss) = o_user_id r" "ord_seats (fromRow r ss) = ss"
  by (simp_all add: fromRow_def)


text \<open>A status update by id and expected status is an update of one row.\<close>

lemma TransitionOrder_InrD:
  assumes "TransitionOrder now i from to d = Inr (d', row)" "schema d"
  obtains q where "row_by o_id i (orders d) = Some q" "o_status q = from"
    "d' = d\<lparr>orders := set_status i to now (orders d)\<rparr>" "row = q\<lparr>o_status := to, o_updated_at := now\<rparr>"
proof -
  let ?hit = "\<lambda>q. o_id q = i \<and> o_status q = from"
  let ?f = "\<lambda>q. q\<lparr>o_status := to, o_updated_at := now\<rparr>"
  obtain q where q: "q \<in> set (orders d)" "o_id q = i" "o_status q = from"
    and d': "d' = d\<lparr>orders := update_where ?hit ?f (orders d)\<rparr>"
    and row: "row_by o_id i (orders d') = Some row"
    using assms(1) by (auto simp: TransitionOrder_def Let_def split: if_splits)
  have "row_by o_id i (orders d) = Some q"
    using q schema_ids[OF assms(2)] by (auto simp: row_by_Some_iff)
  moreover have upd: "update_where ?hit ?f (orders d) = set_status i to now (orders d)"
    unfolding set_status_def update_where_def
    using q distinct_key_eq[OF schema_ids[OF assms(2)]] by (auto intro!: map_cong)
  moreover have "row = ?f q"
  proof -
    have "orders d' = map (\<lambda>q. if ?hit q then ?f q else q) (orders d)" by (simp add: d' update_where_def)
    then have "?f q \<in> set (orders d')" using q by force
    moreover have "distinct (map o_id (orders d'))" using schema_ids[OF assms(2)] by (simp add: d' upd)
    ultimately have "row_by o_id i (orders d') = Some (?f q)" using q(2) by (simp add: row_by_Some_iff)
    then show ?thesis using row by simp
  qed
  ultimately show thesis using that q(3) d' by simp
qed

lemma transition_InrD:
  assumes "transition now i from to d = Inr (d', row)" "schema d"
  obtains q where "CanTransition from to" "row_by o_id i (orders d) = Some q" "o_status q = from"
    "d' = d\<lparr>orders := set_status i to now (orders d)\<rparr>" "row = q\<lparr>o_status := to, o_updated_at := now\<rparr>"
  using assms TransitionOrder_InrD[of now i "from" to d d' row] by (auto simp: transition_def split: if_splits)

lemma refinesI: "(schema d \<Longrightarrow> ledger_steps qr K d d') \<Longrightarrow> refines qr K d d'"
  by (simp add: refines_def)

lemma keeps_refinesI: "(\<And>d d' x. schema d \<Longrightarrow> m d = Inr (d', x) \<Longrightarrow> ledger_steps qr K d d') \<Longrightarrow> keeps (refines qr K) m"
  by (auto simp: keeps_def refines_def)

lemma refines_reads [keeps_intros]:
  "keeps (refines qr K) (GetOrder i)" "keeps (refines qr K) (GetOrderForUpdate i)" "keeps (refines qr K) (GetOrderByKey u k)"
  "keeps (refines qr K) (ListOrderSeats i)" "keeps (refines qr K) (ListSeatsOfOrders ids)" "keeps (refines qr K) (LockOrderStatuses ids)"
  "keeps (refines qr K) (LockOrderForPayment now i)" "keeps (refines qr K) (ListOrderTickets i)" "keeps (refines qr K) (GetRefund txn)"
  by (auto simp: keeps_def refines_def GetOrderByKey_def ListOrderSeats_def ListSeatsOfOrders_def
      LockOrderStatuses_def LockOrderForPayment_def ListOrderTickets_def GetRefund_def split: option.splits)

section \<open>Placing and cancelling\<close>

lemma refines_insertHeld [keeps_intros]:
  assumes "sids \<noteq> []"
  shows "keeps (refines qr K) (insertHeld_tx oid uid key hash ev sids ttl now)"
proof (rule keeps_refinesI)
  fix d d' x
  let ?ps = "seat_prices ev sids" and ?e = "event_id ev"
  let ?rows = "order_seat_rows oid ?e sids ?ps"
  assume "insertHeld_tx oid uid key hash ev sids ttl now d = Inr (d', x)"
  then obtain d1 row d2 u where
    1: "InsertHeldOrder now oid ?e uid (sum64 0 ?ps) key hash ttl d = Inr (d1, row)"
    and 2: "InsertOrderSeats oid ?e sids ?ps d1 = Inr (d2, u)"
    and 3: "d' = add_event now TopicOrders OrderHeld (orderEvent (fromRow row (zip sids ?ps))) d2"
    by (auto simp: insertHeld_tx_def Let_def writeOrderEvent_def elim!: tx_bind_InrE)
  note o = InsertHeldOrder_InrD[OF 1] and s = InsertOrderSeats_InrD[OF 2]
  have len: "length ?ps = length sids" by (simp add: seat_prices_def)
  have rows: "map os_price_vnd ?rows = ?ps" "map os_seat_id ?rows = sids"
    using len by (simp_all add: order_seat_rows_def case_prod_unfold comp_def map_snd_zip[unfolded comp_def] map_fst_zip)
  have keys: "map os_key ?rows = map (Pair oid) (map os_seat_id ?rows)"
    by (auto simp: order_seat_rows_def os_key_def)
  have "ledger_step qr K d (add_event now TopicOrders OrderHeld (orderEvent (fromRow row (zip sids ?ps)))
      (d\<lparr>orders := orders d @ [row], order_seats := order_seats d @ ?rows\<rparr>))"
  proof (rule ledger_step.place)
    have "distinct (map os_key ?rows)" using s by simp
    then show "distinct (map os_seat_id ?rows)" unfolding keys by (auto simp: distinct_map inj_on_def)
    show "?rows \<noteq> []" using assms rows(2) by auto
    show "\<forall>r\<in>set ?rows. os_order_id r = o_id row \<and> os_event_id r = o_event_id row"
      using o by (auto simp: order_seat_rows_def held_order_row_def)
  qed (use o rows in \<open>simp_all add: held_order_row_def del: set_filter\<close>)
  then show "ledger_steps qr K d d'" using o s 3 by auto
qed

lemma refines_cancel_finish [keeps_intros]: "keeps (refines qr K) (cancel_finish now oid row False)"
  unfolding cancel_finish_def Let_def if_False
  by (intro keeps_bind keeps_return transp_refines reflp_refines refines_reads)

text \<open>A transition with its event is one move.\<close>

lemma move_steps:
  assumes "transition now i from to d = Inr (d1, row)" "schema d"
    and "to \<in> {StatusCancelled, StatusExpired, StatusTicketed}" "ev_order_id ev = i"
    and "to = StatusTicketed \<longrightarrow> (\<forall>t\<in>set (tickets_of d i). t_qr_payload t \<noteq> None)"
  shows "ledger_steps qr K d (add_event now (event_topic to) (event_type to) ev d1)"
proof -
  obtain q where "CanTransition from to" "row_by o_id i (orders d) = Some q" "o_status q = from"
    "d1 = d\<lparr>orders := set_status i to now (orders d)\<rparr>" by (rule transition_InrD[OF assms(1,2)])
  then show ?thesis using ledger_step.move[where qr = qr and K = K, of i d q to ev now] assms(3-5) by auto
qed

lemma refines_cancel [keeps_intros]: "keeps (refines qr K) (cancel_tx uid oid now)"
proof (rule keeps_refinesI)
  fix d d' x
  assume s: "schema d" and "cancel_tx uid oid now d = Inr (d', x)"
  then obtain row where row: "row_by o_id oid (orders d) = Some row"
    and "(case o_status row of
          StatusCancelled \<Rightarrow> cancel_finish now oid row False
        | StatusHeld \<Rightarrow>
            tx_bind (transition now oid StatusHeld StatusCancelled) (\<lambda>row. cancel_finish now oid row True)
        | st \<Rightarrow> tx_fail [ErrNotCancellable (status_text st)]) d = Inr (d', x)"
    by (auto simp: cancel_tx_def errors_is_def elim!: tx_try_InrE split: if_splits)
  then consider "cancel_finish now oid row False d = Inr (d', x)"
    | "tx_bind (transition now oid StatusHeld StatusCancelled) (\<lambda>row. cancel_finish now oid row True) d = Inr (d', x)"
    by (cases "o_status row") auto
  then show "ledger_steps qr K d d'"
  proof cases
    case 1
    then show ?thesis using keepsD[OF refines_cancel_finish] s by (auto simp: refines_def)
  next
    case 2
    then obtain d1 r1 where t: "transition now oid StatusHeld StatusCancelled d = Inr (d1, r1)"
      and f: "cancel_finish now oid r1 True d1 = Inr (d', x)" by (rule tx_bind_InrE)
    have "o_id r1 = oid" using t s by (auto elim!: transition_InrD dest!: row_by_SomeD)
    moreover from f obtain ss where "d' = add_event now TopicOrders OrderCancelled (orderEvent (fromRow r1 ss)) d1"
      by (auto simp: cancel_finish_def Let_def writeOrderEvent_def ListOrderSeats_def elim!: tx_bind_InrE)
    ultimately show ?thesis using move_steps[OF t s] by simp
  qed
qed

section \<open>Expiry\<close>

definition expire_rows :: "uuid set \<Rightarrow> time \<Rightarrow> order_row list \<Rightarrow> order_row list" where
  "expire_rows ids now = update_where (\<lambda>q. o_id q \<in> ids) (\<lambda>q. q\<lparr>o_status := StatusExpired, o_updated_at := now\<rparr>)"

lemma expire_rows_insert:
  "expire_rows (insert i ids) now os = expire_rows ids now (set_status i StatusExpired now os)"
  by (auto simp: expire_rows_def set_status_def update_where_def)

lemma expire_rows_none [simp]: "expire_rows {} now os = os"
  by (simp add: expire_rows_def update_where_def)

lemma add_event_orders: "add_event now tp ty ev (d\<lparr>orders := os\<rparr>) = (add_event now tp ty ev d)\<lparr>orders := os\<rparr>"
  by (simp add: add_event_def)

lemma expire_steps:
  assumes "\<forall>e\<in>set es. \<exists>q. row_by o_id (ev_order_id e) (orders d) = Some q \<and> o_status q = StatusHeld"
    and "distinct (map ev_order_id es)"
  shows "ledger_steps qr K d (fold (add_event now TopicOrders OrderExpired) es
           (d\<lparr>orders := expire_rows (ev_order_id ` set es) now (orders d)\<rparr>))"
  using assms
proof (induction es arbitrary: d)
  case Nil
  then show ?case by simp
next
  case (Cons e es)
  let ?d = "add_event now TopicOrders OrderExpired e (d\<lparr>orders := set_status (ev_order_id e) StatusExpired now (orders d)\<rparr>)"
  obtain q where q: "row_by o_id (ev_order_id e) (orders d) = Some q" "o_status q = StatusHeld" using Cons.prems(1) by auto
  have "CanTransition (o_status q) StatusExpired" by (simp add: q CanTransition_iff)
  then have "ledger_step qr K d ?d" using ledger_step.move[OF q(1), of StatusExpired e] by simp
  moreover have "\<exists>q. row_by o_id (ev_order_id e') (orders ?d) = Some q \<and> o_status q = StatusHeld" if "e' \<in> set es" for e'
  proof -
    have "ev_order_id e' \<noteq> ev_order_id e" using Cons.prems(2) that by (auto simp: image_iff)
    moreover obtain q' where q': "row_by o_id (ev_order_id e') (orders d) = Some q'" "o_status q' = StatusHeld"
      using Cons.prems(1) \<open>e' \<in> set es\<close> by (meson list.set_intros(2))
    ultimately have "row_by o_id (ev_order_id e') (orders ?d) = Some q'"
      using row_by_SomeD[OF q'(1)] by (simp add: set_status_def row_by_update_where)
    then show ?thesis using q'(2) by blast
  qed
  ultimately show ?case
    using Cons.IH[of ?d] Cons.prems(2)
    by (simp add: expire_rows_insert add_event_orders[symmetric] converse_rtranclp_into_rtranclp)
qed

lemma each_writeOrderEvent:
  "tx_each (writeOrderEvent now ty) qs d = Inr (fold (add_event now TopicOrders ty) (map orderEvent qs) d, ())"
  by (induction qs arbitrary: d) (simp_all add: tx_return_def writeOrderEvent_def)

lemma refines_expire [keeps_intros]: "keeps (refines qr K) (expire_tx l now)"
proof (rule keeps_refinesI)
  fix d d' x
  assume s: "schema d" and e: "expire_tx l now d = Inr (d', x)"
  let ?due = "o_id ` set (due_orders now ExpiryBatchSize l (orders d))"
  let ?hit = "\<lambda>q. o_id q \<in> ?due \<and> o_status q = StatusHeld"
  let ?hits = "filter ?hit (orders d)"
  let ?rows = "map (\<lambda>q. (o_id q, o_event_id q, o_user_id q, o_total_vnd q)) ?hits"
  let ?d = "d\<lparr>orders := update_where ?hit (\<lambda>q. q\<lparr>o_status := StatusExpired, o_updated_at := now\<rparr>) (orders d)\<rparr>"
  have ids: "map ev_order_id (map orderEvent (map (expired_order ss) ?rows)) = map o_id ?hits" for ss
    by (simp add: expired_order_def comp_def)
  have upd: "orders ?d = expire_rows (o_id ` set ?hits) now (orders d)"
  proof -
    have "(o_id q \<in> o_id ` set ?hits) = ?hit q" if "q \<in> set (orders d)" for q
      using that distinct_key_eq[OF schema_ids[OF s]] by (auto simp: image_iff)
    then show ?thesis by (simp add: expire_rows_def update_where_def del: set_filter)
  qed
  consider "?rows = []" "d' = ?d" | ss where "d' = fold (add_event now TopicOrders OrderExpired) (map orderEvent (map (expired_order ss) ?rows)) ?d"
    using e by (auto simp: expire_tx_def ExpireDueOrders_def Let_def each_writeOrderEvent ListSeatsOfOrders_def
        tx_bind_def tx_read_def simp del: map_map split: if_splits)
  then show "ledger_steps qr K d d'"
  proof cases
    case 1
    then have "orders ?d = orders d" using upd by simp
    then have "?d = d" by simp
    then show ?thesis using 1(2) by simp
  next
    case (2 ss)
    let ?es = "map orderEvent (map (expired_order ss) ?rows)"
    have "ev_order_id ` set ?es = o_id ` set ?hits" using arg_cong[OF ids, of set] by (simp only: set_map)
    moreover have "distinct (map ev_order_id ?es)"
      unfolding ids using schema_ids[OF s] by (rule distinct_map_filter)
    moreover have "\<forall>e\<in>set ?es. \<exists>q. row_by o_id (ev_order_id e) (orders d) = Some q \<and> o_status q = StatusHeld"
      using schema_ids[OF s] by (auto simp: expired_order_def row_by_Some_iff)
    ultimately show ?thesis using expire_steps[where es = ?es and d = d] upd 2 by simp
  qed
qed

section \<open>Tickets\<close>

text \<open>Filling in the codes leaves every listed ticket with one.\<close>

lemma set_qr_eq:
  "set_qr secret now t d = Inr (d\<lparr>tickets := update_where (\<lambda>r. (t_qr_payload t = None \<and> t_id r = t_id t) \<and> t_qr_payload r = None)
     (\<lambda>r. r\<lparr>t_qr_payload := Some (Payload secret (t_id r)), t_issued_at := Some now\<rparr>) (tickets d)\<rparr>, ())"
proof -
  have "update_where (\<lambda>r. t_id r = t_id t \<and> t_qr_payload r = None)
      (\<lambda>r. r\<lparr>t_qr_payload := Some (Payload secret (t_id t)), t_issued_at := Some now\<rparr>) ts
    = update_where (\<lambda>r. t_id r = t_id t \<and> t_qr_payload r = None)
      (\<lambda>r. r\<lparr>t_qr_payload := Some (Payload secret (t_id r)), t_issued_at := Some now\<rparr>) ts" for ts :: "ticket_row list"
    by (simp add: update_where_def cong: if_cong)
  moreover have "update_where (\<lambda>_. False) f ts = ts" for f and ts :: "ticket_row list" by (simp add: update_where_def)
  ultimately show ?thesis by (cases "t_qr_payload t") (simp_all add: set_qr_def SetTicketQR_def tx_return_def)
qed

lemma set_qr_refines: "keeps (refines (Payload secret) K) (set_qr secret now t)"
proof (rule keeps_refinesI)
  fix d d' x
  assume "set_qr secret now t d = Inr (d', x)"
  then show "ledger_steps (Payload secret) K d d'"
    using ledger_step.issue_qr[of "Payload secret" K d "\<lambda>r. t_qr_payload t = None \<and> t_id r = t_id t" now]
    by (simp only: set_qr_eq sum.inject prod.inject r_into_rtranclp)
qed

lemma each_set_qr:
  assumes "tx_each (set_qr secret now) ts d = Inr (d', u)"
  shows "\<exists>f. tickets d' = map f (tickets d) \<and> orders d' = orders d \<and> order_seats d' = order_seats d
    \<and> (\<forall>r. t_order_id (f r) = t_order_id r \<and> (t_qr_payload r \<noteq> None \<longrightarrow> f r = r)
        \<and> (\<forall>t\<in>set ts. t_id t = t_id r \<and> t_qr_payload t = None \<longrightarrow> t_qr_payload (f r) \<noteq> None))"
  using assms
proof (induction ts arbitrary: d)
  case Nil
  then show ?case by (intro exI[of _ id]) simp
next
  case (Cons t ts)
  define g :: "ticket_row \<Rightarrow> ticket_row" where "g = (\<lambda>r. if (t_qr_payload t = None \<and> t_id r = t_id t) \<and> t_qr_payload r = None
    then r\<lparr>t_qr_payload := Some (Payload secret (t_id r)), t_issued_at := Some now\<rparr> else r)"
  have "tx_each (set_qr secret now) ts (d\<lparr>tickets := map g (tickets d)\<rparr>) = Inr (d', u)"
    using Cons.prems by (simp add: tx_bind_ok[OF set_qr_eq] update_where_def g_def)
  from Cons.IH[OF this] obtain f where
    "tickets d' = map f (map g (tickets d))" "orders d' = orders d" "order_seats d' = order_seats d"
    and f: "\<And>r. t_order_id (f r) = t_order_id r \<and> (t_qr_payload r \<noteq> None \<longrightarrow> f r = r)
        \<and> (\<forall>t\<in>set ts. t_id t = t_id r \<and> t_qr_payload t = None \<longrightarrow> t_qr_payload (f r) \<noteq> None)" by auto
  moreover have "t_order_id ((f \<circ> g) r) = t_order_id r \<and> (t_qr_payload r \<noteq> None \<longrightarrow> (f \<circ> g) r = r)
      \<and> (\<forall>t\<in>set (t # ts). t_id t = t_id r \<and> t_qr_payload t = None \<longrightarrow> t_qr_payload ((f \<circ> g) r) \<noteq> None)" for r
  proof (cases "t_qr_payload (g r)")
    case None
    then have "g r = r" "\<not> (t_id t = t_id r \<and> t_qr_payload t = None)" by (auto simp: g_def split: if_splits)
    then show ?thesis using f[of r] by (simp del: not_None_eq) blast
  next
    case (Some p)
    then have "f (g r) = g r" using f[of "g r"] by simp
    then show ?thesis using Some by (simp add: g_def split: if_splits)
  qed
  ultimately show ?case by (intro exI[of _ "f \<circ> g"]) simp
qed

lemma refines_issue [keeps_intros]: "keeps (refines (Payload secret) K) (issue_tx secret oid now)"
proof (rule keeps_refinesI)
  fix d d' x
  assume s: "schema d" and i: "issue_tx secret oid now d = Inr (d', x)"
  show "ledger_steps (Payload secret) K d d'"
  proof (cases "row_by o_id oid (orders d)")
    case None
    then show ?thesis using i by (simp add: issue_tx_def)
  next
    case (Some row)
    let ?ts = "sort_key t_seat_id (tickets_of d oid)"
    have "GetOrderForUpdate oid d = Inr (d, row)" using Some by simp
    then consider "d' = d" | d1 d2 row' u ss where "tx_each (set_qr secret now) ?ts d = Inr (d1, u)"
      "transition now oid StatusPaid StatusTicketed d1 = Inr (d2, row')"
      "d' = add_event now TopicTickets TicketIssued (orderEvent (fromRow row' ss)) d2"
      using i by (auto simp: issue_tx_def ListOrderTickets_def ListOrderSeats_def tickets_of_def
          elim!: tx_bind_InrE split: if_splits)
    then show ?thesis
    proof cases
      case (2 d1 d2 row' u ss)
      have r1: "ledger_steps (Payload secret) K d d1"
        using keepsD[OF keeps_each[OF reflp_refines transp_refines set_qr_refines] 2(1)] s by (simp add: refines_def)
      have s1: "schema d1" using r1 s by (rule steps_schema)
      obtain f where f: "tickets d1 = map f (tickets d)"
        "\<forall>r. t_order_id (f r) = t_order_id r \<and> (t_qr_payload r \<noteq> None \<longrightarrow> f r = r)
        \<and> (\<forall>t\<in>set ?ts. t_id t = t_id r \<and> t_qr_payload t = None \<longrightarrow> t_qr_payload (f r) \<noteq> None)"
        using each_set_qr[OF 2(1)] by blast
      have "t_qr_payload (f r) \<noteq> None" if "r \<in> set (tickets_of d oid)" for r
        using f(2) that by (metis set_sort)
      then have "\<forall>t\<in>set (tickets_of d1 oid). t_qr_payload t \<noteq> None"
        using f(1) f(2)[rule_format, THEN conjunct1] by (force simp: tickets_of_def simp del: not_None_eq)
      moreover have "o_id row' = oid" using 2(2) s1 by (auto elim!: transition_InrD dest!: row_by_SomeD)
      ultimately have "ledger_steps (Payload secret) K d1 d'" using move_steps[OF 2(2) s1] 2(3) by simp
      with r1 show ?thesis by (rule rtranclp_trans)
    qed simp
  qed
qed

section \<open>Refunds\<close>

lemma refines_complete [keeps_intros]: "keeps (refines qr K) (complete_tx txn now)"
proof (rule keeps_refinesI)
  fix d d' x
  assume s: "schema d" and c: "complete_tx txn now d = Inr (d', x)"
  let ?hit = "\<lambda>r. r_provider_txn_id r = txn \<and> r_status r = RefundPending"
  let ?f = "\<lambda>r. r\<lparr>r_status := RefundSucceeded, r_completed_at := Some now\<rparr>"
  let ?d = "d\<lparr>refunds := update_where ?hit ?f (refunds d)\<rparr>"
  show "ledger_steps qr K d d'"
  proof (cases "CompleteRefund now txn d")
    case (Inl e)
    then show ?thesis using c by (auto simp: complete_tx_def split: if_splits)
  next
    case (Inr p)
    then obtain d1 y where cr: "CompleteRefund now txn d = Inr (d1, y)" by (cases p) auto
    from CompleteRefund_InrD[OF this] obtain r where r: "r \<in> set (refunds d)" "?hit r"
      and d1: "d1 = ?d" and y: "row_by r_provider_txn_id txn (refunds ?d) = Some y"
      by (auto simp: RefundPending_def RefundSucceeded_def)
    have dist: "distinct (map r_provider_txn_id (refunds d))" using s by (simp add: schema_def schema_money_def)
    then have "row_by r_provider_txn_id txn (refunds d) = Some r" using r by (simp add: row_by_Some_iff)
    then have y': "y = ?f r" using y r(2) by (simp add: row_by_update_where)
    have yo: "r_order_id y = r_order_id r" "r_reason y = r_reason r" using y' by simp_all
    let ?mv = "\<lambda>row. if r_reason r \<noteq> ReasonDoublePayment \<and> o_status row = StatusRefunding
           then transition now (r_order_id r) StatusRefunding StatusRefunded else tx_return row"
    let ?fin = "\<lambda>row'. tx_bind (ListOrderSeats (r_order_id r)) (\<lambda>ss.
        writeEvent now TopicOrders OrderRefunded (refunded_event txn y (fromRow row' ss)))"
    have "tx_bind (GetOrderForUpdate (r_order_id r)) (\<lambda>row. tx_bind (?mv row) ?fin) ?d = Inr (d', x)"
      using c unfolding complete_tx_def tx_try_ok[where m = "CompleteRefund now txn", OF cr] d1 yo .
    then obtain row where row: "row_by o_id (r_order_id r) (orders d) = Some row"
      and "tx_bind (?mv row) ?fin ?d = Inr (d', x)" by (rule tx_bind_InrE) simp
    from this(2) obtain d2 row' where mv: "?mv row ?d = Inr (d2, row')" and "?fin row' d2 = Inr (d', x)"
      by (rule tx_bind_InrE)
    from this(2) obtain ss where
      d': "d' = add_event now TopicOrders OrderRefunded (refunded_event txn y (fromRow row' ss)) d2"
      by (auto simp: ListOrderSeats_def elim!: tx_bind_InrE)
    have sd: "schema ?d" using s by (simp add: schema_def schema_money_def map_update_where image_update_where)
    have 1: "d2 = ?d\<lparr>orders := (if r_reason r \<noteq> ReasonDoublePayment \<and> o_status row = StatusRefunding
              then set_status (r_order_id r) StatusRefunded now (orders d) else orders d)\<rparr>"
      and 2: "o_id row' = r_order_id r"
      using mv sd row_by_SomeD[OF row] by (auto split: if_splits elim!: transition_InrD dest!: row_by_SomeD)
    have "ledger_step qr K d d'" unfolding d' 1
      using ledger_step.complete_refund[OF r(1) _ _ row refl, where txn = txn and now = now
          and ev = "refunded_event txn y (fromRow row' ss)" and qr = qr and K = K] r(2) 2
      by (simp add: refunded_event_def)
    then show ?thesis by simp
  qed
qed

section \<open>Seeding\<close>

lemma refines_seed [keeps_intros]: "keeps (refines qr K) (seed_tx new sp now)"
proof (rule keeps_refinesI)
  fix d d' x
  assume "seed_tx new sp now d = Inr (d', x)"
  then obtain es ss where "d' = d\<lparr>events := es, seats := ss\<rparr>"
    by (auto simp: seed_tx_def CreateEvent_def InsertSeats_def elim!: tx_bind_InrE split: if_splits)
  then show "ledger_steps qr K d d'" using ledger_step.seed by auto
qed

section \<open>Payments\<close>

definition pending_row :: "time \<Rightarrow> Webhook \<Rightarrow> uuid \<Rightarrow> string \<Rightarrow> refund_row" where
  "pending_row now p i reason = \<lparr>r_provider_txn_id = wh_provider_txn_id p, r_order_id = i,
     r_amount_vnd = wh_amount_vnd p, r_reason = reason, r_status = RefundPending,
     r_created_at = now, r_completed_at = None\<rparr>"

lemma db_commute:
  "d\<lparr>orders := a, refunds := b\<rparr> = d\<lparr>refunds := b, orders := a\<rparr>"
  "d\<lparr>refunds := b, orders := orders d\<rparr> = d\<lparr>refunds := b\<rparr>"
  by simp_all

lemma moveTo_InrD:
  assumes "moveTo now q to d = Inr (d', q')" "schema d"
  shows "CanTransition (ord_status q) to \<and> q' = q\<lparr>ord_status := to\<rparr>
    \<and> d' = d\<lparr>orders := set_status (ord_id q) to now (orders d)\<rparr>"
  using assms by (auto simp: moveTo_def elim!: tx_bind_InrE transition_InrD)

lemma insertTickets_InrD:
  assumes "insertTickets gen q d = Inr (d', ok)"
  obtains (taken) "\<not> ok" "d' = d"
  | (fresh) ts where "ok" "d' = d\<lparr>tickets := tickets d @ ts\<rparr>" "distinct (map t_id (tickets d @ ts))"
      "distinct (map t_key (tickets d @ ts))" "\<forall>t\<in>set ts. t_order_id t = ord_id q \<and> t_event_id t = ord_event_id q \<and> t_qr_payload t = None"
      "map t_seat_id ts = ord_seat_ids q"
proof -
  obtain ids where "ticket_ids gen (length (ord_seat_ids q)) = Some ids"
    and i: "tx_try (InsertTickets ids (ord_id q) (ord_event_id q) (ord_seat_ids q))
           (\<lambda>e. if is_unique_violation e then tx_return False else tx_fail e) (\<lambda>_. tx_return True) d = Inr (d', ok)"
    using assms by (auto simp: insertTickets_def split: option.splits)
  then have ids: "length ids = length (ord_seat_ids q)" by (auto simp: ticket_ids_def split: if_splits)
  let ?ts = "ticket_rows ids (ord_id q) (ord_event_id q) (ord_seat_ids q)"
  from i show thesis
  proof (cases rule: tx_try_InrE)
    case (ok d1 x)
    have "map t_seat_id ?ts = ord_seat_ids q" using ids by (simp add: ticket_rows_def comp_def case_prod_unfold)
    then show thesis using fresh InsertTickets_InrD[OF ok(1)] ok(2) ticket_rows_order by auto
  next
    case (err e)
    then show thesis using taken by (auto split: if_splits)
  qed
qed

lemma pay_InrD:
  assumes "pay now q d = Inr (d', dec)" "schema d"
  obtains ev q' after where "CanTransition (ord_status q) StatusPaid" "ev_order_id ev = ord_id q"
    "d' = add_event now TopicOrders OrderPaid ev (d\<lparr>orders := set_status (ord_id q) StatusPaid now (orders d)\<rparr>)"
    "dec = Decided \<lparr>pr_outcome = OutcomeApplied, pr_reason = '''', pr_status = Some StatusPaid\<rparr> (Some q') after"
proof -
  obtain d1 q1 where m: "moveTo now q StatusPaid d = Inr (d1, q1)"
    and d': "d' = add_event now TopicOrders OrderPaid (orderEvent q1) d1"
    and dec: "dec = Decided \<lparr>pr_outcome = OutcomeApplied, pr_reason = '''', pr_status = Some StatusPaid\<rparr> (Some q1)
      \<lparr>ac_confirm = True, ac_release = False\<rparr>"
    using assms(1) by (auto simp: pay_def elim!: tx_bind_InrE)
  from moveTo_InrD[OF m assms(2)] show thesis using that[of "orderEvent q1"] d' dec by simp
qed

lemma refund_InrD:
  assumes "refund now p q reason to after d = Inr (d', dec)" "schema d"
  obtains ev res q' where "ev_order_id ev = ord_id q \<and> ev_provider_txn_id ev = wh_provider_txn_id p"
    "dec = Decided res (Some q') after"
    "pr_outcome res = OutcomeRefundRequired" "pr_reason res = reason"
    "wh_provider_txn_id p \<notin> r_provider_txn_id ` set (refunds d)"
    "d' = add_event now TopicOrders OrderRefundRequested ev (d\<lparr>refunds := refunds d @ [pending_row now p (ord_id q) reason],
       orders := (case to of None \<Rightarrow> orders d | Some st \<Rightarrow> set_status (ord_id q) st now (orders d))\<rparr>)"
proof -
  obtain d1 q1 d2 u where
    m: "(case to of None \<Rightarrow> tx_return q | Some st \<Rightarrow> moveTo now q st) d = Inr (d1, q1)"
    and i: "InsertRefund now (wh_provider_txn_id p) (ord_id q1) (wh_amount_vnd p) reason d1 = Inr (d2, u)"
    and d': "d' = add_event now TopicOrders OrderRefundRequested ((orderEvent q1)\<lparr>ev_provider_txn_id := wh_provider_txn_id p,
        ev_amount_vnd := wh_amount_vnd p, ev_reason := reason\<rparr>) d2"
    and dec: "dec = Decided \<lparr>pr_outcome = OutcomeRefundRequired, pr_reason = reason, pr_status = Some (ord_status q1)\<rparr>
      (Some q1) after"
    using assms(1) unfolding refund_def by (auto elim!: tx_bind_InrE)
  have 1: "d1 = d\<lparr>orders := (case to of None \<Rightarrow> orders d | Some st \<Rightarrow> set_status (ord_id q) st now (orders d))\<rparr>" "ord_id q1 = ord_id q"
    using m by (auto dest!: moveTo_InrD[OF _ assms(2)] split: option.splits)
  from InsertRefund_InrD[OF i] show thesis
    using that[of "(orderEvent q1)\<lparr>ev_provider_txn_id := wh_provider_txn_id p, ev_amount_vnd := wh_amount_vnd p, ev_reason := reason\<rparr>"]
      d' dec 1 by (simp add: pending_row_def RefundPending_def db_commute(1))
qed

text \<open>What a decided payment did: nothing, a refund request or a sale.\<close>

lemma sell_InrD:
  assumes "sell gen now p q d = Inr (d', dec)" "schema d" "ord_id q \<in> order_ids d"
  obtains
    (refunded) ev res q' after where "pr_outcome res = OutcomeRefundRequired" "dec = Decided res (Some q') after"
      "ev_order_id ev = ord_id q \<and> ev_provider_txn_id ev = wh_provider_txn_id p" "wh_provider_txn_id p \<notin> r_provider_txn_id ` set (refunds d)"
      "d' = add_event now TopicOrders OrderRefundRequested ev (d\<lparr>refunds := refunds d @ [pending_row now p (ord_id q) ReasonSeatConflict],
         orders := set_status (ord_id q) StatusRefunding now (orders d)\<rparr>)"
  | (applied) ts ev res q' after where "pr_outcome res = OutcomeApplied" "dec = Decided res (Some q') after"
      "ev_order_id ev = ord_id q" "distinct (map t_id (tickets d @ ts))" "distinct (map t_key (tickets d @ ts))"
      "\<forall>t\<in>set ts. t_order_id t = ord_id q \<and> t_event_id t = ord_event_id q \<and> t_qr_payload t = None" "map t_seat_id ts = ord_seat_ids q"
      "d' = add_event now TopicOrders OrderPaid ev (d\<lparr>tickets := tickets d @ ts,
         orders := set_status (ord_id q) StatusPaid now (orders d)\<rparr>)"
proof -
  obtain d1 ok where t: "insertTickets gen q d = Inr (d1, ok)"
    and r: "(if \<not> ok then refund now p q ReasonSeatConflict (Some StatusRefunding) \<lparr>ac_confirm = False, ac_release = True\<rparr>
      else pay now q) d1 = Inr (d', dec)"
    using assms(1) unfolding sell_def by (rule tx_bind_InrE)
  from t show thesis
  proof (cases rule: insertTickets_InrD)
    case taken
    then have "refund now p q ReasonSeatConflict (Some StatusRefunding) \<lparr>ac_confirm = False, ac_release = True\<rparr> d = Inr (d', dec)"
      using r by simp
    then show thesis using assms(2)
      by (rule refund_InrD) (rule refunded, (assumption | simp)+)
  next
    case (fresh ts)
    have "pay now q d1 = Inr (d', dec)" using r fresh(1) by simp
    moreover have "schema d1" using schema_add_tickets[OF assms(2) fresh(3,4) _ assms(3)] fresh(2,5) by simp
    ultimately obtain ev q' after where "ev_order_id ev = ord_id q"
      "d' = add_event now TopicOrders OrderPaid ev (d1\<lparr>orders := set_status (ord_id q) StatusPaid now (orders d1)\<rparr>)"
      "dec = Decided \<lparr>pr_outcome = OutcomeApplied, pr_reason = '''', pr_status = Some StatusPaid\<rparr> (Some q') after"
      by (rule pay_InrD)
    then show thesis by (intro applied[OF _ _ _ fresh(3-6)]) (simp_all add: fresh(2))
  qed
qed

lemma decide_InrD:
  assumes "decide gen answer now p q active d = Inr (d', Decided res q' after)" "schema d" "ord_id q \<in> order_ids d"
  obtains
    (ignored) "wh_status p = StatusFailed" "pr_outcome res = OutcomeIgnoredFailed" "d' = d"
  | (refunded) ev reason to where "wh_status p \<noteq> StatusFailed" "pr_outcome res = OutcomeRefundRequired"
      "ev_order_id ev = ord_id q \<and> ev_provider_txn_id ev = wh_provider_txn_id p" "wh_provider_txn_id p \<notin> r_provider_txn_id ` set (refunds d)"
      "if paid (ord_status q) \<or> refund_side (ord_status q) then reason = ReasonDoublePayment \<and> to = orders d
       else reason \<noteq> ReasonDoublePayment \<and> to = set_status (ord_id q) StatusRefunding now (orders d)"
      "d' = add_event now TopicOrders OrderRefundRequested ev
         (d\<lparr>refunds := refunds d @ [pending_row now p (ord_id q) reason], orders := to\<rparr>)"
  | (applied) ts ev where "wh_status p \<noteq> StatusFailed" "pr_outcome res = OutcomeApplied" "wh_amount_vnd p = ord_total_vnd q"
      "ord_status q = StatusHeld \<or> ord_status q = StatusExpired"
      "ev_order_id ev = ord_id q" "distinct (map t_id (tickets d @ ts))" "distinct (map t_key (tickets d @ ts))"
      "\<forall>t\<in>set ts. t_order_id t = ord_id q \<and> t_event_id t = ord_event_id q \<and> t_qr_payload t = None" "map t_seat_id ts = ord_seat_ids q"
      "d' = add_event now TopicOrders OrderPaid ev (d\<lparr>tickets := tickets d @ ts,
         orders := set_status (ord_id q) StatusPaid now (orders d)\<rparr>)"
proof -
  note defs = ReasonAmountMismatch_def ReasonLatePaymentSeatTaken_def ReasonPaidAfterCancel_def ReasonDoublePayment_def ReasonSeatConflict_def
  have rf: thesis if "refund now p q reason (Some StatusRefunding) a d = Inr (d', Decided res q' after)"
    "\<not> (paid (ord_status q) \<or> refund_side (ord_status q))" "reason \<noteq> ReasonDoublePayment" "wh_status p \<noteq> StatusFailed" for reason a
    using that(1) assms(2) by (rule refund_InrD) (rule refunded[OF that(4)], use that in simp_all)
  have dbl: thesis if "refund now p q ReasonDoublePayment None no_work d = Inr (d', Decided res q' after)"
    "paid (ord_status q) \<or> refund_side (ord_status q)" "wh_status p \<noteq> StatusFailed"
    using that(1) assms(2) by (rule refund_InrD) (rule refunded[of _ ReasonDoublePayment "orders d", OF that(3)],
        use that in \<open>simp_all add: db_commute(2)\<close>)
  have sl: thesis if "sell gen now p q d = Inr (d', Decided res q' after)" "wh_amount_vnd p = ord_total_vnd q"
    "ord_status q = StatusHeld \<or> ord_status q = StatusExpired" "wh_status p \<noteq> StatusFailed"
    using that(1) assms(2,3)
  proof (cases rule: sell_InrD)
    case 1: (refunded ev r1 q1 a1)
    show thesis
      by (rule refunded[of ev ReasonSeatConflict "set_status (ord_id q) StatusRefunding now (orders d)", OF that(4)])
        (use 1 that(3) in \<open>auto simp: defs\<close>)
  next
    case 2: (applied ts ev r1 q1 a1)
    then show thesis by (intro applied[OF that(4) _ that(2,3), of ev ts]) simp_all
  qed
  show thesis
    using assms(1) ignored rf dbl sl unfolding decide_def Let_def
    by (auto simp: defs split: if_splits option.splits sum.splits)
qed

definition payment_of :: "time \<Rightarrow> Webhook \<Rightarrow> string \<Rightarrow> payment_row" where
  "payment_of now p outcome = \<lparr>p_provider_txn_id = wh_provider_txn_id p, p_order_id = wh_order_id p,
     p_amount_vnd = wh_amount_vnd p, p_status = wh_status p, p_outcome = outcome, p_received_at = now\<rparr>"

lemma payment_of_simps [simp]:
  "p_provider_txn_id (payment_of now p oc) = wh_provider_txn_id p" "p_order_id (payment_of now p oc) = wh_order_id p"
  "p_amount_vnd (payment_of now p oc) = wh_amount_vnd p" "p_status (payment_of now p oc) = wh_status p"
  "p_outcome (payment_of now p oc) = oc" "(payment_of now p oc)\<lparr>p_outcome := oc'\<rparr> = payment_of now p oc'"
  by (simp_all add: payment_of_def)

lemma SetPaymentOutcome_fresh:
  assumes "payments d = ps @ [payment_of now p oc]" "wh_provider_txn_id p \<notin> p_provider_txn_id ` set ps"
  shows "SetPaymentOutcome (wh_provider_txn_id p) oc' d = Inr (d\<lparr>payments := ps @ [payment_of now p oc']\<rparr>, ())"
proof -
  have "update_where (\<lambda>r. p_provider_txn_id r = wh_provider_txn_id p) (\<lambda>p. p\<lparr>p_outcome := oc'\<rparr>) ps = ps"
    using assms(2) by (intro update_where_id) (auto simp: image_iff)
  then show ?thesis by (simp add: SetPaymentOutcome_def assms(1) update_where_append)
qed

lemma add_event_payments:
  "(add_event now tp ty ev d)\<lparr>payments := ps\<rparr> = add_event now tp ty ev (d\<lparr>payments := ps\<rparr>)"
  by (simp add: add_event_def)

lemma db_commute_payments:
  "d\<lparr>refunds := b, orders := a, payments := c\<rparr> = d\<lparr>payments := c, refunds := b, orders := a\<rparr>"
  "d\<lparr>tickets := t, orders := a, payments := c\<rparr> = d\<lparr>payments := c, tickets := t, orders := a\<rparr>"
  by simp_all

text \<open>The three outcomes of a new payment as steps of the specification.\<close>

lemma decided_step:
  assumes d1: "d1 = d\<lparr>payments := payments d @ [payment_of now p '''']\<rparr>"
    and dec: "decide gen answer now p (fromRow row ss) active d1 = Inr (d2, Decided res q' after)"
    and s: "schema d" and row: "row_by o_id (wh_order_id p) (orders d) = Some row"
    and ss: "map fst ss = map os_seat_id (sort_key os_seat_id (seats_of d (wh_order_id p)))"
    and new: "wh_provider_txn_id p \<notin> p_provider_txn_id ` set (payments d)"
    and st: "wh_status p = ''SUCCEEDED'' \<or> wh_status p = ''FAILED''"
  shows "ledger_step qr K d (d2\<lparr>payments := payments d @ [payment_of now p (outcome_text (pr_outcome res))]\<rparr>)"
    and "payments d2 = payments d1"
proof -
  let ?q = "fromRow row ss"
  have i: "o_id row = wh_order_id p" "wh_order_id p \<in> order_ids d" "ord_id ?q \<in> order_ids d1"
    using row_by_SomeD[OF row] row_in_ids[OF row] by (auto simp: d1)
  have s1: "schema d1" unfolding d1 using s new i(2) by (intro schema_add_payment) simp_all
  have "ledger_step qr K d (d2\<lparr>payments := payments d @ [payment_of now p (outcome_text (pr_outcome res))]\<rparr>) \<and> payments d2 = payments d1"
    using dec s1 i(3)
  proof (cases rule: decide_InrD)
    case ignored
    then show ?thesis using new i(2) by (auto simp: d1 StatusFailed_def intro: ledger_step.ignore)
  next
    case (refunded ev reason to)
    let ?p = "payment_of now p ''REFUND_REQUIRED''" and ?r = "pending_row now p (wh_order_id p) reason"
    have "ledger_step qr K d (add_event now TopicOrders OrderRefundRequested ev
          (d\<lparr>payments := payments d @ [?p], refunds := refunds d @ [?r], orders := to\<rparr>))"
      by (rule ledger_step.request_refund[OF _ _ _ _ row, where p = ?p and r = ?r and os = to and now = now])
        (use refunded st i(1) new in \<open>auto simp: d1 pending_row_def StatusSucceeded_def StatusFailed_def split: if_splits\<close>)
    then show ?thesis using refunded(2,6) i(1) by (simp add: d1 add_event_payments db_commute_payments)
  next
    case (applied ts ev)
    let ?p = "payment_of now p ''APPLIED''"
    have seats: "t_seat_id ` set ts = os_seat_id ` set (seats_of d (wh_order_id p))"
      using arg_cong[OF applied(9), of set] arg_cong[OF ss, of set] by (simp add: ord_seat_ids_def)
    have "ledger_step qr K d (add_event now TopicOrders OrderPaid ev (d\<lparr>payments := payments d @ [?p], tickets := tickets d @ ts,
        orders := set_status (wh_order_id p) StatusPaid now (orders d)\<rparr>))"
      by (rule ledger_step.settle[OF _ _ _ _ row])
        (use applied st i(1) new seats in \<open>auto simp: d1 StatusSucceeded_def StatusFailed_def\<close>)
    then show ?thesis using applied(2,10) i(1) by (simp add: d1 add_event_payments db_commute_payments)
  qed
  then show "ledger_step qr K d (d2\<lparr>payments := payments d @ [payment_of now p (outcome_text (pr_outcome res))]\<rparr>)"
    "payments d2 = payments d1" by auto
qed

lemma payment_tx_refines:
  assumes "payment_tx gen answer p now d = Inr (d', Decided res q after)"
  shows "refines qr K d d'"
proof (rule refinesI)
  assume s: "schema d"
  show "ledger_steps qr K d d'"
  proof (cases "row_by o_id (wh_order_id p) (orders d)")
    case None
    then have "LockOrderForPayment now (wh_order_id p) d = Inl [NoRows]" by (simp add: LockOrderForPayment_def)
    then show ?thesis using assms by (simp add: payment_tx_def errors_is_def)
  next
    case (Some row)
    let ?ins = "InsertPayment now (wh_provider_txn_id p) (wh_order_id p) (wh_amount_vnd p) (wh_status p)"
    have lk: "LockOrderForPayment now (wh_order_id p) d = Inr (d, (row, now \<le> o_hold_expires_at row))"
      using Some by (simp add: LockOrderForPayment_def)
    show ?thesis
    proof (cases "?ins d")
      case (Inl e)
      then show ?thesis using assms lk
        by (auto simp: payment_tx_def ListOrderSeats_def Let_def split: if_splits elim!: tx_bind_InrE)
    next
      case (Inr x)
      obtain d1 u where ins: "?ins d = Inr (d1, u)" using Inr by (cases x) auto
      note i = InsertPayment_InrD[OF ins]
      let ?ss = "map (\<lambda>s. (os_seat_id s, os_price_vnd s)) (sort_key os_seat_id (seats_of d (wh_order_id p)))"
      have d1: "d1 = d\<lparr>payments := payments d @ [payment_of now p '''']\<rparr>" using i by (simp add: payment_of_def)
      have "tx_bind (decide gen answer now p (fromRow row ?ss) (now \<le> o_hold_expires_at row)) (record_outcome p) d1
          = Inr (d', Decided res q after)"
        using assms lk ins by (simp add: payment_tx_def ListOrderSeats_def tx_bind_def tx_read_def d1 seats_of_def)
      then obtain d2 dec where dec: "decide gen answer now p (fromRow row ?ss) (now \<le> o_hold_expires_at row) d1 = Inr (d2, dec)"
        and rec: "record_outcome p dec d2 = Inr (d', Decided res q after)" by (rule tx_bind_InrE)
      from rec have "dec = Decided res q after"
        and set: "SetPaymentOutcome (wh_provider_txn_id p) (outcome_text (pr_outcome res)) d2 = Inr (d', ())"
        by (auto simp: record_outcome_def elim!: tx_bind_InrE split: decision.splits)
      with dec have st: "ledger_step qr K d (d2\<lparr>payments := payments d @ [payment_of now p (outcome_text (pr_outcome res))]\<rparr>)"
        and "payments d2 = payments d1"
        using decided_step[OF d1 _ s Some, of gen answer ?ss] i by (auto simp: comp_def)
      then have "d' = d2\<lparr>payments := payments d @ [payment_of now p (outcome_text (pr_outcome res))]\<rparr>"
        using set SetPaymentOutcome_fresh[of d2 "payments d" now p "''''"] i by (simp add: d1)
      then show ?thesis using st by auto
    qed
  qed
qed

lemma refund_Decided: "refund now p q reason to after d = Inr (d', dec) \<Longrightarrow> \<exists>r q. dec = Decided r q after"
  unfolding refund_def by (auto elim!: tx_bind_InrE)

lemma sell_Decided: "sell gen now p q d = Inr (d', dec) \<Longrightarrow> \<exists>r q a. dec = Decided r q a"
  unfolding sell_def pay_def by (auto elim!: tx_bind_InrE split: if_splits dest!: refund_Decided)

lemma decide_answered:
  "decide gen (Some a) now p q b d = Inr (d', dec) \<Longrightarrow> \<exists>r q a. dec = Decided r q a"
  unfolding decide_def Let_def
  by (auto split: if_splits sum.splits dest!: refund_Decided sell_Decided)

text \<open>A transaction that has the answer of the hold comes to a decision.\<close>

lemma payment_tx_answered:
  "payment_tx gen (Some a) p now d = Inr (d', dec) \<Longrightarrow> \<exists>r q a. dec = Decided r q a"
  unfolding payment_tx_def
  by (auto elim!: tx_try_InrE tx_bind_InrE split: if_splits decision.splits
      simp: Let_def record_outcome_def dest!: decide_answered)

section \<open>The outbox\<close>

lemma schema_outbox_eq:
  "schema d \<Longrightarrow> m \<in> set (outbox d) \<Longrightarrow> m' \<in> set (outbox d) \<Longrightarrow> ob_id m = ob_id m' \<Longrightarrow> m = m'"
  by (metis distinct_key_eq schema_def schema_outbox_def)

lemma refines_cleanup [keeps_intros]: "keeps (refines qr K) (DeletePublishedBefore now retention n)"
proof (rule keeps_refinesI)
  fix d d' x
  assume s: "schema d" and del: "DeletePublishedBefore now retention n d = Inr (d', x)"
  let ?old = "take n (sort (map ob_id (filter (published_before (now - retention)) (outbox d))))"
  have "\<forall>m\<in>set (outbox d). ob_id m \<in> set ?old \<longrightarrow> ob_published_at m \<noteq> None"
  proof (intro ballI impI)
    fix m assume m: "m \<in> set (outbox d)" "ob_id m \<in> set ?old"
    from set_take_subset m(2) have "ob_id m \<in> ob_id ` set (filter (published_before (now - retention)) (outbox d))"
      by (metis (no_types, lifting) list.set_map set_sort subsetD)
    then obtain m' where "m' \<in> set (outbox d)" and p: "published_before (now - retention) m'" and "ob_id m = ob_id m'" by auto
    then have "m = m'" using schema_outbox_eq[OF s m(1)] by blast
    then show "ob_published_at m \<noteq> None" using p by (auto simp: published_before_def split: option.splits)
  qed
  from ledger_step.clean_up[OF this] show "ledger_steps qr K d d'"
    using del by (auto simp: DeletePublishedBefore_def Let_def)
qed

lemma refines_mark:
  assumes "\<forall>m\<in>set (outbox d). ob_id m \<in> set ids \<longrightarrow> record_of m \<in> K" "MarkPublished now ids d = Inr (d', x)"
  shows "refines qr K d d'"
proof (rule refinesI)
  show "ledger_steps qr K d d'"
    using ledger_step.publish[OF assms(1), of qr now] assms(2) by (auto simp: MarkPublished_def)
qed

end
