(* ===== verification/Queue.thy ===== *)
theory Queue
  imports Catalog Admission "HOL-Library.Multiset"
begin

text \<open>
  The waiting room: the Redis queue of \<open>internal/queue/queue.go\<close> with its scripts, and the
  admission worker of \<open>internal/queue/worker.go\<close>. The signer of admission tokens and
  \<open>uuid.Parse\<close> are parameters. A pipeline is a sequence of commands on one connection: other
  clients may run in between, and Redis answers every command on its own, so one may be
  refused and the next carried out.

  The lemmas show that buyers wait in the order they joined, that joining again changes
  nothing while the entry is in place, that one instance at a time admits, where stored tokens come
  from, and that a round of the worker that succeeds or whose connection breaks drops no
  buyer whose token is not stored. Two runs show what a single refused command does.
\<close>

section \<open>Sorted sets and hashes\<close>

text \<open>Members in the order of their score, equal scores by member; a member occurs once.\<close>

definition zset_add :: "int \<Rightarrow> string \<Rightarrow> (int \<times> string) list \<Rightarrow> (int \<times> string) list" where
  "zset_add sc m z = insort (sc, m) (filter (\<lambda>e. snd e \<noteq> m) z)"

definition zadd :: "string \<Rightarrow> int \<Rightarrow> string \<Rightarrow> redis \<Rightarrow> redis" where
  "zadd k sc m r = r\<lparr>zsets := (zsets r)(k := zset_add sc m (zsets r k))\<rparr>"

fun zset_rank :: "string \<Rightarrow> (int \<times> string) list \<Rightarrow> int option" where
  "zset_rank m [] = None"
| "zset_rank m (e # z) = (if snd e = m then Some 0 else map_option (\<lambda>n. n + 1) (zset_rank m z))"

definition zrem :: "string \<Rightarrow> string list \<Rightarrow> redis \<Rightarrow> redis" where
  "zrem k ms r = r\<lparr>zsets := (zsets r)(k := filter (\<lambda>e. snd e \<notin> set ms) (zsets r k))\<rparr>"

text \<open>\<open>ZRANGE k 0 stop\<close>; a negative index counts from the end.\<close>

definition zrange :: "string \<Rightarrow> int \<Rightarrow> redis \<Rightarrow> string list" where
  "zrange k stop r = (let z = zsets r k; n = (if stop < 0 then stop + int (length z) else stop)
     in map snd (take (nat (n + 1)) z))"

definition hset :: "string \<Rightarrow> string \<Rightarrow> string \<Rightarrow> redis \<Rightarrow> redis" where
  "hset k f v r = r\<lparr>hashes := (hashes r)(k := (hashes r k)(f \<mapsto> v))\<rparr>"

definition hdel :: "string \<Rightarrow> string list \<Rightarrow> redis \<Rightarrow> redis" where
  "hdel k fs r = r\<lparr>hashes := (hashes r)(k := (\<lambda>f. if f \<in> set fs then None else hashes r k f))\<rparr>"

text \<open>\<open>PTTL\<close> of a key, in milliseconds; -2 when it is missing, -1 without an expiry.\<close>

definition pttl :: "string \<Rightarrow> redis \<Rightarrow> int" where
  "pttl k r = (if redis_get r k = None then -2
     else case kv r k of Some (v, Some t) \<Rightarrow> (t - r_now r) div 1000000 | _ \<Rightarrow> -1)"

section \<open>Keys\<close>

definition queueKey :: "int \<Rightarrow> string" where
  "queueKey e = ''queue:{'' @ format_int e @ ''}''"

definition userKey :: "int \<Rightarrow> int \<Rightarrow> string" where
  "userKey e u = queueKey e @ '':user:'' @ format_int u"

definition ownerKey :: "int \<Rightarrow> string" where
  "ownerKey e = queueKey e @ '':owner''"

definition lockKey :: "int \<Rightarrow> string" where
  "lockKey e = ''admit:lock:{'' @ format_int e @ ''}''"

definition AdmittedKey :: "uuid \<Rightarrow> string" where
  "AdmittedKey q = ''admitted:'' @ q"

definition userKeyTTL :: int where
  "userKeyTTL = 2 * 3600"

definition leaseTTL :: int where
  "leaseTTL = 3000"

section \<open>Joining\<close>

definition join_new :: "int \<Rightarrow> int \<Rightarrow> uuid \<Rightarrow> int \<Rightarrow> redis \<Rightarrow> redis \<times> (string \<times> int) res" where
  "join_new e u new ttl r =
    (let r1 = zadd (queueKey e) (r_now r div 1000000) new r;
         r2 = hset (ownerKey e) new (format_int u) r1;
         r3 = redis_set_px (userKey e u) new (ttl * 1000) r2
     in (r3, Inr (new, case zset_rank new (zsets r3 (queueKey e)) of Some n \<Rightarrow> n | None \<Rightarrow> 0)))"

definition join_lua :: "int \<Rightarrow> int \<Rightarrow> uuid \<Rightarrow> int \<Rightarrow> string \<Rightarrow> redis \<Rightarrow> redis \<times> (string \<times> int) res" where
  "join_lua e u new ttl spent r =
    (case redis_get r (userKey e u) of
       Some cur \<Rightarrow>
         if cur \<noteq> spent
         then (r, Inr (cur, case zset_rank cur (zsets r (queueKey e)) of Some n \<Rightarrow> n | None \<Rightarrow> -1))
         else join_new e u new ttl r
     | None \<Rightarrow> join_new e u new ttl r)"

record entry =
  en_queue_id :: uuid
  en_position :: int

record queue_status =
  qs_position :: int
  qs_token :: string
  qs_expires_in :: duration

definition redis_read :: "(redis \<Rightarrow> 'a) \<Rightarrow> (world, 'a res) prog" where
  "redis_read f = redis_call (\<lambda>r. (r, Inr (f r)))"

text \<open>
  A read sent in a pipeline. Redis answers each command of a pipeline on its own: \<open>Fail\<close> is an
  error reply to this command alone, \<open>Lost\<close> a connection that broke before its reply.
\<close>

definition piped_read :: "(redis \<Rightarrow> 'a) \<Rightarrow> (world, fault \<times> 'a) prog" where
  "piped_read f = Step (\<lambda>_. True) (\<lambda>x w. w) (\<lambda>x w. Ret (x, f (rd w)))"

text \<open>
  What \<open>Status\<close> makes of the three replies. \<open>Pipelined\<close> returns the error of a broken
  connection, and otherwise that of the first command that has one; a missing key is an error
  too, \<open>redis.Nil\<close>, and that one is not returned. So when there is no token the
  errors of the later commands go unseen, and a refused \<open>ZRANK\<close> reads as no rank.
\<close>

definition read_status :: "fault \<times> string option \<Rightarrow> fault \<times> int \<Rightarrow> fault \<times> int option \<Rightarrow> queue_status res" where
  "read_status a b c =
    (if Lost \<in> {fst a, fst b, fst c} \<or> fst a = Fail \<or> snd a \<noteq> None \<and> Fail \<in> {fst b, fst c} then Inl infra_error
     else case snd a of
       Some t \<Rightarrow> Inr \<lparr>qs_position = 0, qs_token = t,
         qs_expires_in = max (if snd b < 0 then snd b else snd b * 1000000) 0\<rparr>
     | None \<Rightarrow> (case (fst c, snd c) of
         (Reply, Some n) \<Rightarrow> Inr \<lparr>qs_position = n + 1, qs_token = '''', qs_expires_in = 0\<rparr>
       | _ \<Rightarrow> Inl [ErrNotQueued]))"

definition queue_Status :: "int \<Rightarrow> uuid \<Rightarrow> (world, queue_status res) prog" where
  "queue_Status e q =
    bindp (piped_read (\<lambda>r. redis_get r (AdmittedKey q))) (\<lambda>token.
    bindp (piped_read (pttl (AdmittedKey q))) (\<lambda>ttl.
    bindp (piped_read (\<lambda>r. zset_rank q (zsets r (queueKey e)))) (\<lambda>rank.
    Ret (read_status token ttl rank))))"

definition queue_Length :: "int \<Rightarrow> (world, int res) prog" where
  "queue_Length e = redis_read (\<lambda>r. int (length (zsets r (queueKey e))))"

text \<open>The part of \<open>Join\<close> that enters the queue; \<open>new\<close> is the id the generator gives.\<close>

definition join_enter :: "(string \<Rightarrow> uuid option) \<Rightarrow> int \<Rightarrow> int \<Rightarrow> uuid option \<Rightarrow> string \<Rightarrow> (world, entry res) prog" where
  "join_enter uuid_parse e u new spent = (case new of
     None \<Rightarrow> Ret (Inl [Opaque ''generate queue id''])
   | Some i \<Rightarrow> bindp (redis_call (join_lua e u i userKeyTTL spent)) (\<lambda>x.
       case x of
         Inl er \<Rightarrow> Ret (Inl er)
       | Inr (got, rank) \<Rightarrow> (case uuid_parse got of
           None \<Rightarrow> Ret (Inl [Opaque ''join queue: bad queue id''])
         | Some q \<Rightarrow> Ret (Inr \<lparr>en_queue_id = q, en_position = rank + 1\<rparr>))))"

definition Join :: "(string \<Rightarrow> uuid option) \<Rightarrow> int \<Rightarrow> int \<Rightarrow> uuid option \<Rightarrow> (world, entry res) prog" where
  "Join uuid_parse e u new =
    bindp (redis_read (\<lambda>r. redis_get r (userKey e u))) (\<lambda>x.
      case x of
        Inl er \<Rightarrow> Ret (Inl er)
      | Inr None \<Rightarrow> join_enter uuid_parse e u new ''''
      | Inr (Some cur) \<Rightarrow> (case uuid_parse cur of
          None \<Rightarrow> join_enter uuid_parse e u new cur
        | Some q \<Rightarrow> bindp (queue_Status e q) (\<lambda>st.
            case st of
              Inr s \<Rightarrow> Ret (Inr \<lparr>en_queue_id = q, en_position = qs_position s\<rparr>)
            | Inl er \<Rightarrow> if errors_is er ErrNotQueued then join_enter uuid_parse e u new cur else Ret (Inl er))))"

section \<open>Admitting\<close>

definition lease_lua :: "string \<Rightarrow> string \<Rightarrow> int \<Rightarrow> redis \<Rightarrow> redis \<times> int res" where
  "lease_lua k inst ms r = (case redis_get r k of
     Some v \<Rightarrow> if v = inst then (redis_pexpire k ms r, Inr 1) else (r, Inr 0)
   | None \<Rightarrow> (redis_set_px k inst ms r, Inr 1))"

text \<open>
  A pipeline of writes: Redis carries out every command, whatever becomes of the ones before,
  and the caller sees the first error.
\<close>

fun pipelined :: "(redis \<Rightarrow> redis) list \<Rightarrow> (world, unit res) prog" where
  "pipelined [] = Ret (Inr ())"
| "pipelined (c # cs) = bindp (redis_call (\<lambda>r. (c r, Inr ()))) (\<lambda>x.
     bindp (pipelined cs) (\<lambda>y. Ret (case x of Inl er \<Rightarrow> Inl er | Inr _ \<Rightarrow> y)))"

text \<open>
  The tokens to store for the head of the queue: \<open>issue i u e q\<close> is the i-th call of the
  signer. Entries without a usable owner are skipped.
\<close>

fun admissions ::
  "(nat \<Rightarrow> int \<Rightarrow> int \<Rightarrow> uuid \<Rightarrow> string res) \<Rightarrow> (string \<Rightarrow> uuid option) \<Rightarrow> int \<Rightarrow> nat
    \<Rightarrow> (string \<times> string option) list \<Rightarrow> (uuid \<times> string) list res" where
  "admissions issue uuid_parse e i [] = Inr []"
| "admissions issue uuid_parse e i ((m, own) # xs) =
    (case (uuid_parse m, own) of
       (Some q, Some uid) \<Rightarrow> (case parse_int uid of
           None \<Rightarrow> admissions issue uuid_parse e i xs
         | Some u \<Rightarrow> (case issue i u e q of
             Inl er \<Rightarrow> Inl er
           | Inr token \<Rightarrow> (case admissions issue uuid_parse e (Suc i) xs of
               Inl er \<Rightarrow> Inl er
             | Inr ts \<Rightarrow> Inr ((q, token) # ts))))
     | _ \<Rightarrow> admissions issue uuid_parse e i xs)"

definition admit_cmds :: "int \<Rightarrow> duration \<Rightarrow> string list \<Rightarrow> (uuid \<times> string) list \<Rightarrow> (redis \<Rightarrow> redis) list" where
  "admit_cmds e ttl head ts =
    map (\<lambda>(q, token) r. fst (redis_setnx (AdmittedKey q) token ttl r)) ts
    @ [zrem (queueKey e) head, hdel (ownerKey e) head]"

definition store_admissions ::
  "(nat \<Rightarrow> int \<Rightarrow> int \<Rightarrow> uuid \<Rightarrow> string res) \<Rightarrow> duration \<Rightarrow> (string \<Rightarrow> uuid option) \<Rightarrow> int \<Rightarrow> string list
    \<Rightarrow> string option list \<Rightarrow> (world, int res) prog" where
  "store_admissions issue ttl uuid_parse e head owners =
    (case admissions issue uuid_parse e 0 (zip head owners) of
       Inl er \<Rightarrow> Ret (Inl er)
     | Inr ts \<Rightarrow> bindp (pipelined (admit_cmds e ttl head ts)) (\<lambda>x.
         case x of Inl er \<Rightarrow> Ret (Inl er) | Inr _ \<Rightarrow> Ret (Inr (int (length ts)))))"

text \<open>What the holder of the lease does.\<close>

definition admit_head ::
  "(nat \<Rightarrow> int \<Rightarrow> int \<Rightarrow> uuid \<Rightarrow> string res) \<Rightarrow> duration \<Rightarrow> (string \<Rightarrow> uuid option) \<Rightarrow> int \<Rightarrow> int
    \<Rightarrow> (world, int res) prog" where
  "admit_head issue ttl uuid_parse batch e =
    bindp (redis_read (zrange (queueKey e) (batch - 1))) (\<lambda>x. case x of Inl er \<Rightarrow> Ret (Inl er) | Inr head \<Rightarrow>
    if head = [] then Ret (Inr 0)
    else bindp (redis_read (\<lambda>r. map (hashes r (ownerKey e)) head)) (\<lambda>x. case x of Inl er \<Rightarrow> Ret (Inl er) | Inr owners \<Rightarrow>
    store_admissions issue ttl uuid_parse e head owners))"

definition Admit ::
  "(nat \<Rightarrow> int \<Rightarrow> int \<Rightarrow> uuid \<Rightarrow> string res) \<Rightarrow> duration \<Rightarrow> (string \<Rightarrow> uuid option) \<Rightarrow> int \<Rightarrow> string \<Rightarrow> int
    \<Rightarrow> (world, int res) prog" where
  "Admit issue ttl uuid_parse batch inst e =
    bindp (redis_call (lease_lua (lockKey e) inst leaseTTL)) (\<lambda>x. case x of Inl er \<Rightarrow> Ret (Inl er) | Inr got \<Rightarrow>
    if got \<noteq> 1 then Ret (Inr 0) else admit_head issue ttl uuid_parse batch e)"

fun tick_loop :: "(int \<Rightarrow> (world, int res) prog) \<Rightarrow> int list \<Rightarrow> int \<Rightarrow> (world, int \<times> goerror option) prog" where
  "tick_loop admit [] tot = Ret (tot, None)"
| "tick_loop admit (e # es) tot = bindp (admit e) (\<lambda>x.
     case x of Inl er \<Rightarrow> Ret (tot, Some er) | Inr n \<Rightarrow> tick_loop admit es (tot + n))"

definition Tick ::
  "(nat \<Rightarrow> int \<Rightarrow> int \<Rightarrow> uuid \<Rightarrow> string res) \<Rightarrow> duration \<Rightarrow> (string \<Rightarrow> uuid option) \<Rightarrow> int \<Rightarrow> string
    \<Rightarrow> (world, int \<times> goerror option) prog" where
  "Tick issue ttl uuid_parse batch inst = bindp OpenEventIDs (\<lambda>x.
     case x of Inl er \<Rightarrow> Ret (0, Some er) | Inr es \<Rightarrow> tick_loop (Admit issue ttl uuid_parse batch inst) es 0)"

section \<open>The order of the queue\<close>

definition zset_ok :: "(int \<times> string) list \<Rightarrow> bool" where
  "zset_ok z \<longleftrightarrow> sorted z \<and> distinct (map snd z)"

lemma zset_ok_add: "zset_ok z \<Longrightarrow> zset_ok (zset_add sc m z)"
proof -
  assume "zset_ok z"
  then have "sorted (filter (\<lambda>e. snd e \<noteq> m) z)" "distinct (map snd (filter (\<lambda>e. snd e \<noteq> m) z))"
    unfolding zset_ok_def using sorted_wrt_filter distinct_map_filter by blast+
  moreover have "distinct (map snd (insort (sc, m) xs)) = distinct (m # map snd xs)" for xs :: "(int \<times> string) list"
  proof -
    have "mset (map snd (insort (sc, m) xs)) = mset (m # map snd xs)" by (simp add: mset_map)
    then show ?thesis by (rule mset_eq_imp_distinct_iff)
  qed
  ultimately show ?thesis by (auto simp: zset_ok_def zset_add_def sorted_insort)
qed

lemma zset_ok_filter: "zset_ok z \<Longrightarrow> zset_ok (filter P z)"
  unfolding zset_ok_def using sorted_wrt_filter distinct_map_filter by blast

lemma zset_rank_append:
  "zset_rank m (xs @ ys) = (case zset_rank m xs of Some n \<Rightarrow> Some n | None \<Rightarrow> map_option (\<lambda>n. n + int (length xs)) (zset_rank m ys))"
  by (induction xs) (auto split: option.split simp: option.map_comp comp_def ac_simps option.map_ident)

lemma zset_rank_None: "zset_rank m z = None \<longleftrightarrow> m \<notin> snd ` set z"
  by (induction z) auto

lemma insort_split:
  "sorted z \<Longrightarrow> insort x z = filter (\<lambda>e. e < x) z @ x # filter (\<lambda>e. \<not> e < x) z"
proof (induction z)
  case (Cons a z)
  show ?case
  proof (cases "x \<le> a")
    case True
    then have "filter (\<lambda>e. e < x) z = []" "filter (\<lambda>e. \<not> e < x) z = z"
      using Cons.prems by (auto simp: filter_empty_conv filter_id_conv not_less intro: order_trans)
    then show ?thesis using True by (simp add: not_less)
  next
    case False
    then show ?thesis using Cons by auto
  qed
qed simp

text \<open>
  A newcomer stands behind exactly those whose entry is smaller, and they keep their place.
\<close>

lemma zset_rank_new:
  assumes "zset_ok z" "m \<notin> snd ` set z"
  shows "zset_rank m (zset_add sc m z) = Some (int (length (filter (\<lambda>e. e < (sc, m)) z)))"
proof -
  have f: "filter (\<lambda>e. snd e \<noteq> m) z = z" using assms(2) by (auto simp: filter_id_conv)
  have "zset_rank m (filter (\<lambda>e. e < (sc, m)) z) = None" using assms(2) by (auto simp: zset_rank_None)
  then show ?thesis
    using assms(1) by (simp add: zset_add_def f insort_split zset_ok_def zset_rank_append)
qed

lemma zset_rank_old:
  assumes "zset_ok z" "m \<notin> snd ` set z" "(s, a) \<in> set z" "(s, a) < (sc, m)"
  shows "zset_rank a (zset_add sc m z) = zset_rank a z"
proof -
  have f: "filter (\<lambda>e. snd e \<noteq> m) z = z" using assms(2) by (auto simp: filter_id_conv)
  have s: "sorted z" using assms(1) by (simp add: zset_ok_def)
  have split: "z = filter (\<lambda>e. e < (sc, m)) z @ filter (\<lambda>e. \<not> e < (sc, m)) z"
    using s
  proof (induction z)
    case (Cons b z)
    show ?case
    proof (cases "b < (sc, m)")
      case False
      then have "\<not> e < (sc, m)" if "e \<in> set z" for e
        using Cons.prems that by (auto simp: not_less intro: order_trans)
      then show ?thesis using False by (simp add: filter_empty_conv filter_id_conv)
    qed (use Cons in simp)
  qed simp
  have "zset_rank a (filter (\<lambda>e. e < (sc, m)) z) \<noteq> None"
    unfolding zset_rank_None using assms(3,4) by (simp add: image_iff del: less_prod_simp) (metis snd_conv)
  then obtain n where n: "zset_rank a (filter (\<lambda>e. e < (sc, m)) z) = Some n" by blast
  have "zset_rank a z = Some n" by (subst split) (simp add: zset_rank_append n)
  then show ?thesis using s by (simp add: zset_add_def f insort_split zset_rank_append n)
qed

section \<open>Joining twice\<close>

definition queued :: "int \<Rightarrow> uuid \<Rightarrow> redis \<Rightarrow> bool" where
  "queued e q r \<longleftrightarrow> q \<in> snd ` set (zsets r (queueKey e))"

definition admitted :: "uuid \<Rightarrow> redis \<Rightarrow> bool" where
  "admitted q r \<longleftrightarrow> redis_get r (AdmittedKey q) \<noteq> None"

lemma run_redis_read:
  "run fs w (bindp (redis_read f) k) = Some (w', x) \<longleftrightarrow>
    (\<exists>y ys. fs = y # ys \<and> run ys w (k (if y = Reply then Inr (f (rd w)) else Inl infra_error)) = Some (w', x))"
  by (auto simp: redis_read_def run_bind_redis_call redis_outcome_eq run_redis_def)

text \<open>The answer of \<open>Status\<close> when every command is answered and nothing happens in between.\<close>

definition status_answer :: "int \<Rightarrow> uuid \<Rightarrow> redis \<Rightarrow> queue_status res" where
  "status_answer e q r = (case redis_get r (AdmittedKey q) of
     Some t \<Rightarrow> Inr \<lparr>qs_position = 0, qs_token = t,
       qs_expires_in = max (if pttl (AdmittedKey q) r < 0 then pttl (AdmittedKey q) r else pttl (AdmittedKey q) r * 1000000) 0\<rparr>
   | None \<Rightarrow> (case zset_rank q (zsets r (queueKey e)) of
       Some n \<Rightarrow> Inr \<lparr>qs_position = n + 1, qs_token = '''', qs_expires_in = 0\<rparr>
     | None \<Rightarrow> Inl [ErrNotQueued]))"

lemma run_piped_read:
  "run fs w (bindp (piped_read f) k) = Some (w', x) \<longleftrightarrow> (\<exists>y ys. fs = y # ys \<and> run ys w (k (y, f (rd w))) = Some (w', x))"
  by (cases fs) (auto simp: piped_read_def)

lemma run_piped_step [simp]: "run (y # ys) w (bindp (piped_read f) k) = run ys w (k (y, f (rd w)))"
  by (simp add: piped_read_def)

text \<open>The replies of an undisturbed run, each with what became of its command.\<close>

lemma run_queue_Status:
  assumes "run fs w (queue_Status e q) = Some (w', x)"
  shows "\<exists>f g h. w' = w \<and> x = read_status (f, redis_get (rd w) (AdmittedKey q)) (g, pttl (AdmittedKey q) (rd w))
    (h, zset_rank q (zsets (rd w) (queueKey e)))"
  using assms unfolding queue_Status_def run_piped_read by auto

lemma read_status_Reply [simp]:
  "read_status (Reply, redis_get r (AdmittedKey q)) (Reply, pttl (AdmittedKey q) r) (Reply, zset_rank q (zsets r (queueKey e)))
    = status_answer e q r"
  by (simp add: read_status_def status_answer_def split: option.split)

lemma queue_Status_step [simp]:
  "run (Reply # Reply # Reply # xs) w (bindp (queue_Status e q) k) = run xs w (k (status_answer e q (rd w)))"
  by (simp add: queue_Status_def)

text \<open>
  Joining again: as long as the entry keeps its place, or its token, no step of \<open>Join\<close> changes
  anything, whatever others do between the steps.
\<close>

lemma read_status_kept:
  assumes "Fail \<notin> {fst a, fst b, fst c}" "snd c \<noteq> None \<or> snd a \<noteq> None"
  shows "read_status a b c = Inl infra_error \<or> (\<exists>s. read_status a b c = Inr s)"
  using assms by (cases a; cases b; cases c; cases "fst c") (auto simp: read_status_def split: option.splits)

lemma among_redis_read:
  "among I ts (bindp (redis_read f) k) a \<longleftrightarrow>
    (\<exists>x w us. ts = (x, w, w) # us \<and> I w \<and> among I us (k (if x = Reply then Inr (f (rd w)) else Inl infra_error)) a)"
  by (auto simp: redis_read_def redis_call_def call_when_def run_redis_def among_Step_iff)

lemma among_piped_read:
  "among I ts (bindp (piped_read f) k) a \<longleftrightarrow> (\<exists>x w us. ts = (x, w, w) # us \<and> I w \<and> among I us (k (x, f (rd w))) a)"
  by (auto simp: piped_read_def among_Step_iff)

lemma join_again:
  assumes "uuid_parse q = Some q" "stays = queued e q \<or> stays = admitted q"
    and "among (\<lambda>w. redis_get (rd w) (userKey e u) = Some q \<and> stays (rd w)) ts (Join uuid_parse e u new) x"
    and "list_all (\<lambda>(f, w, w'). f \<noteq> Fail) ts"
  shows "list_all (\<lambda>(f, w, w'). w' = w) ts \<and> (\<forall>en. x = Inr en \<longrightarrow> en_queue_id en = q)"
proof -
  let ?I = "\<lambda>w. redis_get (rd w) (userKey e u) = Some q \<and> stays (rd w)"
  obtain f w us where ts: "ts = (f, w, w) # us" and I: "?I w"
    and r: "among ?I us (if f = Reply then bindp (queue_Status e q) (\<lambda>st. case st of
        Inr s \<Rightarrow> Ret (Inr \<lparr>en_queue_id = q, en_position = qs_position s\<rparr>)
      | Inl er \<Rightarrow> if errors_is er ErrNotQueued then join_enter uuid_parse e u new q else Ret (Inl er)) else Ret (Inl infra_error)) x"
    using assms(1,3) unfolding Join_def among_redis_read by (auto split: if_splits)
  show ?thesis
  proof (cases "f = Reply")
    case True
    with r obtain fa wa fb wb fc wc vs where us: "us = (fa, wa, wa) # (fb, wb, wb) # (fc, wc, wc) # vs" and "?I wa" "?I wc"
      and k: "among ?I vs (case read_status (fa, redis_get (rd wa) (AdmittedKey q)) (fb, pttl (AdmittedKey q) (rd wb))
          (fc, zset_rank q (zsets (rd wc) (queueKey e))) of
        Inr s \<Rightarrow> Ret (Inr \<lparr>en_queue_id = q, en_position = qs_position s\<rparr>)
      | Inl er \<Rightarrow> if ErrNotQueued \<in> set er then join_enter uuid_parse e u new q else Ret (Inl er)) x"
      by (auto simp: queue_Status_def among_piped_read)
    have "zset_rank q (zsets (rd wc) (queueKey e)) \<noteq> None \<or> redis_get (rd wa) (AdmittedKey q) \<noteq> None"
      using assms(2) \<open>?I wa\<close> \<open>?I wc\<close> by (auto simp: zset_rank_None queued_def admitted_def)
    with read_status_kept[of "(fa, redis_get (rd wa) (AdmittedKey q))" "(fb, pttl (AdmittedKey q) (rd wb))"
        "(fc, zset_rank q (zsets (rd wc) (queueKey e)))"] assms(4)
    show ?thesis using k unfolding ts us by (auto simp: errors_is_def)
  qed (use r ts in simp)
qed

section \<open>Nobody is lost\<close>

text \<open>
  The faults of a connection that breaks: replies up to some point, at most one command more
  that Redis still carries out, and nothing after it.
\<close>

fun cut_off :: "fault list \<Rightarrow> bool" where
  "cut_off [] = True"
| "cut_off (x # xs) = (if x = Reply then cut_off xs else list_all ((=) Fail) xs)"

lemma cut_off_Fail: "list_all ((=) Fail) xs \<Longrightarrow> cut_off xs"
  by (induction xs) auto

lemma cut_off_tl: "cut_off (x # xs) \<Longrightarrow> cut_off xs"
  by (auto intro: cut_off_Fail split: if_splits)

text \<open>The commands of a pipeline that are carried out.\<close>

lemma run_pipelined:
  assumes "run fs w (bindp (pipelined cs) k) = Some (w', x)"
  shows "\<exists>cs' y ys. run ys (w\<lparr>rd := fold (\<lambda>c. c) cs' (rd w)\<rparr>) (k y) = Some (w', x) \<and> (y = Inr () \<longrightarrow> cs' = cs)
    \<and> (cut_off fs \<longrightarrow> (\<exists>n. cs' = take n cs)) \<and> (list_all ((=) Fail) fs \<longrightarrow> cs' = [])"
  using assms
proof (induction cs arbitrary: fs w k)
  case Nil
  then show ?case by (intro exI[of _ "[]"] exI[of _ "Inr ()"] exI[of _ fs]) simp
next
  case (Cons c cs)
  let ?k = "\<lambda>r y. k (case r of Inl er \<Rightarrow> Inl er | Inr _ \<Rightarrow> y)"
  obtain f gs w1 r1 where fs: "fs = f # gs" and f: "redis_outcome (\<lambda>r. (c r, Inr ())) f w = (w1, r1)"
    and r: "run gs w1 (bindp (pipelined cs) (?k r1)) = Some (w', x)"
    using Cons.prems unfolding pipelined.simps bindp_assoc run_bind_redis_call by auto
  obtain cs' y ys where cs': "run ys (w1\<lparr>rd := fold (\<lambda>c. c) cs' (rd w1)\<rparr>) (?k r1 y) = Some (w', x)" "y = Inr () \<longrightarrow> cs' = cs"
    "cut_off gs \<longrightarrow> (\<exists>n. cs' = take n cs)" "list_all ((=) Fail) gs \<longrightarrow> cs' = []"
    using Cons.IH[OF r] by blast
  show ?case
  proof (cases "f = Fail")
    case True
    then have "w1 = w" "r1 = Inl infra_error" using f by auto
    then show ?thesis using cs' True
      by (intro exI[of _ cs'] exI[of _ "Inl infra_error"] exI[of _ ys]) (auto simp: fs intro: exI[of _ 0])
  next
    case False
    then have w1: "w1 = w\<lparr>rd := c (rd w)\<rparr>" and r1: "r1 = (if f = Reply then Inr () else Inl infra_error)"
      using f by (cases f; simp add: run_redis_def)+
    have "\<exists>n. c # cs' = take n (c # cs)" if cut: "cut_off fs"
    proof -
      obtain n where "cs' = take n cs" using cs'(3) cut_off_tl[of f gs] cut fs by blast
      then show ?thesis by (intro exI[of _ "Suc n"]) simp
    qed
    then show ?thesis using cs' False
      by (intro exI[of _ "c # cs'"] exI[of _ "if f = Reply then y else Inl infra_error"] exI[of _ ys])
        (auto simp: fs w1 r1)
  qed
qed

definition usable :: "(string \<Rightarrow> uuid option) \<Rightarrow> int \<Rightarrow> uuid \<Rightarrow> redis \<Rightarrow> bool" where
  "usable uuid_parse e m r \<longleftrightarrow> uuid_parse m = Some m
    \<and> (case hashes r (ownerKey e) m of None \<Rightarrow> False | Some uid \<Rightarrow> parse_int uid \<noteq> None)"

lemma admissions_usable:
  assumes "admissions issue uuid_parse e i (zip head owners) = Inr ts" "owners = map (hashes r (ownerKey e)) head"
    and "m \<in> set head" "usable uuid_parse e m r"
  shows "m \<in> fst ` set ts"
  using assms
proof (induction head arbitrary: i owners ts)
  case (Cons a head)
  show ?case
  proof (cases "a = m")
    case True
    then show ?thesis using Cons.prems
      by (auto simp: usable_def split: option.splits sum.splits)
  next
    case False
    then have m: "m \<in> set head" using Cons.prems(3) by simp
    have "\<exists>j ts'. admissions issue uuid_parse e j (zip head (map (hashes r (ownerKey e)) head)) = Inr ts' \<and> set ts' \<subseteq> set ts"
      using Cons.prems(1,2) by (fastforce split: option.splits sum.splits)
    then show ?thesis using Cons.IH[OF _ refl m Cons.prems(4)] by blast
  qed
qed simp

lemma setnx_frame [simp]: "zsets (fst (redis_setnx k v ttl r)) = zsets r" "hashes (fst (redis_setnx k v ttl r)) = hashes r"
  by (simp_all add: redis_setnx_def split: option.split)

lemma redis_get_members [simp]: "redis_get (zrem k ms r) = redis_get r" "redis_get (hdel k ms r) = redis_get r"
  by (simp_all add: fun_eq_iff redis_get_def zrem_def hdel_def split: option.split)

lemma queued_members [simp]:
  "queued e m (zrem (queueKey e) ms r) \<longleftrightarrow> queued e m r \<and> m \<notin> set ms" "queued e m (hdel k ms r) \<longleftrightarrow> queued e m r"
  by (auto simp: queued_def zrem_def hdel_def)

lemma fold_setnx:
  assumes "0 < ttl"
  defines "cmds \<equiv> map (\<lambda>(q, token) r. fst (redis_setnx (AdmittedKey q) token ttl r))"
  shows "zsets (fold (\<lambda>c. c) (cmds ts) r) = zsets r" "hashes (fold (\<lambda>c. c) (cmds ts) r) = hashes r"
    and "redis_get r k = Some v \<Longrightarrow> redis_get (fold (\<lambda>c. c) (cmds ts) r) k = Some v"
    and "q \<in> fst ` set ts \<Longrightarrow> admitted q (fold (\<lambda>c. c) (cmds ts) r)"
proof -
  show z: "zsets (fold (\<lambda>c. c) (cmds ts) r) = zsets r" "hashes (fold (\<lambda>c. c) (cmds ts) r) = hashes r"
    by (induction ts arbitrary: r) (auto simp: cmds_def)
  have keep: "redis_get (fold (\<lambda>c. c) (cmds ts) r) k = Some v" if "redis_get r k = Some v" for ts r k v
    using that
  proof (induction ts arbitrary: r)
    case (Cons t ts)
    obtain p tok where t: "t = (p, tok)" by (cases t)
    have "redis_get (fst (redis_setnx (AdmittedKey p) tok ttl r)) k = Some v" using Cons.prems assms(1) by auto
    then show ?case using Cons.IH t by (simp add: cmds_def)
  qed (simp add: cmds_def)
  then show "redis_get r k = Some v \<Longrightarrow> redis_get (fold (\<lambda>c. c) (cmds ts) r) k = Some v" .
  show "q \<in> fst ` set ts \<Longrightarrow> admitted q (fold (\<lambda>c. c) (cmds ts) r)"
  proof (induction ts arbitrary: r)
    case (Cons t ts)
    obtain p tok where t: "t = (p, tok)" by (cases t)
    let ?r = "fst (redis_setnx (AdmittedKey p) tok ttl r)"
    show ?case
    proof (cases "q = p")
      case True
      obtain v where "redis_get ?r (AdmittedKey q) = Some v" using assms(1) True by (cases "redis_get r (AdmittedKey p)") auto
      then show ?thesis using keep[of ?r "AdmittedKey q" v ts] by (simp add: t cmds_def admitted_def)
    next
      case False
      then show ?thesis using Cons t by (simp add: cmds_def)
    qed
  qed simp
qed

lemma lease_frame [simp]: "zsets (fst (lease_lua k i ms r)) = zsets r" "hashes (fst (lease_lua k i ms r)) = hashes r"
  by (simp_all add: lease_lua_def redis_pexpire_def redis_set_px_def split: option.split)

lemma admit_cmds_keep:
  assumes "0 < ttl" "queued e m r" "usable uuid_parse e m r"
    and "admissions issue uuid_parse e 0 (zip head (map (hashes r (ownerKey e)) head)) = Inr ts"
  shows "queued e m (fold (\<lambda>c. c) (take n (admit_cmds e ttl head ts)) r)
    \<or> admitted m (fold (\<lambda>c. c) (take n (admit_cmds e ttl head ts)) r)"
proof (cases "n \<le> length ts")
  case True
  then have "take n (admit_cmds e ttl head ts) = map (\<lambda>(q, token) r. fst (redis_setnx (AdmittedKey q) token ttl r)) (take n ts)"
    by (simp add: admit_cmds_def take_map)
  then show ?thesis using assms(2) fold_setnx(1)[OF assms(1)] by (simp add: queued_def)
next
  case False
  let ?s = "fold (\<lambda>c. c) (map (\<lambda>(q, token) r. fst (redis_setnx (AdmittedKey q) token ttl r)) ts) r"
  have rest: "\<exists>cs. take n (admit_cmds e ttl head ts) = map (\<lambda>(q, token) r. fst (redis_setnx (AdmittedKey q) token ttl r)) ts @ cs
      \<and> set cs \<subseteq> {zrem (queueKey e) head, hdel (ownerKey e) head}"
    using False set_take_subset[of "n - length ts" "[zrem (queueKey e) head, hdel (ownerKey e) head]"]
    by (auto simp: admit_cmds_def)
  then obtain cs where cs: "fold (\<lambda>c. c) (take n (admit_cmds e ttl head ts)) r = fold (\<lambda>c. c) cs ?s"
    "set cs \<subseteq> {zrem (queueKey e) head, hdel (ownerKey e) head}" by auto
  have keep: "(m \<notin> set head \<longrightarrow> queued e m s \<longrightarrow> queued e m (fold (\<lambda>c. c) cs s)) \<and> (admitted m s \<longrightarrow> admitted m (fold (\<lambda>c. c) cs s))" for s
    using cs(2)
    by (induction cs arbitrary: s) (auto simp: admitted_def)
  show ?thesis
  proof (cases "m \<in> set head")
    case True
    then have "m \<in> fst ` set ts" using admissions_usable[OF assms(4) refl _ assms(3)] by simp
    then show ?thesis using keep[of ?s] fold_setnx(4)[OF assms(1)] by (simp add: cs(1))
  next
    case False
    then show ?thesis using keep[of ?s] assms(2) fold_setnx(1)[OF assms(1)] by (simp add: cs(1) queued_def)
  qed
qed

text \<open>
  A round that succeeds carries out every command, one whose connection breaks the first few: in
  either case a waiting buyer is still waiting or has the token.
\<close>

lemma store_admissions_effect:
  assumes "run fs w (store_admissions issue ttl uuid_parse e head owners) = Some (w', x)"
  shows "rd w' = rd w \<and> (\<exists>er. x = Inl er) \<or> (\<exists>cs ts. admissions issue uuid_parse e 0 (zip head owners) = Inr ts
    \<and> rd w' = fold (\<lambda>c. c) cs (rd w) \<and> (\<forall>k. x = Inr k \<longrightarrow> cs = admit_cmds e ttl head ts \<and> k = int (length ts))
    \<and> (cut_off fs \<longrightarrow> (\<exists>n. cs = take n (admit_cmds e ttl head ts))))"
proof (cases "admissions issue uuid_parse e 0 (zip head owners)")
  case (Inl er)
  then show ?thesis using assms by (auto simp: store_admissions_def)
next
  case (Inr ts)
  let ?cmds = "admit_cmds e ttl head ts"
  from Inr assms obtain cs y ys where k: "run ys (w\<lparr>rd := fold (\<lambda>c. c) cs (rd w)\<rparr>)
      (case y of Inl er \<Rightarrow> Ret (Inl er) | Inr _ \<Rightarrow> Ret (Inr (int (length ts)))) = Some (w', x)"
    and cs: "y = Inr () \<longrightarrow> cs = ?cmds" "cut_off fs \<longrightarrow> (\<exists>n. cs = take n ?cmds)"
    by (auto simp: store_admissions_def dest!: run_pipelined)
  from k have "rd w' = fold (\<lambda>c. c) cs (rd w)" "\<forall>k. x = Inr k \<longrightarrow> y = Inr () \<and> k = int (length ts)"
    by (auto split: sum.splits)
  then show ?thesis using Inr cs by (intro disjI2 exI[of _ cs] exI[of _ ts]) auto
qed

lemma admit_head_effect:
  assumes "run fs w (admit_head issue ttl uuid_parse batch e) = Some (w', x)"
  shows "(rd w' = rd w \<and> (x = Inr 0 \<longrightarrow> zrange (queueKey e) (batch - 1) (rd w) = []) \<and> (\<forall>k. x = Inr k \<longrightarrow> k = 0))
    \<or> (\<exists>ys. run ys w (store_admissions issue ttl uuid_parse e (zrange (queueKey e) (batch - 1) (rd w))
          (map (hashes (rd w) (ownerKey e)) (zrange (queueKey e) (batch - 1) (rd w)))) = Some (w', x) \<and> (cut_off fs \<longrightarrow> cut_off ys))"
  using assms unfolding admit_head_def run_redis_read
  by (auto simp: run_redis_read split: if_splits)

lemma admit_keeps_buyer:
  assumes "0 < ttl" "queued e m (rd w)" "usable uuid_parse e m (rd w)" "cut_off fs \<or> (\<exists>k. x = Inr k)"
    and "run fs w (Admit issue ttl uuid_parse batch inst e) = Some (w', x)"
  shows "queued e m (rd w') \<or> admitted m (rd w')"
proof -
  obtain y ys w1 r1 where fs: "fs = y # ys" and l: "redis_outcome (lease_lua (lockKey e) inst leaseTTL) y w = (w1, r1)"
    and r: "run ys w1 (case r1 of Inl er \<Rightarrow> Ret (Inl er) | Inr got \<Rightarrow>
      if got \<noteq> 1 then Ret (Inr 0) else admit_head issue ttl uuid_parse batch e) = Some (w', x)"
    using assms(5) unfolding Admit_def run_bind_redis_call by blast
  have w1: "zsets (rd w1) = zsets (rd w)" "hashes (rd w1) = hashes (rd w)"
    using l by (cases y; auto simp: run_redis_def)+
  then have m: "queued e m (rd w1)" "usable uuid_parse e m (rd w1)"
    using assms(2,3) by (simp_all add: queued_def usable_def)
  have "rd w' = rd w1 \<or> run ys w1 (admit_head issue ttl uuid_parse batch e) = Some (w', x)"
    using r by (auto split: sum.splits if_splits)
  then consider "rd w' = rd w1" | zs head where "cut_off fs \<longrightarrow> cut_off zs"
    "run zs w1 (store_admissions issue ttl uuid_parse e head (map (hashes (rd w1) (ownerKey e)) head)) = Some (w', x)"
    using admit_head_effect cut_off_tl unfolding fs by blast
  then show ?thesis
  proof cases
    case 2
    then consider "rd w' = rd w1" | ts n where
      "admissions issue uuid_parse e 0 (zip head (map (hashes (rd w1) (ownerKey e)) head)) = Inr ts"
      "rd w' = fold (\<lambda>c. c) (take n (admit_cmds e ttl head ts)) (rd w1)"
      using store_admissions_effect[OF 2(2)] assms(4) by (metis take_all order_refl)
    then show ?thesis using m(1) by cases (auto dest: admit_cmds_keep[OF assms(1) m])
  qed (use m(1) in simp)
qed

text \<open>A successful round admits the head of the queue, in order, and the others move up.\<close>

lemma zrange_head: "0 < b \<Longrightarrow> zrange k (b - 1) r = map snd (take (nat b) (zsets r k))"
  by (simp add: zrange_def Let_def)

lemma zrem_head:
  assumes "distinct (map snd z)"
  shows "filter (\<lambda>e. snd e \<notin> set (map snd (take n z))) z = drop n z"
proof -
  have "filter (\<lambda>e. snd e \<notin> set (map snd (take n z))) (take n z) = []" by (auto simp: filter_empty_conv)
  moreover have "distinct (map snd (take n z) @ map snd (drop n z))"
    using assms by (simp flip: map_append)
  then have "filter (\<lambda>e. snd e \<notin> set (map snd (take n z))) (drop n z) = drop n z"
    by (auto simp: filter_id_conv)
  ultimately show ?thesis by (metis append_Nil append_take_drop_id filter_append)
qed

lemma admit_in_order:
  assumes "0 < ttl" "0 < batch" "zset_ok (zsets (rd w) (queueKey e))"
    and "run fs w (admit_head issue ttl uuid_parse batch e) = Some (w', Inr k)"
  shows "zsets (rd w') (queueKey e) = drop (nat batch) (zsets (rd w) (queueKey e))"
proof -
  let ?z = "zsets (rd w) (queueKey e)" and ?head = "zrange (queueKey e) (batch - 1) (rd w)"
  have d: "distinct (map snd ?z)" using assms(3) by (simp add: zset_ok_def)
  from admit_head_effect[OF assms(4)] show ?thesis
  proof
    assume "rd w' = rd w \<and> (Inr k = Inr 0 \<longrightarrow> ?head = []) \<and> (\<forall>j. Inr k = Inr j \<longrightarrow> j = 0)"
    then have "rd w' = rd w" "take (nat batch) ?z = []" using zrange_head[OF assms(2)] by auto
    then show ?thesis using assms(2) by auto
  next
    assume "\<exists>ys. run ys w (store_admissions issue ttl uuid_parse e ?head (map (hashes (rd w) (ownerKey e)) ?head)) = Some (w', Inr k)
      \<and> (cut_off fs \<longrightarrow> cut_off ys)"
    then obtain ys where "run ys w (store_admissions issue ttl uuid_parse e ?head (map (hashes (rd w) (ownerKey e)) ?head)) = Some (w', Inr k)"
      by blast
    from store_admissions_effect[OF this] obtain ts where
      "rd w' = fold (\<lambda>c. c) (admit_cmds e ttl ?head ts) (rd w)" by auto
    then have "zsets (rd w') (queueKey e) = filter (\<lambda>x. snd x \<notin> set ?head) ?z"
      using fold_setnx(1)[OF assms(1), of ts "rd w"] by (simp add: admit_cmds_def zrem_def hdel_def)
    then show ?thesis using zrem_head[OF d] by (simp only: zrange_head[OF assms(2)])
  qed
qed

section \<open>One instance admits\<close>

definition lease_take :: "string \<Rightarrow> string \<Rightarrow> redis \<Rightarrow> redis \<times> bool" where
  "lease_take k i r = (fst (lease_lua k i leaseTTL r), snd (lease_lua k i leaseTTL r) = Inr 1)"

lemma lease_take_get: "redis_get (fst (lease_take k i r)) k' =
    (if k' = k \<and> redis_get r k = None then Some i else redis_get r k')"
  by (auto simp: lease_take_def lease_lua_def redis_pexpire_def leaseTTL_def split: option.split)

lemma lease_take_ok: "snd (lease_take k i r) \<longleftrightarrow> redis_get r k = None \<or> redis_get r k = Some i"
  by (simp add: lease_take_def lease_lua_def split: option.split)

interpretation lease: exclusive lease_take
  by unfold_locales (auto simp: lease_take_get lease_take_ok)

section \<open>Guarantees\<close>

lemma guar_redis_read [guar_intros]: "reflp R \<Longrightarrow> guar (on_pg R) (redis_read f)"
  unfolding redis_read_def by (rule guar_redis_call)

lemma guar_pipelined [guar_intros]: "reflp R \<Longrightarrow> guar (on_pg R) (pipelined cs)"
  by (induction cs) (auto intro!: guar_intros guar_redis_call split: sum.split)

lemma guar_piped_read [guar_intros]: "reflp R \<Longrightarrow> guar (on_pg R) (piped_read f)"
  by (simp add: piped_read_def on_pg_def reflp_def)

lemma guar_queue_Status [guar_intros]: "reflp R \<Longrightarrow> guar (on_pg R) (queue_Status e q)"
  unfolding queue_Status_def by (intro guar_intros)

lemma guar_Join [guar_intros]: "reflp R \<Longrightarrow> guar (on_pg R) (Join uuid_parse e u new)"
  unfolding Join_def join_enter_def by (intro guar_intros guar_redis_call) simp_all

lemma guar_Admit [guar_intros]: "reflp R \<Longrightarrow> guar (on_pg R) (Admit issue ttl uuid_parse b i e)"
  unfolding Admit_def admit_head_def store_admissions_def by (intro guar_intros guar_redis_call) simp_all

lemma guar_Tick [guar_intros]: "reflp R \<Longrightarrow> guar (on_pg R) (Tick issue ttl uuid_parse b i)"
proof -
  assume R: "reflp R"
  have "guar (on_pg R) (tick_loop (Admit issue ttl uuid_parse b i) es tot)" for es tot
    by (induction es arbitrary: tot) (auto intro!: guar_intros R)
  then show ?thesis unfolding Tick_def OpenEventIDs_def
    by (intro guar_intros guar_begin_func keeps_catalog_reads R)
qed

section \<open>Where tokens come from\<close>

text \<open>The owners in the queues are users.\<close>

definition owners_ok :: "redis \<Rightarrow> bool" where
  "owners_ok r \<longleftrightarrow> (\<forall>e m v u. hashes r (ownerKey e) m = Some v \<and> parse_int v = Some u \<longrightarrow> 0 < u)"

text \<open>Every token in \<open>r'\<close> was in \<open>r\<close> or comes from the signer, for a user and one of the events E.\<close>

definition issued_from ::
  "(nat \<Rightarrow> int \<Rightarrow> int \<Rightarrow> uuid \<Rightarrow> string res) \<Rightarrow> (string \<Rightarrow> uuid option) \<Rightarrow> int set \<Rightarrow> redis \<Rightarrow> redis \<Rightarrow> bool" where
  "issued_from issue uuid_parse E r r' \<longleftrightarrow> (owners_ok r \<longrightarrow> owners_ok r' \<and>
    (\<forall>q tok. redis_get r' (AdmittedKey q) = Some tok \<longrightarrow> redis_get r (AdmittedKey q) = Some tok
      \<or> (\<exists>i u e m. issue i u e q = Inr tok \<and> 0 < u \<and> in_int64 u \<and> e \<in> E \<and> uuid_parse m = Some q)))"

lemma issued_from_refl [simp]: "issued_from issue uuid_parse E r r"
  by (simp add: issued_from_def)

lemma issued_from_trans:
  "issued_from issue uuid_parse E r r1 \<Longrightarrow> issued_from issue uuid_parse E r1 r2 \<Longrightarrow> issued_from issue uuid_parse E r r2"
  unfolding issued_from_def by meson

lemma admissions_issued:
  "admissions issue uuid_parse e i (zip head owners) = Inr ts \<Longrightarrow> (q, tok) \<in> set ts
    \<Longrightarrow> \<exists>j m v u. uuid_parse m = Some q \<and> Some v \<in> set owners \<and> parse_int v = Some u \<and> issue j u e q = Inr tok"
proof (induction head arbitrary: i owners ts)
  case (Cons m head)
  obtain own owns where o: "owners = own # owns" using Cons.prems by (cases owners) auto
  show ?case
  proof (cases "(q, tok) \<in> set ts \<and> (\<exists>p v u. uuid_parse m = Some p \<and> own = Some v \<and> parse_int v = Some u)")
    case True
    then obtain p v u where m: "uuid_parse m = Some p" "own = Some v" "parse_int v = Some u" by blast
    then obtain t ts' where t: "issue i u e p = Inr t" "admissions issue uuid_parse e (Suc i) (zip head owns) = Inr ts'" "ts = (p, t) # ts'"
      using Cons.prems(1) o by (auto split: sum.splits)
    then consider "q = p" "tok = t" | "(q, tok) \<in> set ts'" using Cons.prems(2) by auto
    then show ?thesis
    proof cases
      case 1
      then show ?thesis using m t(1) o by auto
    next
      case 2
      from Cons.IH[OF t(2) 2] show ?thesis by (auto simp: o)
    qed
  next
    case False
    then have "admissions issue uuid_parse e i (zip head owns) = Inr ts"
      using Cons.prems o by (auto split: option.splits sum.splits)
    from Cons.IH[OF this Cons.prems(2)] show ?thesis by (auto simp: o)
  qed
qed simp

lemma yields_pipelined:
  assumes "\<And>c r. c \<in> set cs \<Longrightarrow> issued_from issue uuid_parse E r (c r)"
  shows "yields (pipelined cs) w (\<lambda>w' _. pg w' = pg w \<and> issued_from issue uuid_parse E (rd w) (rd w'))"
  using assms
proof (induction cs arbitrary: w)
  case (Cons c cs)
  have "yields (redis_call (\<lambda>r. (c r, Inr ()))) w (\<lambda>w' _. pg w' = pg w \<and> issued_from issue uuid_parse E (rd w) (rd w'))"
    unfolding redis_call_def by (rule yields_mono[OF yields_call]) (auto simp: run_redis_def Cons.prems)
  then show ?case unfolding pipelined.simps
  proof (rule yields_bind, goal_cases)
    case (1 w1 x)
    have "yields (pipelined cs) w1 (\<lambda>w' _. pg w' = pg w1 \<and> issued_from issue uuid_parse E (rd w1) (rd w'))"
      by (rule Cons.IH) (simp add: Cons.prems)
    then show ?case by (rule yields_bind) (use 1 in \<open>auto intro: issued_from_trans\<close>)
  qed
qed simp

lemma parse_int_range: "parse_int v = Some u \<Longrightarrow> in_int64 u"
  by (auto simp: parse_int_def Let_def split: option.splits if_splits)

lemma setnx_got: "redis_get (fst (redis_setnx k v ttl r)) k' = Some t \<Longrightarrow> redis_get r k' = Some t \<or> k' = k \<and> t = v"
  by (auto simp: redis_setnx_def redis_get_def split: option.splits if_splits)

lemma AdmittedKey_eq [simp]: "AdmittedKey q = AdmittedKey q' \<longleftrightarrow> q = q'" "AdmittedKey q \<noteq> lockKey e"
  by (simp_all add: AdmittedKey_def lockKey_def)

lemma store_issued:
  assumes "e \<in> E" "\<forall>v u. Some v \<in> set owners \<and> parse_int v = Some u \<longrightarrow> 0 < u"
  shows "yields (store_admissions issue ttl uuid_parse e head owners) w
    (\<lambda>w' _. pg w' = pg w \<and> issued_from issue uuid_parse E (rd w) (rd w'))"
proof (cases "admissions issue uuid_parse e 0 (zip head owners)")
  case (Inr ts)
  have "issued_from issue uuid_parse E r (c r)" if c: "c \<in> set (admit_cmds e ttl head ts)" for c r
  proof -
    consider q tok where "(q, tok) \<in> set ts" "c = (\<lambda>r. fst (redis_setnx (AdmittedKey q) tok ttl r))"
      | "c = zrem (queueKey e) head" | "c = hdel (ownerKey e) head" using c by (auto simp: admit_cmds_def)
    then show ?thesis
    proof cases
      case 1
      obtain j m v u where "uuid_parse m = Some q" "0 < u" "in_int64 u" "issue j u e q = Inr tok"
        using admissions_issued[OF Inr 1(1)] assms(2) parse_int_range by metis
      then show ?thesis using assms(1) 1(2)
        by (auto simp: issued_from_def owners_ok_def dest!: setnx_got)
    next
      case 2
      then show ?thesis by (auto simp: issued_from_def owners_ok_def) (auto simp: zrem_def)
    next
      case 3
      then show ?thesis by (auto simp: issued_from_def owners_ok_def) (auto simp: hdel_def split: if_splits)
    qed
  qed
  then show ?thesis using Inr unfolding store_admissions_def
    by (auto intro!: yields_bind[OF yields_pipelined] split: sum.split)
qed (simp add: store_admissions_def)

lemma yields_redis_read: "yields (redis_read f) w (\<lambda>w' r. w' = w \<and> (r = Inl infra_error \<or> r = Inr (f (rd w))))"
  unfolding redis_read_def redis_call_def by (rule yields_mono[OF yields_call]) (auto simp: run_redis_def)

lemma lease_issued: "issued_from issue uuid_parse E r (fst (lease_lua (lockKey e) inst ms r))"
  by (auto simp: issued_from_def owners_ok_def) (auto simp: lease_lua_def redis_pexpire_def redis_get_set_px split: option.splits if_splits)

lemma Admit_issued:
  assumes "e \<in> E" "owners_ok (rd w)"
  shows "yields (Admit issue ttl uuid_parse batch inst e) w
    (\<lambda>w' _. pg w' = pg w \<and> issued_from issue uuid_parse E (rd w) (rd w'))"
proof -
  have head: "yields (admit_head issue ttl uuid_parse batch e) w1
      (\<lambda>w' _. pg w' = pg w1 \<and> issued_from issue uuid_parse E (rd w1) (rd w'))" if "owners_ok (rd w1)" for w1
  proof -
    have "\<forall>v u. Some v \<in> set (map (hashes (rd w1) (ownerKey e)) ms) \<and> parse_int v = Some u \<longrightarrow> 0 < u" for ms
      using that unfolding owners_ok_def by (metis imageE set_map)
    then show ?thesis unfolding admit_head_def
      by (auto intro!: yields_bind[OF yields_redis_read] store_issued[OF assms(1)] split: sum.split simp del: set_map)
  qed
  have "yields (redis_call (lease_lua (lockKey e) inst leaseTTL)) w
      (\<lambda>w' _. pg w' = pg w \<and> issued_from issue uuid_parse E (rd w) (rd w'))"
    unfolding redis_call_def by (rule yields_mono[OF yields_call]) (auto simp: run_redis_def lease_issued)
  then show ?thesis unfolding Admit_def
  proof (rule yields_bind, goal_cases)
    case (1 w1 x)
    then have "owners_ok (rd w1)" using assms(2) by (simp add: issued_from_def)
    then show ?case using 1
      by (auto intro!: yields_mono[OF head] intro: issued_from_trans split: sum.split)
  qed
qed

lemma tick_loop_issued:
  "set es \<subseteq> E \<Longrightarrow> owners_ok (rd w) \<Longrightarrow> yields (tick_loop (Admit issue ttl uuid_parse batch inst) es tot) w
    (\<lambda>w' _. issued_from issue uuid_parse E (rd w) (rd w'))"
proof (induction es arbitrary: w tot)
  case (Cons e es)
  have "yields (tick_loop (Admit issue ttl uuid_parse batch inst) es tot') w1 (\<lambda>w' _. issued_from issue uuid_parse E (rd w) (rd w'))"
    if "issued_from issue uuid_parse E (rd w) (rd w1)" for w1 tot'
  proof -
    have "owners_ok (rd w1)" using that Cons.prems(2) by (simp add: issued_from_def)
    then show ?thesis using Cons.prems(1) that by (intro yields_mono[OF Cons.IH]) (auto intro: issued_from_trans)
  qed
  then show ?case using Cons.prems unfolding tick_loop.simps
    by (intro yields_bind[OF Admit_issued[where E = E]]) (auto split: sum.split)
qed simp

lemma Tick_issued:
  assumes "owners_ok (rd w)"
  shows "yields (Tick issue ttl uuid_parse batch inst) w
    (\<lambda>w' _. issued_from issue uuid_parse (e_id ` set (events (pg w))) (rd w) (rd w'))"
proof -
  have "yields OpenEventIDs w (\<lambda>w' x. w' = w \<and> (\<forall>es. x = Inr es \<longrightarrow> set es \<subseteq> e_id ` set (events (pg w))))"
    unfolding OpenEventIDs_def begin_func_def
    by (rule yields_mono[OF yields_call]) (auto simp: run_tx_def ListOpenEventIDs_def tx_read_def)
  then show ?thesis unfolding Tick_def
    by (rule yields_bind) (auto intro!: tick_loop_issued assms split: sum.split)
qed

section \<open>What a buyer can rely on\<close>

text \<open>Two buyers in the queue of event 1, the first one's entry known under their user id.\<close>

definition two_waiting :: world where
  "two_waiting = (empty_world 9000000)\<lparr>rd := \<lparr>kv = [userKey 1 7 \<mapsto> (''a'', None)],
     zsets = (\<lambda>_. [])(queueKey 1 := [(1, ''a''), (5, ''b'')]),
     hashes = (\<lambda>_ _. None)(ownerKey 1 := [''a'' \<mapsto> ''7'', ''b'' \<mapsto> ''8'']), r_now = 9000000\<rparr>\<rparr>"

text \<open>
  C23. A round of the admission worker drops no buyer: after a round that succeeds, and
  after one whose connection to Redis breaks at any point, a buyer who was queued with a usable
  owner is still queued or has an admission token stored under their queue id.
\<close>

theorem waiting_buyer_kept:
  assumes "0 < ttl" "queued e m (rd w)" "usable uuid_parse e m (rd w)" "cut_off fs \<or> (\<exists>k. x = Inr k)"
    and "run fs w (Admit issue ttl uuid_parse batch inst e) = Some (w', x)"
  shows "queued e m (rd w') \<or> admitted m (rd w')"
  using assms by (rule admit_keeps_buyer)

lemma keys_apart [simp]: "lockKey e \<noteq> userKey e' u" "AdmittedKey q \<noteq> userKey e' u"
  by (simp_all add: lockKey_def AdmittedKey_def userKey_def queueKey_def)

lemma two_waiting_head:
  "queued 1 ''a'' (rd two_waiting)" "usable Some 1 ''a'' (rd two_waiting)" "zset_ok (zsets (rd two_waiting) (queueKey 1))"
  by (simp_all add: two_waiting_def queued_def usable_def zset_ok_def parse_int_def parse_nat_def in_int64_def is_digit_def digit_val_def)

lemma two_waiting_admit:
  "\<exists>w'. run [Reply, Reply, Reply, Reply, Reply, Reply] two_waiting (Admit (\<lambda>_ _ _ _. Inr ''jwt'') 60000 Some 1 ''i'' 1)
     = Some (w', Inr 1)"
proof -
  obtain u where "parse_int ''7'' = Some u" using two_waiting_head(2) by (auto simp: usable_def two_waiting_def)
  then show ?thesis
    by (simp add: two_waiting_def Admit_def admit_head_def redis_read_def store_admissions_def admit_cmds_def
        zrange_def lease_lua_def tx_defs redis_get_def redis_set_px_def)
qed

text \<open>Both ways a round can end: in full, and with the connection lost after the token was stored.\<close>

lemma two_waiting_cut:
  "\<exists>w'. run [Reply, Reply, Reply, Lost, Fail, Fail] two_waiting (Admit (\<lambda>_ _ _ _. Inr ''jwt'') 60000 Some 1 ''i'' 1)
     = Some (w', Inl infra_error)"
proof -
  obtain u where "parse_int ''7'' = Some u" using two_waiting_head(2) by (auto simp: usable_def two_waiting_def)
  then show ?thesis
    by (simp add: two_waiting_def Admit_def admit_head_def redis_read_def store_admissions_def admit_cmds_def
        zrange_def lease_lua_def tx_defs redis_get_def redis_set_px_def)
qed

theorem waiting_buyer_kept_witness:
  "\<exists>w' w''. run [Reply, Reply, Reply, Reply, Reply, Reply] two_waiting (Admit (\<lambda>_ _ _ _. Inr ''jwt'') 60000 Some 1 ''i'' 1)
      = Some (w', Inr 1) \<and> (queued 1 ''a'' (rd w') \<or> admitted ''a'' (rd w'))
    \<and> run [Reply, Reply, Reply, Lost, Fail, Fail] two_waiting (Admit (\<lambda>_ _ _ _. Inr ''jwt'') 60000 Some 1 ''i'' 1)
      = Some (w'', Inl infra_error) \<and> (queued 1 ''a'' (rd w'') \<or> admitted ''a'' (rd w''))"
proof -
  obtain w' where w': "run [Reply, Reply, Reply, Reply, Reply, Reply] two_waiting
      (Admit (\<lambda>_ _ _ _. Inr ''jwt'') 60000 Some 1 ''i'' 1) = Some (w', Inr 1)" using two_waiting_admit ..
  obtain w'' where w'': "run [Reply, Reply, Reply, Lost, Fail, Fail] two_waiting
      (Admit (\<lambda>_ _ _ _. Inr ''jwt'') 60000 Some 1 ''i'' 1) = Some (w'', Inl infra_error)" using two_waiting_cut ..
  show ?thesis
    using w' w'' waiting_buyer_kept[OF _ two_waiting_head(1,2) _ w'] waiting_buyer_kept[OF _ two_waiting_head(1,2) _ w''] by simp
qed

text \<open>
  A refusal is different: when Redis answers the storing of a token with an error and then
  carries out the rest of the pipeline, the buyer has neither a place nor a token.
\<close>

lemma refused_token_loses_buyer:
  "\<exists>w'. run [Reply, Reply, Reply, Fail, Reply, Reply] two_waiting (Admit (\<lambda>_ _ _ _. Inr ''jwt'') 60000 Some 1 ''i'' 1)
     = Some (w', Inl infra_error) \<and> \<not> queued 1 ''a'' (rd w') \<and> \<not> admitted ''a'' (rd w')"
proof -
  obtain u where "parse_int ''7'' = Some u" using two_waiting_head(2) by (auto simp: usable_def two_waiting_def)
  then show ?thesis
    by (simp add: two_waiting_def Admit_def admit_head_def redis_read_def store_admissions_def admit_cmds_def queued_def admitted_def
        zrange_def lease_lua_def tx_defs redis_get_def redis_set_px_def zrem_def hdel_def AdmittedKey_def lockKey_def userKey_def queueKey_def)
qed

text \<open>
  C24. The queue is first come, first served: a round that succeeds takes exactly the first
  \<open>batch\<close> entries off the queue or, without the lease or with nobody waiting, none at all. The
  entries that stay keep their order, and a round that reports admissions took the head.
\<close>

theorem admitted_from_the_head:
  assumes "0 < ttl" "0 < batch" "zset_ok (zsets (rd w) (queueKey e))"
    and "run fs w (Admit issue ttl uuid_parse batch inst e) = Some (w', Inr k)"
  shows "zsets (rd w') (queueKey e) = drop (nat batch) (zsets (rd w) (queueKey e))
    \<or> zsets (rd w') (queueKey e) = zsets (rd w) (queueKey e) \<and> k = 0"
proof -
  obtain y ys w1 r1 where l: "redis_outcome (lease_lua (lockKey e) inst leaseTTL) y w = (w1, r1)"
    and r: "run ys w1 (case r1 of Inl er \<Rightarrow> Ret (Inl er) | Inr got \<Rightarrow>
      if got \<noteq> 1 then Ret (Inr 0) else admit_head issue ttl uuid_parse batch e) = Some (w', Inr k)"
    using assms(4) unfolding Admit_def run_bind_redis_call by blast
  have w1: "zsets (rd w1) = zsets (rd w)" using l by (cases y) (auto simp: run_redis_def)
  have "w' = w1 \<and> k = 0 \<or> run ys w1 (admit_head issue ttl uuid_parse batch e) = Some (w', Inr k)"
    using r by (auto split: sum.splits if_splits)
  then show ?thesis using admit_in_order[OF assms(1,2), of w1 e ys] assms(3) w1 by auto
qed

theorem admitted_from_the_head_witness:
  "\<exists>w'. run [Reply, Reply, Reply, Reply, Reply, Reply] two_waiting (Admit (\<lambda>_ _ _ _. Inr ''jwt'') 60000 Some 1 ''i'' 1)
      = Some (w', Inr 1) \<and> zsets (rd w') (queueKey 1) = [(5, ''b'')]"
proof -
  obtain w' where r: "run [Reply, Reply, Reply, Reply, Reply, Reply] two_waiting
      (Admit (\<lambda>_ _ _ _. Inr ''jwt'') 60000 Some 1 ''i'' 1) = Some (w', Inr 1)" using two_waiting_admit ..
  moreover have "drop (nat 1) (zsets (rd two_waiting) (queueKey 1)) = [(5, ''b'')]" by (simp add: two_waiting_def)
  ultimately show ?thesis using admitted_from_the_head[OF _ _ two_waiting_head(3) r] by simp
qed

text \<open>
  A newcomer goes to the end: when the clock of Redis is past the scores in the queue, the
  join script gives a user without an entry the last position, tells them so, and every
  buyer who was waiting keeps their rank.
\<close>

theorem newcomer_is_last:
  assumes "zset_ok (zsets r (queueKey e))" "\<not> queued e new r" "redis_get r (userKey e u) = None"
    and "list_all (\<lambda>x. fst x < r_now r div 1000000) (zsets r (queueKey e))"
    and "join_lua e u new ttl spent r = (r', Inr (q, n))"
  shows "q = new \<and> n = int (length (zsets r (queueKey e))) \<and> zset_ok (zsets r' (queueKey e))
    \<and> (\<forall>m. queued e m r \<longrightarrow> zset_rank m (zsets r' (queueKey e)) = zset_rank m (zsets r (queueKey e)))"
proof -
  let ?z = "zsets r (queueKey e)" and ?s = "r_now r div 1000000"
  have z: "zsets r' (queueKey e) = zset_add ?s new ?z" "q = new"
    and n: "n = (case zset_rank new (zset_add ?s new ?z) of Some n \<Rightarrow> n | None \<Rightarrow> 0)"
    using assms(3,5) by (auto simp: join_lua_def join_new_def Let_def zadd_def hset_def redis_set_px_def)
  have lt: "x \<in> set ?z \<Longrightarrow> x < (?s, new)" for x using assms(4) by (cases x) (auto simp: list_all_iff)
  have new: "new \<notin> snd ` set ?z" using assms(2) by (simp add: queued_def)
  have "filter (\<lambda>x. x < (?s, new)) ?z = ?z" using lt by (simp add: filter_id_conv del: less_prod_simp)
  then have "n = int (length ?z)" using n zset_rank_new[OF assms(1) new, of ?s] by simp
  moreover have "zset_rank m (zset_add ?s new ?z) = zset_rank m ?z" if "queued e m r" for m
    using that lt zset_rank_old[OF assms(1) new] by (auto simp: queued_def simp del: less_prod_simp)
  ultimately show ?thesis using z zset_ok_add[OF assms(1)] by simp
qed

theorem newcomer_is_last_witness:
  "\<exists>r'. join_lua 1 9 ''c'' 60 '''' (rd two_waiting) = (r', Inr (''c'', 2))
    \<and> zset_rank ''b'' (zsets r' (queueKey 1)) = Some 1"
proof -
  have new: "\<not> queued 1 ''c'' (rd two_waiting)" "redis_get (rd two_waiting) (userKey 1 9) = None"
    "list_all (\<lambda>x. fst x < r_now (rd two_waiting) div 1000000) (zsets (rd two_waiting) (queueKey 1))"
    by (simp_all add: two_waiting_def queued_def redis_get_def userKey_def format_int_def)
  obtain r' q n where j: "join_lua 1 9 ''c'' 60 '''' (rd two_waiting) = (r', Inr (q, n))"
    using new(2) by (simp add: join_lua_def join_new_def Let_def)
  have "zsets (rd two_waiting) (queueKey 1) = [(1, ''a''), (5, ''b'')]" by (simp add: two_waiting_def)
  then show ?thesis using newcomer_is_last[OF two_waiting_head(3) new j] j by (auto simp: queued_def)
qed

text \<open>
  C25. Joining again is harmless: if a user's entry keeps its place in the queue, or its admission
  token, for as long as \<open>Join\<close> runs, then \<open>Join\<close> changes nothing in any store, and if it answers it
  answers with that entry. Other buyers and the worker may act between its commands, and the
  connection may break; no command is refused by Redis on its own.
\<close>

theorem joining_again:
  assumes "uuid_parse q = Some q" "stays = queued e q \<or> stays = admitted q"
    and "among (\<lambda>w. redis_get (rd w) (userKey e u) = Some q \<and> stays (rd w)) ts (Join uuid_parse e u new) x"
    and "list_all (\<lambda>(f, w, w'). f \<noteq> Fail) ts"
  shows "list_all (\<lambda>(f, w, w'). w' = w) ts \<and> (\<forall>en. x = Inr en \<longrightarrow> en_queue_id en = q)"
  using assms by (rule join_again)

text \<open>The first buyer joins again while a third one enters the queue.\<close>

definition three_waiting :: world where
  "three_waiting = two_waiting\<lparr>rd := fst (join_lua 1 9 ''c'' userKeyTTL [] (rd two_waiting))\<rparr>"

lemma three_waiting_facts:
  "zsets (rd three_waiting) (queueKey 1) = [(1, ''a''), (5, ''b''), (9, ''c'')]"
  "redis_get (rd three_waiting) (userKey 1 7) = Some ''a''"
  "redis_get (rd three_waiting) (AdmittedKey ''a'') = None"
  by (simp_all add: three_waiting_def two_waiting_def join_lua_def join_new_def Let_def redis_get_def userKey_def AdmittedKey_def
      queueKey_def format_int_def zadd_def hset_def redis_set_px_def zset_add_def userKeyTTL_def)

lemma joins_among_others:
  "among (\<lambda>w. redis_get (rd w) (userKey 1 7) = Some ''a'' \<and> queued 1 ''a'' (rd w))
    [(Reply, two_waiting, two_waiting), (Reply, three_waiting, three_waiting), (Reply, three_waiting, three_waiting),
     (Reply, three_waiting, three_waiting)]
    (Join Some 1 7 (Some ''d'')) (Inr \<lparr>en_queue_id = ''a'', en_position = 1\<rparr>)"
proof -
  have t: "redis_get (rd two_waiting) (userKey 1 7) = Some ''a''" by (simp add: two_waiting_def redis_get_def)
  have h: "queued 1 ''a'' (rd three_waiting)" by (simp add: queued_def three_waiting_facts)
  show ?thesis unfolding Join_def queue_Status_def
    by (simp add: among_redis_read among_piped_read bindp_assoc t h three_waiting_facts two_waiting_head(1) read_status_def)
qed

theorem joining_again_witness:
  "\<exists>en. among (\<lambda>w. redis_get (rd w) (userKey 1 7) = Some ''a'' \<and> queued 1 ''a'' (rd w))
    [(Reply, two_waiting, two_waiting), (Reply, three_waiting, three_waiting), (Reply, three_waiting, three_waiting),
     (Reply, three_waiting, three_waiting)]
    (Join Some 1 7 (Some ''d'')) (Inr en) \<and> en_queue_id en = ''a'' \<and> two_waiting \<noteq> three_waiting"
proof -
  have "zsets (rd two_waiting) (queueKey 1) \<noteq> zsets (rd three_waiting) (queueKey 1)"
    by (simp add: three_waiting_facts) (simp add: two_waiting_def)
  then have ne: "two_waiting \<noteq> three_waiting" by auto
  obtain en where j: "among (\<lambda>w. redis_get (rd w) (userKey 1 7) = Some ''a'' \<and> queued 1 ''a'' (rd w))
    [(Reply, two_waiting, two_waiting), (Reply, three_waiting, three_waiting), (Reply, three_waiting, three_waiting),
     (Reply, three_waiting, three_waiting)] (Join Some 1 7 (Some ''d'')) (Inr en)"
    using joins_among_others by blast
  then show ?thesis using joining_again[OF _ _ j] ne by auto
qed

text \<open>
  A refusal is different here too: with no token stored, an error reply to \<open>ZRANK\<close> alone passes for
  not being queued, and the waiting buyer is given a second entry at the back.
\<close>

lemma refused_rank_rejoins:
  "\<exists>w'. run [Reply, Reply, Reply, Fail, Reply] two_waiting (Join Some 1 7 (Some ''c''))
     = Some (w', Inr \<lparr>en_queue_id = ''c'', en_position = 3\<rparr>) \<and> queued 1 ''a'' (rd w')"
  by (simp add: two_waiting_def Join_def join_enter_def queue_Status_def redis_read_def tx_defs redis_get_def read_status_def
      errors_is_def join_lua_def join_new_def Let_def queued_def zadd_def hset_def redis_set_px_def zset_add_def
      AdmittedKey_def userKey_def queueKey_def format_int_def userKeyTTL_def)

text \<open>
  One instance admits at a time: once an instance has the lease of an event, no other
  instance is given it, however many try and in whatever order, until it expires.
\<close>

theorem one_admitting_instance:
  assumes "snd (lease_take k i r)" "j \<noteq> i"
  shows "\<not> snd (lease_take k j (fold (\<lambda>(k', c) r. fst (lease_take k' c r)) tries (fst (lease_take k i r))))"
  using assms by (rule lease.one_winner)

theorem one_admitting_instance_witness:
  "\<not> snd (lease_take ''k'' ''j'' (fst (lease_take ''k'' ''j'' (fst (lease_take ''k'' ''i'' (empty_redis 0))))))"
  using one_admitting_instance[of "''k''" "''i''" "empty_redis 0" "''j''" "[(''k'', ''j'')]"]
  by (simp add: lease_take_ok empty_redis_def redis_get_def)

end
