(* ===== verification/System.thy ===== *)
theory System
  imports Books Refinement Inventory_PG Inventory_Redis Queue
begin

text \<open>
  All programs of TicketRush running at once. Every handler is a program of atomic steps;
  \<open>handler\<close> lists the programs, on either inventory backend, and \<open>env\<close> what happens by
  itself: the clocks advance, and sequence values are lost by transactions that roll back.
  \<open>sys\<close> is what every step guarantees: Kafka's log grows and the database changes by ledger
  steps. The interpretation of the rely/guarantee interface makes \<open>books\<close> an invariant of
  every interleaving, faults and lost replies included.
\<close>

section \<open>What a step guarantees\<close>

definition safe :: "(uuid \<Rightarrow> string) \<Rightarrow> db \<Rightarrow> db \<Rightarrow> bool" where
  "safe qr d d' \<longleftrightarrow> (\<forall>K. refines qr K d d')"

definition sys :: "(uuid \<Rightarrow> string) \<Rightarrow> world \<Rightarrow> world \<Rightarrow> bool" where
  "sys qr w w' \<longleftrightarrow> set (kafka w) \<subseteq> set (kafka w') \<and> refines qr (set (kafka w)) (pg w) (pg w')"

definition sound :: "(uuid \<Rightarrow> string) \<Rightarrow> world \<Rightarrow> bool" where
  "sound qr w \<longleftrightarrow> books qr (set (kafka w)) (pg w)"

lemma reflp_safe [simp]: "reflp (safe qr)"
  by (simp add: safe_def reflp_def refines_def)

lemma transp_safe [simp]: "transp (safe qr)"
  unfolding safe_def transp_def using transpD[OF transp_refines] by blast

lemma safe_holds [simp]: "safe qr d (d\<lparr>seat_holds := h\<rparr>)"
  by (simp add: safe_def)

lemma keeps_safe: "(\<And>K. keeps (refines qr K) m) \<Longrightarrow> keeps (safe qr) m"
  by (simp add: keeps_def safe_def)

lemma safe_sys: "on_pg (safe qr) w w' \<Longrightarrow> sys qr w w'"
  by (simp add: on_pg_def safe_def sys_def)

lemma guar_sys: "guar (on_pg (safe qr)) p \<Longrightarrow> guar (sys qr) p"
  by (erule guar_mono) (rule safe_sys)

lemma sys_sound: "sound qr w \<Longrightarrow> sys qr w w' \<Longrightarrow> sound qr w'"
  unfolding sound_def sys_def using refines_books books_mono by blast

lemma guar_safe_tx [guar_intros]:
  "(\<And>now K. keeps (refines qr K) (body now)) \<Longrightarrow> guar (on_pg (safe qr)) (begin_func g body)"
  by (intro guar_begin_func keeps_safe) simp_all

lemma guar_safe_redis [guar_intros]: "guar (on_pg (safe qr)) (redis_call f)"
  by (simp add: guar_redis_call)

section \<open>The clients of an inventory\<close>

text \<open>What the handlers do to the database, for any inventory that keeps the contract.\<close>

context inventory_contract
begin

lemma safe_frames:
  "guar (on_pg (safe qr)) (inv_Hold iv e ss q ttl)" "guar (on_pg (safe qr)) (inv_Release iv e ss q)"
  "guar (on_pg (safe qr)) (inv_Confirm iv e ss q)" "guar (on_pg (safe qr)) (inv_Status iv e ss)"
  by (rule frame_on_pg, rule safe_holds)+

lemma safe_releaseSeats: "guar (on_pg (safe qr)) (releaseSeats iv e ss q)"
  unfolding releaseSeats_def by (intro guar_intros safe_frames)

lemma safe_findByKey: "guar (on_pg (safe qr)) (findByKey u k)"
  unfolding findByKey_def by (intro guar_intros keeps_intros)

lemma safe_claim_admission: "guar (on_pg (safe qr)) (claim_admission s adm i c)"
  unfolding claim_admission_def by (intro guar_intros) simp_all

lemma safe_create_rounds:
  assumes "svc_inv s = iv" "rq_seat_ids norm \<noteq> []"
  shows "guar (on_pg (safe qr)) (create_rounds n s u k h ev norm adm i c)"
proof (induction n arbitrary: c)
  case (Suc n)
  show ?case unfolding create_rounds.simps insertHeld_def assms(1)
    by (intro guar_intros safe_findByKey safe_claim_admission safe_frames safe_releaseSeats Suc
        refines_insertHeld assms(2))
qed simp

lemma safe_create_locked:
  assumes "svc_inv s = iv" "rq_seat_ids norm \<noteq> []"
  shows "guar (on_pg (safe qr)) (create_locked s u k h ev norm adm new)"
  unfolding create_locked_def unclaim_def
  by (intro guar_intros safe_create_rounds[OF assms]) simp_all

lemma safe_create:
  assumes "svc_inv s = iv"
  shows "guar (on_pg (safe qr)) (create s u k req adm token new)"
  unfolding create_def unlock_def Let_def
  by (intro guar_intros safe_findByKey safe_create_locked[OF assms]) (auto simp: normalize_Inr, metis set_empty set_sort)

lemma safe_Create: "svc_inv s = iv \<Longrightarrow> guar (on_pg (safe qr)) (Create s u k req token new)"
  unfolding Create_def by (rule safe_create)

lemma safe_CreateAdmitted: "svc_inv s = iv \<Longrightarrow> guar (on_pg (safe qr)) (CreateAdmitted s u k req adm token new)"
  unfolding CreateAdmitted_def by (intro guar_intros safe_create)

lemma safe_Cancel:
  assumes "svc_inv s = iv"
  shows "guar (on_pg (safe qr)) (Cancel s u i)"
  unfolding Cancel_def assms by (auto intro!: guar_intros keeps_intros safe_releaseSeats)

lemma safe_payment_begin: "guar (on_pg (safe qr)) (payment_begin gen p)"
proof -
  have "on_pg (safe qr) w (case payment_tx gen None p (pg_now w) (pg w) of
        Inl e \<Rightarrow> w
      | Inr (d, Decided res q after) \<Rightarrow> if x = Fail then w else w\<lparr>pg := d\<rparr>
      | Inr (d, NeedsHold q) \<Rightarrow> if x = Reply then payment_lock p w else w)" for x w
    using payment_tx_refines[of gen None p "pg_now w" "pg w"]
    by (auto simp: on_pg_def safe_def payment_lock_def refines_def split: sum.splits decision.splits)
  then show ?thesis by (simp add: payment_begin_def)
qed

lemma safe_payment_finish: "guar (on_pg (safe qr)) (payment_finish gen p answer now)"
proof -
  have "on_pg (safe qr) w (payment_unlock p (case payment_tx gen (Some answer) p now (pg w) of
        Inl e \<Rightarrow> w | Inr (d, dec) \<Rightarrow> if x = Fail then w else w\<lparr>pg := d\<rparr>))" for x w
    using payment_tx_refines[of gen "Some answer" p now "pg w"] payment_tx_answered[of gen answer p now "pg w"]
    by (fastforce simp: on_pg_def safe_def payment_unlock_def refines_def split: sum.splits)
  then show ?thesis by (simp add: payment_finish_def)
qed

lemma safe_after_payment:
  assumes "svc_inv s = iv"
  shows "guar (on_pg (safe qr)) (after_payment s dec)"
  unfolding after_payment_def assms
  by (auto intro!: guar_intros safe_frames safe_releaseSeats split: decision.split option.split)

lemma safe_ApplyPayment:
  assumes "svc_inv s = iv"
  shows "guar (on_pg (safe qr)) (ApplyPayment s gen p)"
  unfolding ApplyPayment_def assms
  by (auto intro!: guar_bind safe_payment_begin safe_payment_finish safe_after_payment[OF assms] safe_frames
      split: sum.split decision.split)

lemma safe_releaseExpired: "guar (on_pg (safe qr)) (releaseExpired iv qs)"
  unfolding releaseExpired_def Let_def release_one_def lock_statuses_def unlock_statuses_def
  by (auto intro!: guar_bind guar_each safe_releaseSeats reflpD[OF reflp_safe]
      split: sum.split option.split status.split simp: on_pg_def)

lemma safe_expiry: "guar (on_pg (safe qr)) (expiry_RunOnce iv)"
proof -
  have "guar (on_pg (safe qr)) expire_batch"
    unfolding expire_batch_def
  proof (rule guar_call)
    fix w
    show "on_pg (safe qr) w (fst (run_tx (expire_tx (locked_order w)) w))"
      using run_tx_pg[of "expire_tx (locked_order w)" w] keepsD[OF keeps_safe[OF refines_expire]] reflpD[OF reflp_safe]
      by (auto simp: on_pg_def)
  qed (simp add: reflp_on_pg)
  then show ?thesis unfolding expiry_RunOnce_def by (auto intro!: guar_intros safe_releaseExpired)
qed

lemma safe_SeatMap:
  assumes "\<And>f e. inv_SeatMapVersion iv = Some f \<Longrightarrow> guar (on_pg (safe qr)) (f e)"
  shows "guar (on_pg (safe qr)) (SeatMap iv n e)"
  unfolding SeatMap_def seat_map_status_def using assms by (auto intro!: guar_intros safe_frames)

end

section \<open>The relay\<close>

text \<open>
  A batch that was read keeps its identity: whatever has the id of one of its rows later is
  the same message. Together with the records in Kafka this is what the relay relies on when
  it marks the batch.
\<close>

definition batch_known :: "outbox_row list \<Rightarrow> world \<Rightarrow> bool" where
  "batch_known rows w \<longleftrightarrow> (\<forall>m\<in>set rows. ob_id m < outbox_seq (pg w)
     \<and> (\<forall>m'\<in>set (outbox (pg w)). ob_id m' = ob_id m \<longrightarrow> record_of m' = record_of m))"

lemma sound_ledger: "sound qr w \<Longrightarrow> ledger (pg w) \<and> schema (pg w)"
  by (simp add: sound_def books_def ledger_def)

lemma sys_same: "pg w' = pg w \<Longrightarrow> set (kafka w) \<subseteq> set (kafka w') \<Longrightarrow> sys qr w w'"
  by (simp add: sys_def refines_def)

lemma stable_batch_known: "stable_under (sound qr) (sys qr) (batch_known rows)"
proof (rule stableI)
  fix w w' assume w: "sound qr w" "batch_known rows w" "sys qr w w'"
  then have e: "outbox_evolves (pg w) (pg w')" using refines_outbox sound_ledger by (auto simp: sys_def)
  show "batch_known rows w'" unfolding batch_known_def
  proof (intro ballI conjI impI)
    fix m assume m: "m \<in> set rows"
    then show "ob_id m < outbox_seq (pg w')" using w(2) e by (force simp: batch_known_def outbox_evolves_def)
    fix m' assume m': "m' \<in> set (outbox (pg w'))" "ob_id m' = ob_id m"
    have "\<not> outbox_seq (pg w) \<le> ob_id m'" using w(2) m m'(2) by (auto simp: batch_known_def)
    then obtain m0 where "m0 \<in> set (outbox (pg w))" "ob_id m0 = ob_id m'" "record_of m0 = record_of m'"
      using e m'(1) by (auto simp: outbox_evolves_def)
    then show "record_of m' = record_of m" using w(2) m m'(2) by (auto simp: batch_known_def)
  qed
qed

lemma batch_known_read:
  assumes "sound qr w"
  shows "batch_known (relay_batch w) (w\<lparr>locks := l\<rparr>)"
proof -
  have sub: "set (relay_batch w) \<subseteq> set (outbox (pg w))"
    unfolding relay_batch_def unpublished_def using set_take_subset by fastforce
  have "schema (pg w)" using assms by (simp add: sound_ledger)
  then have "\<forall>m\<in>set (outbox (pg w)). ob_id m < outbox_seq (pg w)" by (simp add: schema_def schema_outbox_def)
  moreover have "m' = m" if "m \<in> set (relay_batch w)" "m' \<in> set (outbox (pg w))" "ob_id m' = ob_id m" for m m'
    using sub that by (intro schema_outbox_eq[OF \<open>schema (pg w)\<close>]) auto
  ultimately show ?thesis using sub by (auto simp: batch_known_def)
qed

lemma stable_produced: "stable_under I (sys qr) (\<lambda>w. R \<subseteq> set (kafka w))"
  by (rule stableI) (auto simp: sys_def)

lemma rg_ProduceSync:
  assumes "stable_under I (sys qr) A" "\<And>w r. A w \<Longrightarrow> A (w\<lparr>kafka := kafka w @ [r]\<rparr>)"
  shows "rg I (sys qr) (\<lambda>r w. A w \<and> (\<forall>u. r = Inr u \<longrightarrow> set rs \<subseteq> set (kafka w))) (ProduceSync rs) A"
  using assms
proof (induction rs arbitrary: A)
  case (Cons r rs)
  let ?B = "\<lambda>x w. A w \<and> (\<forall>u. x = Inr u \<longrightarrow> {r} \<subseteq> set (kafka w))"
  have B: "stable_under I (sys qr) (?B x)" for x
    using Cons.prems(1) stable_produced[of I qr "{r}"] unfolding stable_under_def by blast
  have p: "rg I (sys qr) ?B (produce r) A"
    unfolding produce_def call_when_def
  proof (rule rg_step)
    fix x w
    show "sys qr w (if x = Fail then w else fst (w\<lparr>kafka := kafka w @ [r]\<rparr>, Inr ()))" by (auto intro: sys_same)
    assume "A w"
    then show "\<exists>Q'. stable_under I (sys qr) Q' \<and> Q' (if x = Fail then w else fst (w\<lparr>kafka := kafka w @ [r]\<rparr>, Inr ()))
      \<and> rg I (sys qr) ?B (Ret (if x = Reply then snd (w\<lparr>kafka := kafka w @ [r]\<rparr>, Inr ()) else Inl infra_error)) Q'"
      using Cons.prems(2) by (intro exI[of _ "?B (if x = Reply then Inr () else Inl infra_error)"] conjI, intro B) auto
  qed
  have q: "rg I (sys qr) (\<lambda>y w. ?B x w \<and> (\<forall>u. y = Inr u \<longrightarrow> set rs \<subseteq> set (kafka w))) (ProduceSync rs) (?B x)" for x
    using B Cons.prems(2) by (intro Cons.IH) auto
  show ?case
    unfolding ProduceSync.simps by (rule rg_bind[OF p], rule rg_bind[OF q]) (auto split: sum.splits)
qed simp


lemma relay_end_safe:
  assumes "batch_known rows w" "record_of ` set rows \<subseteq> set (kafka w)" "ids = map ob_id rows"
  shows "sys qr w (relay_unlock ids (fst (run_tx (\<lambda>_. MarkPublished now ids) w)))"
proof -
  have "\<forall>m\<in>set (outbox (pg w)). ob_id m \<in> set ids \<longrightarrow> record_of m \<in> set (kafka w)"
    using assms by (force simp: batch_known_def)
  from refines_mark[OF this] show ?thesis
    by (auto simp: sys_def relay_unlock_def run_tx_def MarkPublished_def)
qed

lemma rg_relay_end:
  assumes "ids = map ob_id rows"
  shows "rg (sound qr) (sys qr) (\<lambda>_ _. True) (relay_end ids now r)
    (\<lambda>w. batch_known rows w \<and> (\<forall>u. r = Inr u \<longrightarrow> record_of ` set rows \<subseteq> set (kafka w)))"
  unfolding relay_end_def
proof (rule rg_step)
  fix x w
  assume a: "batch_known rows w \<and> (\<forall>u. r = Inr u \<longrightarrow> record_of ` set rows \<subseteq> set (kafka w))"
  have "sys qr w (relay_unlock ids w)" by (rule sys_same) (simp_all add: relay_unlock_def)
  then show "sys qr w (relay_unlock ids (case r of Inl e \<Rightarrow> w
      | Inr _ \<Rightarrow> if x = Fail then w else fst (run_tx (\<lambda>_. MarkPublished now ids) w)))"
    using a relay_end_safe[OF _ _ assms, of w qr now] by (auto split: sum.split)
qed (auto intro: exI[of _ "\<lambda>_. True"])

lemma rg_relay_RunOnce: "rg (sound qr) (sys qr) (\<lambda>_ _. True) relay_RunOnce (\<lambda>_. True)"
  unfolding relay_RunOnce_def
proof (rule rg_bind)
  let ?T = "\<lambda>r w. case r of Inl e \<Rightarrow> True | Inr (rows, now) \<Rightarrow> batch_known rows w"
  show "rg (sound qr) (sys qr) ?T relay_lock (\<lambda>_. True)"
    unfolding relay_lock_def
  proof (rule rg_step)
    fix x w assume "sound qr w"
    let ?w = "if x = Reply then w\<lparr>locks := map (\<lambda>m. OutboxRow (ob_id m)) (relay_batch w) @ locks w\<rparr> else w"
    show "sys qr w ?w" by (rule sys_same) auto
    show "\<exists>Q'. stable_under (sound qr) (sys qr) Q' \<and> Q' ?w
      \<and> rg (sound qr) (sys qr) ?T (Ret (if x = Reply then Inr (relay_batch w, pg_now w) else Inl infra_error)) Q'"
      using batch_known_read[OF \<open>sound qr w\<close>] stable_batch_known
      by (intro exI[of _ "if x = Reply then batch_known (relay_batch w) else (\<lambda>_. True)"]) auto
  qed
  fix r
  show "rg (sound qr) (sys qr) (\<lambda>_ _. True) (case r of Inl e \<Rightarrow> Ret (Inl e)
     | Inr (rows, now) \<Rightarrow> if rows = [] then Ret (Inr 0)
         else bindp (ProduceSync (map record_of rows)) (relay_end (map ob_id rows) now)) (?T r)"
  proof (cases r)
    case (Inr rn)
    obtain rows now where r: "r = Inr (rows, now)" using Inr by (cases rn) auto
    have "rg (sound qr) (sys qr) (\<lambda>r w. batch_known rows w \<and> (\<forall>u. r = Inr u \<longrightarrow> set (map record_of rows) \<subseteq> set (kafka w)))
        (ProduceSync (map record_of rows)) (batch_known rows)"
      by (rule rg_ProduceSync[OF stable_batch_known]) (simp add: batch_known_def)
    then have "rg (sound qr) (sys qr) (\<lambda>_ _. True)
        (bindp (ProduceSync (map record_of rows)) (relay_end (map ob_id rows) now)) (batch_known rows)"
      unfolding set_map by (rule rg_bind) (rule rg_relay_end[OF refl])
    then show ?thesis by (simp add: r)
  qed simp
qed

lemma guar_Cleanup: "guar (on_pg (safe qr)) (Cleanup n tot)"
  by (induction n arbitrary: tot) (auto intro!: guar_intros keeps_intros)

lemma rg_relay_turn: "rg (sound qr) (sys qr) (\<lambda>_ _. True) (relay_turn due n) (\<lambda>_. True)"
  unfolding relay_turn_def
  by (rule rg_bind[OF rg_relay_RunOnce], rule guar_rg, rule guar_sys) (auto intro!: guar_intros guar_Cleanup)

section \<open>The handlers\<close>

text \<open>
  What the gateway does happens outside: no step of a call to it changes the world. The
  result of a handler goes to the client, so a program here ends with the unit value.
\<close>

definition external :: "gateway \<Rightarrow> bool" where
  "external gw \<longleftrightarrow> (\<forall>i txn amount. guar (\<lambda>w w'. w' = w) (gw i txn amount))"

definition handled :: "('w, 'a) prog \<Rightarrow> ('w, unit) prog" where
  "handled p = bindp p (\<lambda>_. Ret ())"

inductive handler :: "string \<Rightarrow> (world, unit) prog \<Rightarrow> bool" for secret where
  h_create: "svc_inv s \<in> {NewPG, NewRedis} \<Longrightarrow> handler secret (handled (Create s uid key req token new))"
| h_create_admitted: "svc_inv s \<in> {NewPG, NewRedis}
    \<Longrightarrow> handler secret (handled (CreateAdmitted s uid key req adm token new))"
| h_get: "handler secret (handled (Get uid oid))"
| h_cancel: "svc_inv s \<in> {NewPG, NewRedis} \<Longrightarrow> handler secret (handled (Cancel s uid oid))"
| h_payment: "svc_inv s \<in> {NewPG, NewRedis} \<Longrightarrow> handler secret (handled (ApplyPayment s gen p))"
| h_expiry: "iv \<in> {NewPG, NewRedis} \<Longrightarrow> handler secret (handled (expiry_RunOnce iv))"
| h_issue: "handler secret (handled (Issue secret oid))"
| h_tickets: "handler secret (handled (Tickets uid oid))"
| h_refund: "external gw \<Longrightarrow> handler secret (handled (Process gw txn))"
| h_relay: "handler secret (handled (relay_turn due n))"
| h_seed: "handler secret (handled (Seed new sp))"
| h_event: "handler secret (handled (Event n eid))"
| h_seat_map: "iv \<in> {NewPG, NewRedis} \<Longrightarrow> handler secret (handled (SeatMap iv n eid))"
| h_join: "handler secret (handled (Join uuid_parse eid uid fresh))"
| h_queue_status: "handler secret (handled (queue_Status eid qid))"
| h_queue_length: "handler secret (handled (queue_Length eid))"
| h_tick: "handler secret (handled (Tick issue ttl uuid_parse batch inst))"

text \<open>Time passes, and a transaction that rolled back leaves a gap in the outbox sequence.\<close>

inductive env :: "world \<Rightarrow> world \<Rightarrow> bool" where
  env_pg_clock: "pg_now w \<le> t \<Longrightarrow> env w (w\<lparr>pg_now := t\<rparr>)"
| env_redis_clock: "r_now (rd w) \<le> t \<Longrightarrow> env w (w\<lparr>rd := rd w\<lparr>r_now := t\<rparr>\<rparr>)"
| env_sequence: "outbox_seq (pg w) \<le> n \<Longrightarrow> env w (w\<lparr>pg := pg w\<lparr>outbox_seq := n\<rparr>\<rparr>)"

text \<open>A fresh deployment: migrated tables and an empty log; Redis and the clocks are arbitrary.\<close>

definition fresh_world :: "world \<Rightarrow> bool" where
  "fresh_world w \<longleftrightarrow> pg w = empty_db (outbox_seq (pg w)) \<and> kafka w = []"

lemma books_empty: "books qr {} (empty_db n)"
  by (simp add: books_def ledger_def schema_def schema_orders_def schema_order_seats_def schema_tickets_def
      schema_money_def schema_outbox_def empty_db_def orders_ok_def balance_def sum_by_def delivered_def
      qr_ok_def announced_def order_ids_def)

lemma safe_reads:
  "guar (on_pg (safe qr)) (Get uid oid)" "guar (on_pg (safe qr)) (Tickets uid oid)"
  "guar (on_pg (safe qr)) (Seed new sp)" "guar (on_pg (safe (Payload secret))) (Issue secret oid)"
  "guar (on_pg (safe qr)) (queue_Length eid)"
  unfolding Get_def Tickets_def Seed_def Issue_def queue_Length_def by (intro guar_intros keeps_intros reflp_safe)+

lemma safe_SeatMapVersion: "guar (on_pg (safe qr)) (SeatMapVersion eid)"
  unfolding SeatMapVersion_def by (intro guar_intros)

lemma safe_Process:
  assumes "external gw"
  shows "guar (on_pg (safe qr)) (Process gw txn)"
proof -
  have "guar (on_pg (safe qr)) (gw i t a)" for i t a
  proof (rule guar_mono)
    show "guar (\<lambda>w w'. w' = w) (gw i t a)" using assms by (simp add: external_def)
  qed (simp add: on_pg_def reflpD[OF reflp_safe])
  then show ?thesis unfolding Process_def by (intro guar_intros keeps_intros)
qed

lemma safe_handled: "guar R p \<Longrightarrow> guar R (handled p)"
  unfolding handled_def by (intro guar_intros)

lemma handler_guar:
  assumes "handler secret p"
  shows "rg (sound (Payload secret)) (sys (Payload secret)) (\<lambda>_ _. True) p (\<lambda>_. True)"
  using assms
proof cases
  case (h_relay due n)
  then show ?thesis unfolding handled_def by (auto intro: rg_bind[OF rg_relay_turn])
next
  case (h_create s uid key req token new)
  then show ?thesis using pg_inv.safe_Create redis_inv.safe_Create by (blast intro: guar_rg guar_sys safe_handled)
next
  case (h_create_admitted s uid key req adm token new)
  then show ?thesis using pg_inv.safe_CreateAdmitted redis_inv.safe_CreateAdmitted by (blast intro: guar_rg guar_sys safe_handled)
next
  case (h_cancel s uid oid)
  then show ?thesis using pg_inv.safe_Cancel redis_inv.safe_Cancel by (blast intro: guar_rg guar_sys safe_handled)
next
  case (h_payment s gen p)
  then show ?thesis using pg_inv.safe_ApplyPayment redis_inv.safe_ApplyPayment by (blast intro: guar_rg guar_sys safe_handled)
next
  case (h_expiry iv)
  then show ?thesis using pg_inv.safe_expiry redis_inv.safe_expiry by (blast intro: guar_rg guar_sys safe_handled)
next
  case (h_seat_map iv n eid)
  have "guar (on_pg (safe (Payload secret))) (SeatMap iv n eid)"
    using h_seat_map(2) pg_inv.safe_SeatMap[of "Payload secret" n eid] redis_inv.safe_SeatMap[of "Payload secret" n eid]
      safe_SeatMapVersion by (auto simp: NewPG_def NewRedis_def)
  then show ?thesis using h_seat_map by (auto intro: guar_rg guar_sys safe_handled)
qed (auto intro!: guar_rg guar_sys safe_handled safe_reads safe_Process guar_Event guar_Join guar_queue_Status guar_Tick)

interpretation ticketrush: rely_guarantee "{p. handler secret p}" env fresh_world
  "sys (Payload secret)" "sound (Payload secret)" for secret
proof unfold_locales
  fix p assume "p \<in> {p. handler secret p}"
  then show "rg (sound (Payload secret)) (sys (Payload secret)) (\<lambda>_ _. True) p (\<lambda>_. True)"
    by (simp add: handler_guar)
next
  fix w w' assume "env w w'"
  then show "sys (Payload secret) w w'"
  proof cases
    case (env_sequence n)
    then show ?thesis using skip_id[of "pg w" n "Payload secret" "set (kafka w)"] by (auto simp: sys_def refines_def)
  qed (auto intro: sys_same)
next
  fix w assume "fresh_world w"
  then show "sound (Payload secret) w" unfolding fresh_world_def sound_def
    by (metis list.set(1) books_empty)
next
  fix w w' assume "sound (Payload secret) w" "sys (Payload secret) w w'"
  then show "sound (Payload secret) w'" by (rule sys_sound)
qed

text \<open>The worlds some interleaving of the handlers, with any faults, leads to.\<close>

definition reachable :: "string \<Rightarrow> world \<Rightarrow> bool" where
  "reachable secret w \<longleftrightarrow> (\<exists>ps. reach {p. handler secret p} env fresh_world w ps)"

lemma reachable_books: "reachable secret w \<Longrightarrow> books (Payload secret) (set (kafka w)) (pg w)"
  using ticketrush.reach_inv by (auto simp: reachable_def sound_def)

lemma reachable_ledger: "reachable secret w \<Longrightarrow> ledger (pg w) \<and> schema (pg w)"
  using reachable_books by (auto simp: books_def ledger_def)

end
