(* ===== verification/Scenario.thy ===== *)
theory Scenario
  imports System
begin

text \<open>
  One sale from a fresh deployment: an event is seeded, a buyer orders a seat, the gateway's
  webhook arrives, the ticket is issued and the relay delivers the events. Every world here is
  reached by running the handlers of the model; the theorems about all interleavings are
  applied to them.
\<close>

section \<open>A run alone is an interleaving\<close>

lemma reach_run:
  assumes "reach P E I w (ps @ p # qs)" "run fs w p = Some (w', a)"
  shows "reach P E I w' (ps @ Ret a # qs)"
  using assms
proof (induction p arbitrary: fs w)
  case (Step g e c)
  obtain x xs where fs: "fs = x # xs" "g w" "run xs (e x w) (c x w) = Some (w', a)"
    using Step.prems(2) by (cases fs) (auto split: if_splits)
  show ?case by (rule Step.IH) (use Step.prems(1) fs reach_step in auto)
qed simp

lemma run_handled: "run fs w p = Some (w', a) \<Longrightarrow> run fs w (handled p) = Some (w', ())"
proof (induction p arbitrary: fs w)
  case (Step g e c)
  then show ?case by (cases fs) (auto simp: handled_def split: if_splits)
qed (simp add: handled_def)

lemma reachable_run:
  assumes "reachable secret w" "handler secret (handled p)" "run fs w p = Some (w', a)"
  shows "reachable secret w'"
proof -
  obtain ps where "reach {p. handler secret p} env fresh_world w ([] @ handled p # ps)"
    using assms(1,2) reach_start[where p = "handled p"] by (fastforce simp: reachable_def)
  from reach_run[OF this run_handled[OF assms(3)]] show ?thesis by (auto simp: reachable_def)
qed

section \<open>The sale\<close>

definition shop :: world where
  "shop = empty_world 1000"

definition gala :: EventSpec where
  "gala = \<lparr>sp_name = ''Gala'', sp_venue = ''Hall'', sp_starts_in = 5000, sp_sale_opens_in = 0,
     sp_max_seats_per_order = 4, sp_zones = [\<lparr>zl_zone = ''A'', zl_rows = 1, zl_seats_per_row = 1, zl_price_vnd = 500\<rparr>]\<rparr>"

definition booking :: service where
  "booking = \<lparr>svc_process = 0, svc_inv = NewPG, svc_holdTTL = 600, svc_holdGrace = 60, svc_admissions = None\<rparr>"

definition gala_db :: db where
  "gala_db = (empty_db 1)\<lparr>events := [\<lparr>e_id = 1, e_name = ''Gala'', e_venue = ''Hall'', e_starts_at = 6000,
      e_sale_opens_at = 1000, e_max_seats_per_order = 4\<rparr>],
    seats := [\<lparr>s_event_id = 1, s_seat_id = ''A-A-1'', s_zone = ''A'', s_row_label = ''A'', s_seat_no = 1, s_price_vnd = 500\<rparr>]\<rparr>"

lemma gala_seats [simp]: "Seats gala = [\<lparr>seat_id = ''A-A-1'', seat_zone = ''A'', seat_row_label = ''A'', seat_no = 1, seat_price_vnd = 500\<rparr>]"
  by code_simp

lemma gala_seeded: "run [Reply] shop (Seed 1 gala) = Some (shop\<lparr>pg := gala_db\<rparr>, Inr 1)"
  unfolding Seed_def run_begin_func
  by (simp add: run_tx_def seed_tx_def tx_bind_def tx_return_def CreateEvent_def InsertSeats_def seed_rows_def s_key_def
      shop_def empty_world_def empty_redis_def empty_db_def gala_db_def int32_def, simp add: gala_def)

definition gala_event :: event where
  "gala_event = \<lparr>event_id = 1, event_name = ''Gala'', event_venue = ''Hall'', event_starts_at = 6000,
     event_sale_opens_at = 1000, event_max_seats_per_order = 4,
     event_zones = [\<lparr>zone_name = ''A'', zone_price_vnd = 500, zone_seats = 1\<rparr>],
     event_seats = [\<lparr>seat_id = ''A-A-1'', seat_zone = ''A'', seat_row_label = ''A'', seat_no = 1, seat_price_vnd = 500\<rparr>],
     event_seat_ids = [''A-A-1''], event_by_id = [''A-A-1'' \<mapsto> 0]\<rparr>"

lemma gala_loaded: "db_event gala_db 1 = Some gala_event"
  by (simp add: db_event_def gala_db_def gala_event_def build_event_def setSeats_def add_to_zones_def layout_seat_def)

definition order_id :: uuid where
  "order_id = ''11111111-1111-1111-1111-111111111111''"

definition gala_request :: CreateRequest where
  "gala_request = \<lparr>rq_event_id = 1, rq_seat_ids = [''A-A-1'']\<rparr>"

definition ticket_id :: uuid where
  "ticket_id = ''22222222-2222-2222-2222-222222222222''"

definition gala_order :: "status \<Rightarrow> order_row" where
  "gala_order st = \<lparr>o_id = order_id, o_event_id = 1, o_user_id = 7, o_status = st, o_total_vnd = 500,
     o_idempotency_key = ''k'', o_request_hash = requestHash gala_request, o_hold_expires_at = 1600,
     o_created_at = 1000, o_updated_at = 1000\<rparr>"

definition gala_message :: "int \<Rightarrow> string \<Rightarrow> string \<Rightarrow> outbox_row" where
  "gala_message n topic ty = \<lparr>ob_id = n, ob_topic = topic, ob_msg_key = order_id, ob_event_type = ty,
     ob_payload = \<lparr>ev_event_id = n, ev_event_type = ty, ev_occurred_at = 1000, ev_order_id = order_id,
       ev_event = 1, ev_user_id = 7, ev_seat_ids = [''A-A-1''], ev_total_vnd = 500,
       ev_provider_txn_id = [], ev_amount_vnd = 0, ev_reason = []\<rparr>,
     ob_created_at = 1000, ob_published_at = None\<rparr>"

definition ordered_db :: db where
  "ordered_db = gala_db\<lparr>orders := [gala_order StatusHeld],
     order_seats := [\<lparr>os_order_id = order_id, os_event_id = 1, os_seat_id = ''A-A-1'', os_price_vnd = 500\<rparr>],
     outbox := [gala_message 1 TopicOrders OrderHeld], outbox_seq := 2,
     seat_holds := [\<lparr>h_event_id = 1, h_seat_id = ''A-A-1'', h_order_id = order_id, h_expires_at = 1660\<rparr>]\<rparr>"

definition gala_webhook :: Webhook where
  "gala_webhook = \<lparr>wh_provider_txn_id = ''fp_1'', wh_order_id = order_id, wh_amount_vnd = 500,
     wh_status = StatusSucceeded, wh_paid_at = 1000\<rparr>"

definition gala_ticket :: "string option \<Rightarrow> time option \<Rightarrow> ticket_row" where
  "gala_ticket qr t = \<lparr>t_id = ticket_id, t_order_id = order_id, t_event_id = 1, t_seat_id = ''A-A-1'',
     t_qr_payload = qr, t_issued_at = t\<rparr>"

definition paid_db :: db where
  "paid_db = ordered_db\<lparr>orders := [gala_order StatusPaid], tickets := [gala_ticket None None],
     payments := [\<lparr>p_provider_txn_id = ''fp_1'', p_order_id = order_id, p_amount_vnd = 500,
       p_status = ''SUCCEEDED'', p_outcome = ''APPLIED'', p_received_at = 1000\<rparr>],
     outbox := [gala_message 1 TopicOrders OrderHeld, gala_message 2 TopicOrders OrderPaid], outbox_seq := 3,
     seat_holds := []\<rparr>"

definition issued_db :: "string \<Rightarrow> db" where
  "issued_db secret = paid_db\<lparr>orders := [gala_order StatusTicketed],
     tickets := [gala_ticket (Some (Payload secret ticket_id)) (Some 1000)],
     outbox := [gala_message 1 TopicOrders OrderHeld, gala_message 2 TopicOrders OrderPaid,
       gala_message 3 TopicTickets TicketIssued], outbox_seq := 4\<rparr>"

text \<open>The buyer pays a second time, and the money goes back.\<close>

definition second_webhook :: Webhook where
  "second_webhook = gala_webhook\<lparr>wh_provider_txn_id := ''fp_2''\<rparr>"

definition gala_refund :: "string \<Rightarrow> time option \<Rightarrow> refund_row" where
  "gala_refund st t = \<lparr>r_provider_txn_id = ''fp_2'', r_order_id = order_id, r_amount_vnd = 500,
     r_reason = ReasonDoublePayment, r_status = st, r_created_at = 1000, r_completed_at = t\<rparr>"

definition refund_message :: "int \<Rightarrow> string \<Rightarrow> outbox_row" where
  "refund_message n ty = (gala_message n TopicOrders ty)\<lparr>ob_payload := (ob_payload (gala_message n TopicOrders ty))
     \<lparr>ev_provider_txn_id := ''fp_2'', ev_amount_vnd := 500, ev_reason := ReasonDoublePayment\<rparr>\<rparr>"

definition twice_db :: "string \<Rightarrow> db" where
  "twice_db secret = (issued_db secret)\<lparr>payments := payments paid_db @ [\<lparr>p_provider_txn_id = ''fp_2'', p_order_id = order_id,
       p_amount_vnd = 500, p_status = ''SUCCEEDED'', p_outcome = ''REFUND_REQUIRED'', p_received_at = 1000\<rparr>],
     refunds := [gala_refund ''PENDING'' None],
     outbox := outbox (issued_db secret) @ [refund_message 4 OrderRefundRequested], outbox_seq := 5\<rparr>"

definition refunded_db :: "string \<Rightarrow> db" where
  "refunded_db secret = (twice_db secret)\<lparr>refunds := [gala_refund ''SUCCEEDED'' (Some 1000)],
     outbox := outbox (twice_db secret) @ [refund_message 5 OrderRefunded], outbox_seq := 6\<rparr>"

definition delivered_db :: "string \<Rightarrow> db" where
  "delivered_db secret = (refunded_db secret)\<lparr>outbox :=
     map (\<lambda>m. m\<lparr>ob_published_at := Some 1000\<rparr>) (outbox (refunded_db secret))\<rparr>"

text \<open>A world of the sale: the tables, no transaction open, the clock at the start.\<close>

definition at_sale :: "db \<Rightarrow> world \<Rightarrow> bool" where
  "at_sale d w \<longleftrightarrow> pg w = d \<and> pg_now w = 1000 \<and> locks w = [] \<and> kafka w = []"

lemmas sale_defs = gala_db_def empty_db_def ordered_db_def paid_db_def issued_db_def gala_order_def gala_message_def
  gala_ticket_def gala_webhook_def gala_request_def booking_def second_webhook_def gala_refund_def refund_message_def
  twice_db_def refunded_db_def delivered_db_def

lemmas event_defs = writeOrderEvent_def writeEvent_def Write_def InsertMessage_def fromRow_def orderEvent_def ord_seat_ids_def

lemma seed_run: "\<exists>fs w a. run fs shop (Seed 1 gala) = Some (w, a) \<and> w = shop\<lparr>pg := gala_db\<rparr>"
  using gala_seeded by blast

lemma order_run:
  "\<exists>fs w a. run fs (shop\<lparr>pg := gala_db\<rparr>) (Create booking 7 ''k'' gala_request ''token'' (Some order_id)) = Some (w, a)
     \<and> at_sale ordered_db w"
  by (rule exI[of _ "replicate 13 Reply"])
    (simp add: at_sale_def Create_def create_def Event_def load_def SaleOpen_def tx_defs one_row_def shop_def empty_world_def empty_redis_def event_defs
     GetEvent_def ListSeats_def IsSaleOpen_def cache_event_def cache_sale_open_def numeral_eq_Suc
     normalize_def build_event_def setSeats_def add_to_zones_def layout_seat_def Seat_def TryLock_def redis_setnx_def
     redis_get_def create_locked_def findByKey_def GetOrderByKey_def errors_is_def claim_admission_def Let_def
     NewPG_def pg_Hold_def pg_hold_tx_def LockSeats_def TakenSeats_def live_holds_def event_tickets_def UpsertHolds_def
     upsert_rows_def insertHeld_def insertHeld_tx_def seat_prices_def InsertHeldOrder_def InsertOrderSeats_def
     order_seat_rows_def unlock_def redisx_unlock_def unlock_lua_def os_key_def h_key_def sale_defs int64_id in_int64_def)

lemmas payment_defs = ApplyPayment_def payment_begin_def payment_unlocked_def payment_tx_def LockOrderForPayment_def
  InsertPayment_def ListOrderSeats_def decide_def Let_def sell_def insertTickets_def ticket_ids_def
  InsertTickets_def ticket_rows_def t_key_def pay_def moveTo_def transition_def TransitionOrder_def CanTransition_def
  update_where_def record_outcome_def SetPaymentOutcome_def after_payment_def NewPG_def pg_Confirm_def
  CountOrderTickets_def DeleteHolds_def event_tickets_def delete_where_def StatusSucceeded_def StatusFailed_def
  refund_def InsertRefund_def no_work_def

lemma payment_run:
  assumes "at_sale ordered_db w"
  shows "\<exists>fs w' res. run fs w (ApplyPayment booking (\<lambda>_. Some ticket_id) gala_webhook) = Some (w', Inr res) \<and> at_sale paid_db w'"
  using assms
  by (intro exI[of _ "replicate 3 Reply"], cases w)
    (simp add: at_sale_def payment_defs tx_defs one_row_def event_defs numeral_eq_Suc sale_defs)

lemma payment_again_run:
  assumes "at_sale paid_db w"
  shows "\<exists>fs w' res. run fs w (ApplyPayment booking (\<lambda>_. Some ticket_id) gala_webhook) = Some (w', Inr res)"
  using assms
  by (intro exI[of _ "replicate 3 Reply"], cases w)
    (simp add: at_sale_def payment_defs tx_defs one_row_def event_defs numeral_eq_Suc sale_defs)

lemma issue_tx_sale: "issue_tx secret order_id 1000 paid_db = Inr (issued_db secret, StatusTicketed)"
  by (simp add: issue_tx_def tx_defs one_row_def event_defs GetOrderForUpdate_def ListOrderTickets_def
      set_qr_def SetTicketQR_def transition_def TransitionOrder_def CanTransition_def update_where_def ListOrderSeats_def
      Let_def sale_defs)

lemma issue_run:
  assumes "at_sale paid_db w"
  shows "\<exists>fs w' a. run fs w (Issue secret order_id) = Some (w', a) \<and> at_sale (issued_db secret) w'"
  using assms
  by (intro exI[of _ "[Reply]"]) (simp add: at_sale_def Issue_def order_unlocked_def begin_func_def run_tx_def issue_tx_sale)

lemma second_payment_run:
  assumes "at_sale (issued_db secret) w"
  shows "\<exists>fs w' a. run fs w (ApplyPayment booking (\<lambda>_. Some ticket_id) second_webhook) = Some (w', a)
    \<and> at_sale (twice_db secret) w'"
  using assms
  by (intro exI[of _ "[Reply]"], cases w) (simp add: at_sale_def payment_defs tx_defs one_row_def event_defs sale_defs)

lemma refund_run:
  assumes "at_sale (twice_db secret) w"
  shows "\<exists>fs w' a. run fs w (Process (\<lambda>_ _ _. Ret (Inr ())) ''fp_2'') = Some (w', a) \<and> at_sale (refunded_db secret) w'"
  using assms
  by (intro exI[of _ "[Reply, Reply]"], cases w)
    (simp add: at_sale_def Process_def GetRefund_def RefundSucceeded_def refund_unlocked_def RefundPending_def order_unlocked_def
      complete_tx_def CompleteRefund_def GetOrderForUpdate_def ListOrderSeats_def refunded_event_def Let_def update_where_def
      tx_defs one_row_def event_defs sale_defs)

lemma relay_run:
  assumes "at_sale (refunded_db secret) w"
  shows "\<exists>fs w' a. run fs w (relay_turn False 0) = Some (w', a)
    \<and> pg w' = delivered_db secret \<and> kafka w' = map record_of (outbox (refunded_db secret))"
  using assms
  by (intro exI[of _ "replicate 7 Reply"], cases w)
    (simp add: at_sale_def relay_turn_def relay_RunOnce_def relay_lock_def relay_batch_def unpublished_def outbox_locked_def
      RelayBatchSize_def produce_def relay_end_def relay_unlock_def run_tx_def MarkPublished_def update_where_def numeral_eq_Suc sale_defs)

lemma booking_backend: "svc_inv booking \<in> {NewPG, NewRedis}"
  by (simp add: booking_def)

lemma sale_begun: "\<exists>w. reachable secret w \<and> at_sale ordered_db w"
proof -
  have "reachable secret shop"
    using reach_init[of fresh_world shop] by (auto simp: reachable_def fresh_world_def shop_def empty_world_def empty_db_def)
  then have "reachable secret (shop\<lparr>pg := gala_db\<rparr>)" by (rule reachable_run[OF _ h_seed gala_seeded])
  then show ?thesis using order_run reachable_run[OF _ h_create[OF booking_backend]] by blast
qed

lemma sale_paid: "\<exists>w. reachable secret w \<and> at_sale paid_db w"
  using sale_begun[of secret] payment_run reachable_run[OF _ h_payment[OF booking_backend]] by blast

lemma sale_paid_twice: "\<exists>w. reachable secret w \<and> at_sale (twice_db secret) w"
proof -
  obtain w1 where "reachable secret w1" "at_sale paid_db w1" using sale_paid by blast
  then obtain w2 where "reachable secret w2" "at_sale (issued_db secret) w2"
    using issue_run[of w1 secret] reachable_run[OF _ h_issue] by blast
  then show ?thesis using second_payment_run[of secret w2] reachable_run[OF _ h_payment[OF booking_backend]] by blast
qed

lemma sale_refunded: "\<exists>w. reachable secret w \<and> at_sale (refunded_db secret) w"
proof -
  have "external (\<lambda>_ _ _. Ret (Inr ()))" by (simp add: external_def)
  then show ?thesis using sale_paid_twice[of secret] refund_run[of secret] reachable_run[OF _ h_refund] by blast
qed

lemma sale_delivered:
  "\<exists>w. reachable secret w \<and> pg w = delivered_db secret \<and> kafka w = map record_of (outbox (refunded_db secret))"
  using sale_refunded[of secret] relay_run[of secret] reachable_run[OF _ h_relay] by blast

section \<open>The requests repeated\<close>

lemma create_again_run:
  "\<exists>w' q. run (replicate 11 Reply) (shop\<lparr>pg := ordered_db\<rparr>) (create booking 7 ''k'' gala_request None ''token'' (Some ticket_id))
     = Some (w', Inr (q, False))"
  by (simp add: create_def Event_def load_def SaleOpen_def tx_defs one_row_def shop_def empty_world_def empty_redis_def
     GetEvent_def ListSeats_def IsSaleOpen_def cache_event_def cache_sale_open_def numeral_eq_Suc
     normalize_def build_event_def setSeats_def add_to_zones_def layout_seat_def Seat_def TryLock_def redis_setnx_def
     redis_get_def create_locked_def findByKey_def GetOrderByKey_def Let_def ListOrderSeats_def
     unlock_def redisx_unlock_def unlock_lua_def sale_defs)

theorem key_is_used_once_witness:
  "\<exists>w' q. run (replicate 11 Reply) (shop\<lparr>pg := ordered_db\<rparr>) (create booking 7 ''k'' gala_request None ''token'' (Some ticket_id))
     = Some (w', Inr (q, False)) \<and> pg w' = ordered_db \<and> ord_id q = order_id"
proof -
  obtain w' q where r: "run (replicate 11 Reply) (shop\<lparr>pg := ordered_db\<rparr>)
      (create booking 7 ''k'' gala_request None ''token'' (Some ticket_id)) = Some (w', Inr (q, False))"
    using create_again_run by blast
  have "by_key 7 ''k'' (pg (shop\<lparr>pg := ordered_db\<rparr>)) = Some (gala_order StatusHeld)"
    by (simp add: ordered_db_def gala_order_def)
  from key_is_used_once[OF this r] r show ?thesis by (simp add: gala_order_def)
qed

theorem applied_only_in_full_witness:
  "\<exists>d' res q after. payment_tx (\<lambda>_. Some ticket_id) None gala_webhook 1000 ordered_db = Inr (d', Decided res q after)
     \<and> pr_outcome res = OutcomeApplied \<and> wh_amount_vnd gala_webhook = o_total_vnd (gala_order StatusHeld)"
proof -
  obtain d' res q after where r: "payment_tx (\<lambda>_. Some ticket_id) None gala_webhook 1000 ordered_db
      = Inr (d', Decided res q after)" "pr_outcome res = OutcomeApplied"
    by (simp add: payment_defs tx_defs one_row_def event_defs numeral_eq_Suc sale_defs)
  have "row_by o_id (wh_order_id gala_webhook) (orders ordered_db) = Some (gala_order StatusHeld)"
    by (simp add: ordered_db_def gala_order_def gala_webhook_def)
  then show ?thesis using applied_only_in_full[OF r] r by auto
qed

end
