(* ===== verification/Json.thy ===== *)
theory Json
  imports Request
begin

text \<open>
  The JSON the services write: values as a datatype, the text \<open>json.Marshal\<close> makes of them, and
  times in the form of RFC 3339 with the nanoseconds that are not zero. Object fields are
  listed in the order of the struct.
\<close>

datatype json = JNull | JBool bool | JNum int | JStr string | JArr "json list" | JObj "(string \<times> json) list"

text \<open>The parts with commas between them.\<close>

fun commas :: "string list \<Rightarrow> string" where
  "commas [] = []"
| "commas [a] = a"
| "commas (a # b # bs) = a @ '','' @ commas (b # bs)"

fun json_text :: "json \<Rightarrow> string" where
  "json_text JNull = ''null''"
| "json_text (JBool b) = (if b then ''true'' else ''false'')"
| "json_text (JNum n) = format_int n"
| "json_text (JStr s) = json_string s"
| "json_text (JArr vs) = ''['' @ commas (map json_text vs) @ '']''"
| "json_text (JObj fs) = ''{'' @ commas (map (\<lambda>(k, v). json_string k @ '':'' @ json_text v) fs) @ ''}''"

section \<open>Times\<close>

definition padded :: "nat \<Rightarrow> int \<Rightarrow> string" where
  "padded w n = (let d = digits_of (nat n) in replicate (w - length d) CHR ''0'' @ d)"

text \<open>Year, month and day of a number of days since 1970-01-01 in the Gregorian calendar.\<close>

definition civil :: "int \<Rightarrow> int \<times> int \<times> int" where
  "civil days =
    (let z = days + 719468; era = z div 146097; doe = z mod 146097;
         yoe = (doe - doe div 1460 + doe div 36524 - doe div 146096) div 365;
         doy = doe - (365 * yoe + yoe div 4 - yoe div 100); mp = (5 * doy + 2) div 153;
         d = doy - (153 * mp + 2) div 5 + 1; m = (if mp < 10 then mp + 3 else mp - 9);
         y = yoe + era * 400 + (if m \<le> 2 then 1 else 0)
     in (y, m, d))"

definition rfc3339 :: "time \<Rightarrow> string" where
  "rfc3339 t =
    (let s = t div 1000000000; ns = t mod 1000000000; sod = s mod 86400;
         frac = rev (dropWhile (\<lambda>c. c = CHR ''0'') (rev (padded 9 ns)))
     in case civil (s div 86400) of (y, m, d) \<Rightarrow>
       padded 4 y @ ''-'' @ padded 2 m @ ''-'' @ padded 2 d @ ''T'' @ padded 2 (sod div 3600) @ '':''
       @ padded 2 (sod div 60 mod 60) @ '':'' @ padded 2 (sod mod 60) @ (if ns = 0 then [] else ''.'' @ frac) @ ''Z'')"

definition JTime :: "time \<Rightarrow> json" where
  "JTime t = JStr (rfc3339 t)"

lemma civil_examples: "civil 0 = (1970, 1, 1)" "civil 11016 = (2000, 2, 29)" "civil 19675 = (2023, 11, 14)" "civil (- 1) = (1969, 12, 31)"
  by code_simp+

text \<open>The texts of two numbers are equal only if the numbers are.\<close>

lemma json_num_inject [simp]: "json_text (JNum a) = json_text (JNum b) \<longleftrightarrow> a = b"
  by (simp add: format_int_inject)

end
