(* ===== verification/Auth.thy ===== *)
theory Auth
  imports Admission
begin

text \<open>
  Access tokens and admission tokens, \<open>internal/auth\<close>. The JWT library and \<open>uuid.Parse\<close> are
  third-party code and parameters here: \<open>sign secret claims\<close> is \<open>SignedString\<close> with HS256, and
  \<open>parse secret now token\<close> is \<open>ParseWithClaims\<close> with the options the source passes (HS256
  only, an expiry is required, the clock). \<open>jwt_library\<close> states what their documentation
  promises. Claims hold times in whole seconds.

  The lemmas show that a verified token names the user, event, queue entry and id it was
  issued for, and that no expired token is verified.
\<close>

record claims =
  cl_subject :: string
  cl_id :: string
  cl_issued_at :: "int option"
  cl_expires_at :: "int option"
  cl_eid :: int
  cl_qid :: string

type_synonym jwt_sign = "string \<Rightarrow> claims \<Rightarrow> string option"
type_synonym jwt_parse = "string \<Rightarrow> time \<Rightarrow> string \<Rightarrow> claims option"

text \<open>\<open>jwt.NewNumericDate\<close> cuts an instant down to the second.\<close>

definition second :: int where "second = 1000000000"

definition NewNumericDate :: "time \<Rightarrow> int" where
  "NewNumericDate t = t div second"

section \<open>Access tokens\<close>

definition AccessTokenTTL :: duration where
  "AccessTokenTTL = 24 * 3600 * second"

record Tokens =
  tk_secret :: string
  tk_ttl :: duration

definition Tokens_Issue :: "jwt_sign \<Rightarrow> Tokens \<Rightarrow> time \<Rightarrow> int \<Rightarrow> string res" where
  "Tokens_Issue sign t now uid =
    (case sign (tk_secret t) \<lparr>cl_subject = format_int uid, cl_id = '''', cl_issued_at = Some (NewNumericDate now),
        cl_expires_at = Some (NewNumericDate (now + tk_ttl t)), cl_eid = 0, cl_qid = ''''\<rparr> of
       None \<Rightarrow> Inl [Opaque ''sign access token'']
     | Some signed \<Rightarrow> Inr signed)"

definition Tokens_Verify :: "jwt_parse \<Rightarrow> Tokens \<Rightarrow> time \<Rightarrow> string \<Rightarrow> int res" where
  "Tokens_Verify parse t now token =
    (case parse (tk_secret t) now token of
       None \<Rightarrow> Inl [ErrUnauthorized, Opaque ''token'']
     | Some c \<Rightarrow> (case parse_int (cl_subject c) of
         None \<Rightarrow> Inl [ErrUnauthorized]
       | Some uid \<Rightarrow> if uid \<le> 0 then Inl [ErrUnauthorized] else Inr uid))"

section \<open>Admission tokens\<close>

record AdmissionTokens =
  at_secret :: string
  at_ttl :: duration

text \<open>\<open>jti\<close> is what the random generator gives, \<open>None\<close> when it fails.\<close>

definition Admission_Issue ::
  "jwt_sign \<Rightarrow> AdmissionTokens \<Rightarrow> time \<Rightarrow> uuid option \<Rightarrow> int \<Rightarrow> int \<Rightarrow> uuid \<Rightarrow> (string \<times> admission) res" where
  "Admission_Issue sign t now jti uid eid qid =
    (case jti of
       None \<Rightarrow> Inl [Opaque ''generate jti'']
     | Some j \<Rightarrow>
         let exp = (now + at_ttl t) div second * second in
         (case sign (at_secret t) \<lparr>cl_subject = format_int uid, cl_id = j, cl_issued_at = None,
             cl_expires_at = Some (NewNumericDate exp), cl_eid = eid, cl_qid = qid\<rparr> of
            None \<Rightarrow> Inl [Opaque ''sign admission token'']
          | Some signed \<Rightarrow> Inr (signed, \<lparr>adm_user_id = uid, adm_event_id = eid, adm_queue_id = qid, adm_jti = j,
              adm_expires_at = exp\<rparr>)))"

definition Admission_Verify ::
  "jwt_parse \<Rightarrow> (string \<Rightarrow> uuid option) \<Rightarrow> AdmissionTokens \<Rightarrow> time \<Rightarrow> string \<Rightarrow> admission res" where
  "Admission_Verify parse uuid_parse t now token =
    (case parse (at_secret t) now token of
       None \<Rightarrow> Inl [ErrInvalidAdmission, Opaque ''token'']
     | Some c \<Rightarrow> (case parse_int (cl_subject c) of
         None \<Rightarrow> Inl [ErrInvalidAdmission]
       | Some uid \<Rightarrow>
           if uid \<le> 0 then Inl [ErrInvalidAdmission]
           else (case uuid_parse (cl_id c) of
             None \<Rightarrow> Inl [ErrInvalidAdmission]
           | Some jti \<Rightarrow> (case uuid_parse (cl_qid c) of
               None \<Rightarrow> Inl [ErrInvalidAdmission]
             | Some qid \<Rightarrow>
                 if cl_eid c \<le> 0 then Inl [ErrInvalidAdmission]
                 else Inr \<lparr>adm_user_id = uid, adm_event_id = cl_eid c, adm_queue_id = qid, adm_jti = jti,
                   adm_expires_at = (case cl_expires_at c of None \<Rightarrow> 0 | Some s \<Rightarrow> s * second)\<rparr>))))"

section \<open>What a token proves\<close>

text \<open>The library gives back the claims it signed, until they expire.\<close>

definition jwt_library :: "jwt_sign \<Rightarrow> jwt_parse \<Rightarrow> bool" where
  "jwt_library sign parse \<longleftrightarrow> (\<forall>k c tok now. sign k c = Some tok \<longrightarrow> parse k now tok =
     (case cl_expires_at c of None \<Rightarrow> None | Some e \<Rightarrow> if now < e * second then Some c else None))"

lemma div_second: "t div second * second \<le> t" "t < t div second * second + second"
  using div_mult_mod_eq[of t 1000000000] pos_mod_bound[of 1000000000 t] pos_mod_sign[of 1000000000 t]
  unfolding second_def by linarith+

lemma admission_verifies:
  assumes "jwt_library sign parse"
    and "0 < uid" "in_int64 uid" "0 < eid" "uuid_parse qid = Some qid" "uuid_parse j = Some j"
    and "Admission_Issue sign t now (Some j) uid eid qid = Inr (tok, adm)"
  shows "adm = \<lparr>adm_user_id = uid, adm_event_id = eid, adm_queue_id = qid, adm_jti = j,
      adm_expires_at = (now + at_ttl t) div second * second\<rparr>"
    and "Admission_Verify parse uuid_parse t later tok
      = (if later < adm_expires_at adm then Inr adm else Inl [ErrInvalidAdmission, Opaque ''token''])"
proof -
  let ?e = "(now + at_ttl t) div second"
  define c where "c = \<lparr>cl_subject = format_int uid, cl_id = j, cl_issued_at = None,
    cl_expires_at = Some ?e, cl_eid = eid, cl_qid = qid\<rparr>"
  show adm: "adm = \<lparr>adm_user_id = uid, adm_event_id = eid, adm_queue_id = qid, adm_jti = j, adm_expires_at = ?e * second\<rparr>"
    using assms(7) by (auto simp: Admission_Issue_def Let_def split: option.splits)
  have "sign (at_secret t) c = Some tok"
    using assms(7) by (auto simp: Admission_Issue_def Let_def NewNumericDate_def second_def c_def split: option.splits)
  then have "parse (at_secret t) later tok = (if later < ?e * second then Some c else None)"
    using assms(1) by (auto simp: jwt_library_def c_def)
  then show "Admission_Verify parse uuid_parse t later tok
      = (if later < adm_expires_at adm then Inr adm else Inl [ErrInvalidAdmission, Opaque ''token''])"
    using assms(2-6) by (simp add: Admission_Verify_def c_def parse_format_int adm)
qed

text \<open>
  C37. A token admits whom it was issued to, and only in time: an admission token verified
  before it expires gives back the user, event, queue entry, id and expiry it was issued with,
  an access token its user, and from their expiry on both are refused. The expiry of an
  admission is its time to live from now, cut to the second.
\<close>

theorem token_names_its_owner:
  assumes "jwt_library sign parse"
    and "0 < uid" "in_int64 uid" "0 < eid" "uuid_parse qid = Some qid" "uuid_parse j = Some j"
    and "Admission_Issue sign t now (Some j) uid eid qid = Inr (tok, adm)" "Tokens_Issue sign tk now uid = Inr acc"
  shows "adm_expires_at adm \<le> now + at_ttl t \<and> now + at_ttl t < adm_expires_at adm + second
    \<and> adm_user_id adm = uid \<and> adm_event_id adm = eid
    \<and> Admission_Verify parse uuid_parse t later tok
      = (if later < adm_expires_at adm then Inr adm else Inl [ErrInvalidAdmission, Opaque ''token''])
    \<and> Tokens_Verify parse tk later acc
      = (if later < NewNumericDate (now + tk_ttl tk) * second then Inr uid else Inl [ErrUnauthorized, Opaque ''token''])"
proof -
  have adm: "adm = \<lparr>adm_user_id = uid, adm_event_id = eid, adm_queue_id = qid, adm_jti = j,
      adm_expires_at = (now + at_ttl t) div second * second\<rparr>"
    and "Admission_Verify parse uuid_parse t later tok
      = (if later < adm_expires_at adm then Inr adm else Inl [ErrInvalidAdmission, Opaque ''token''])"
    using admission_verifies[OF assms(1-7)] by blast+
  moreover define c' where "c' = \<lparr>cl_subject = format_int uid, cl_id = [], cl_issued_at = Some (NewNumericDate now),
      cl_expires_at = Some (NewNumericDate (now + tk_ttl tk)), cl_eid = 0, cl_qid = []\<rparr>"
  have "sign (tk_secret tk) c' = Some acc" using assms(8) by (simp add: Tokens_Issue_def c'_def split: option.splits)
  then have "parse (tk_secret tk) later acc = (if later < NewNumericDate (now + tk_ttl tk) * second then Some c' else None)"
    using assms(1) by (auto simp: jwt_library_def c'_def)
  then have "Tokens_Verify parse tk later acc
      = (if later < NewNumericDate (now + tk_ttl tk) * second then Inr uid else Inl [ErrUnauthorized, Opaque ''token''])"
    using assms(2,3) by (simp add: Tokens_Verify_def c'_def parse_format_int)
  ultimately show ?thesis using div_second[of "now + at_ttl t"] by (simp add: adm)
qed

text \<open>A library that knows two tokens.\<close>

definition some_claims :: "bool \<Rightarrow> claims" where
  "some_claims adm = \<lparr>cl_subject = format_int 7, cl_id = (if adm then ''j'' else []),
     cl_issued_at = (if adm then None else Some 0), cl_expires_at = Some 300, cl_eid = (if adm then 1 else 0),
     cl_qid = (if adm then ''q'' else [])\<rparr>"

definition some_sign :: jwt_sign where
  "some_sign k c = (if c = some_claims True then Some ''A'' else if c = some_claims False then Some ''U'' else None)"

definition some_parse :: jwt_parse where
  "some_parse k now tok = (if now < 300 * second then Some (some_claims (tok = ''A'')) else None)"

lemma some_jwt: "jwt_library some_sign some_parse"
  by (auto simp: jwt_library_def some_sign_def some_parse_def some_claims_def split: if_splits)

theorem token_names_its_owner_witness:
  "\<exists>adm. Admission_Issue some_sign \<lparr>at_secret = ''s'', at_ttl = 300 * second\<rparr> 5 (Some ''j'') 7 1 ''q'' = Inr (''A'', adm)
    \<and> Admission_Verify some_parse Some \<lparr>at_secret = ''s'', at_ttl = 300 * second\<rparr> (299 * second) ''A'' = Inr adm
    \<and> Tokens_Verify some_parse \<lparr>tk_secret = ''k'', tk_ttl = 300 * second\<rparr> (299 * second) ''U'' = Inr 7"
proof -
  have "\<exists>adm. Admission_Issue some_sign \<lparr>at_secret = ''s'', at_ttl = 300 * second\<rparr> 5 (Some ''j'') 7 1 ''q'' = Inr (''A'', adm)
      \<and> adm_expires_at adm = 300 * second"
    by (simp add: Admission_Issue_def some_sign_def some_claims_def NewNumericDate_def second_def)
  then obtain adm where a: "Admission_Issue some_sign \<lparr>at_secret = ''s'', at_ttl = 300 * second\<rparr> 5 (Some ''j'') 7 1 ''q''
      = Inr (''A'', adm)" "adm_expires_at adm = 300 * second" by blast
  have u: "Tokens_Issue some_sign \<lparr>tk_secret = ''k'', tk_ttl = 300 * second\<rparr> 5 7 = Inr ''U''"
    by (simp add: Tokens_Issue_def some_sign_def some_claims_def NewNumericDate_def second_def)
  show ?thesis
    using token_names_its_owner[OF some_jwt _ _ _ _ _ a(1) u, where uuid_parse = Some and later = "299 * second"] a
    by (simp add: in_int64_def second_def NewNumericDate_def)
qed

end
