(* ===== verification/Http.thy ===== *)
theory Http
  imports Json Orders Auth
begin

text \<open>
  HTTP building blocks, \<open>internal/httpx\<close>: the table that turns business errors into responses,
  the decoding of request bodies, the middleware that requires a user and an admission, the
  check of request ids and the readiness endpoint. Texts are the UTF-8 bytes of the source. A
  JSON body is a value of the type \<open>json\<close>; decoding a body of a given type is a parameter that
  answers \<open>None\<close> for anything but one JSON object of exactly that shape. Logging is left out.

  The lemmas show that every error is answered by a response that depends on nothing but its
  business part, so that no internal text reaches a client, and that a handler behind the
  middleware runs only for a verified user and admission.
\<close>

datatype body = Json json | Bytes string | NoBody

record request =
  hr_header :: "string \<Rightarrow> string"
  hr_param :: "string \<Rightarrow> string"
  hr_query :: "string \<Rightarrow> string"
  hr_body :: string

record response =
  rs_status :: int
  rs_headers :: "(string \<times> string) list"
  rs_body :: body

section \<open>Responses (response.go)\<close>

definition CodeNotFound :: string where "CodeNotFound = ''NOT_FOUND''"
definition CodeMethodNotAllowed :: string where "CodeMethodNotAllowed = ''METHOD_NOT_ALLOWED''"
definition CodeInternal :: string where "CodeInternal = ''INTERNAL_ERROR''"

record ErrorBody =
  eb_code :: string
  eb_message :: string
  eb_details :: "(string \<times> json) list"

definition WriteJSON :: "int \<Rightarrow> json \<Rightarrow> response" where
  "WriteJSON status v = \<lparr>rs_status = status, rs_headers = [(''Content-Type'', ''application/json; charset=utf-8'')],
     rs_body = Json v\<rparr>"

text \<open>\<open>details\<close> is left out when it is empty.\<close>

definition WriteError :: "int \<Rightarrow> ErrorBody \<Rightarrow> response" where
  "WriteError status b = WriteJSON status (JObj [(''error'', JObj ([(''code'', JStr (eb_code b)), (''message'', JStr (eb_message b))]
     @ (if eb_details b = [] then [] else [(''details'', JObj (eb_details b))])))])"

definition SystemError :: string where
  "SystemError = ''L'' @ [CHR 0xE1, CHR 0xBB, CHR 0x97] @ ''i h'' @ [CHR 0xE1, CHR 0xBB, CHR 0x87] @ '' th''
    @ [CHR 0xE1, CHR 0xBB, CHR 0x91] @ ''ng''"

definition NotFound :: response where
  "NotFound = WriteError 404 \<lparr>eb_code = CodeNotFound, eb_message = ''Kh'' @ [CHR 0xC3, CHR 0xB4] @ ''ng t'' @ [CHR 0xC3, CHR 0xAC] @ ''m th'' @ [CHR 0xE1, CHR 0xBA, CHR 0xA5]
      @ ''y t'' @ [CHR 0xC3, CHR 0xA0] @ ''i nguy'' @ [CHR 0xC3, CHR 0xAA] @ ''n'',
     eb_details = []\<rparr>"

definition MethodNotAllowed :: response where
  "MethodNotAllowed = WriteError 405 \<lparr>eb_code = CodeMethodNotAllowed, eb_message = ''Ph'' @ [CHR 0xC6, CHR 0xB0, CHR 0xC6, CHR 0xA1] @ ''ng th'' @ [CHR 0xE1, CHR 0xBB, CHR 0xA9] @ ''c kh''
      @ [CHR 0xC3, CHR 0xB4] @ ''ng '' @ [CHR 0xC4, CHR 0x91, CHR 0xC6, CHR 0xB0, CHR 0xE1, CHR 0xBB, CHR 0xA3]
      @ ''c h'' @ [CHR 0xE1, CHR 0xBB, CHR 0x97] @ '' tr'' @ [CHR 0xE1, CHR 0xBB, CHR 0xA3],
     eb_details = []\<rparr>"

section \<open>Errors (errors.go)\<close>

record errorMapping =
  em_target :: "sentinel \<Rightarrow> bool"
  em_status :: int
  em_code :: string
  em_message :: string
  em_retryAfter :: string

fun is_validation :: "sentinel \<Rightarrow> bool" where
  "is_validation (ErrValidation f r) = True"
| "is_validation _ = False"

fun is_seats_unavailable :: "sentinel \<Rightarrow> bool" where
  "is_seats_unavailable (ErrSeatsUnavailable ss) = True"
| "is_seats_unavailable _ = False"

fun is_not_cancellable :: "sentinel \<Rightarrow> bool" where
  "is_not_cancellable (ErrNotCancellable st) = True"
| "is_not_cancellable _ = False"

definition errorMappings :: "errorMapping list" where
  "errorMappings = [
   \<lparr>em_target = (=) ErrBadRequest, em_status = 400, em_code = ''BAD_REQUEST'',
      em_message = ''Body kh'' @ [CHR 0xC3, CHR 0xB4] @ ''ng ph'' @ [CHR 0xE1, CHR 0xBA, CHR 0xA3] @ ''i JSON h''
        @ [CHR 0xE1, CHR 0xBB, CHR 0xA3] @ ''p l'' @ [CHR 0xE1, CHR 0xBB, CHR 0x87],
      em_retryAfter = ''''\<rparr>,
   \<lparr>em_target = (=) ErrUnauthorized, em_status = 401, em_code = ''UNAUTHORIZED'',
      em_message = ''Thi'' @ [CHR 0xE1, CHR 0xBA, CHR 0xBF] @ ''u ho'' @ [CHR 0xE1, CHR 0xBA, CHR 0xB7] @ ''c sai access token'',
      em_retryAfter = ''''\<rparr>,
   \<lparr>em_target = (=) ErrBadSignature, em_status = 401, em_code = ''INVALID_SIGNATURE'',
      em_message = ''Ch'' @ [CHR 0xE1, CHR 0xBB, CHR 0xAF] @ '' k'' @ [CHR 0xC3, CHR 0xBD] @ '' webhook kh'' @ [CHR 0xC3, CHR 0xB4]
        @ ''ng h'' @ [CHR 0xE1, CHR 0xBB, CHR 0xA3] @ ''p l'' @ [CHR 0xE1, CHR 0xBB, CHR 0x87],
      em_retryAfter = ''''\<rparr>,
   \<lparr>em_target = (=) ErrInvalidWebhook, em_status = 400, em_code = ''BAD_REQUEST'',
      em_message = ''N'' @ [CHR 0xE1, CHR 0xBB, CHR 0x99] @ ''i dung webhook kh'' @ [CHR 0xC3, CHR 0xB4] @ ''ng h''
        @ [CHR 0xE1, CHR 0xBB, CHR 0xA3] @ ''p l'' @ [CHR 0xE1, CHR 0xBB, CHR 0x87],
      em_retryAfter = ''''\<rparr>,
   \<lparr>em_target = is_validation, em_status = 422, em_code = ''VALIDATION_ERROR'',
      em_message = ''D'' @ [CHR 0xE1, CHR 0xBB, CHR 0xAF] @ '' li'' @ [CHR 0xE1, CHR 0xBB, CHR 0x87] @ ''u kh''
        @ [CHR 0xC3, CHR 0xB4] @ ''ng h'' @ [CHR 0xE1, CHR 0xBB, CHR 0xA3] @ ''p l'' @ [CHR 0xE1, CHR 0xBB, CHR 0x87],
      em_retryAfter = ''''\<rparr>,
   \<lparr>em_target = (=) ErrIdempotencyKeyReused, em_status = 422, em_code = ''IDEMPOTENCY_KEY_REUSED'',
      em_message = ''Idempotency-Key '' @ [CHR 0xC4, CHR 0x91, CHR 0xC3, CHR 0xA3] @ '' d'' @ [CHR 0xC3, CHR 0xB9] @ ''ng cho m''
        @ [CHR 0xE1, CHR 0xBB, CHR 0x99] @ ''t request kh'' @ [CHR 0xC3, CHR 0xA1] @ ''c'',
      em_retryAfter = ''''\<rparr>,
   \<lparr>em_target = (=) ErrIdempotencyKeyInProgress, em_status = 409, em_code = ''IDEMPOTENCY_KEY_IN_PROGRESS'',
      em_message = ''Request v'' @ [CHR 0xE1, CHR 0xBB, CHR 0x9B] @ ''i Idempotency-Key n'' @ [CHR 0xC3, CHR 0xA0] @ ''y ''
        @ [CHR 0xC4, CHR 0x91] @ ''ang '' @ [CHR 0xC4, CHR 0x91, CHR 0xC6, CHR 0xB0, CHR 0xE1, CHR 0xBB, CHR 0xA3]
        @ ''c x'' @ [CHR 0xE1, CHR 0xBB, CHR 0xAD] @ '' l'' @ [CHR 0xC3, CHR 0xBD],
      em_retryAfter = ''1''\<rparr>,
   \<lparr>em_target = is_seats_unavailable, em_status = 409, em_code = ''SEATS_UNAVAILABLE'',
      em_message = ''M'' @ [CHR 0xE1, CHR 0xBB, CHR 0x99] @ ''t s'' @ [CHR 0xE1, CHR 0xBB, CHR 0x91] @ '' gh''
        @ [CHR 0xE1, CHR 0xBA, CHR 0xBF] @ '' '' @ [CHR 0xC4, CHR 0x91, CHR 0xC3, CHR 0xA3] @ '' c''
        @ [CHR 0xC3, CHR 0xB3] @ '' ng'' @ [CHR 0xC6, CHR 0xB0, CHR 0xE1, CHR 0xBB, CHR 0x9D] @ ''i gi''
        @ [CHR 0xE1, CHR 0xBB, CHR 0xAF],
      em_retryAfter = ''''\<rparr>,
   \<lparr>em_target = (=) ErrActiveOrderExists, em_status = 409, em_code = ''ACTIVE_ORDER_EXISTS'',
      em_message = ''B'' @ [CHR 0xE1, CHR 0xBA, CHR 0xA1] @ ''n '' @ [CHR 0xC4, CHR 0x91] @ ''ang c'' @ [CHR 0xC3, CHR 0xB3]
        @ '' m'' @ [CHR 0xE1, CHR 0xBB, CHR 0x99] @ ''t '' @ [CHR 0xC4, CHR 0x91, CHR 0xC6, CHR 0xA1] @ ''n gi''
        @ [CHR 0xE1, CHR 0xBB, CHR 0xAF] @ '' gh'' @ [CHR 0xE1, CHR 0xBA, CHR 0xBF] @ '' cho s''
        @ [CHR 0xE1, CHR 0xBB, CHR 0xB1] @ '' ki'' @ [CHR 0xE1, CHR 0xBB, CHR 0x87] @ ''n n'' @ [CHR 0xC3, CHR 0xA0]
        @ ''y'',
      em_retryAfter = ''''\<rparr>,
   \<lparr>em_target = is_not_cancellable, em_status = 409, em_code = ''ORDER_NOT_CANCELLABLE'',
      em_message = [CHR 0xC4, CHR 0x90, CHR 0xC6, CHR 0xA1] @ ''n kh'' @ [CHR 0xC3, CHR 0xB4] @ ''ng ''
        @ [CHR 0xE1, CHR 0xBB, CHR 0x9F] @ '' tr'' @ [CHR 0xE1, CHR 0xBA, CHR 0xA1] @ ''ng th'' @ [CHR 0xC3, CHR 0xA1]
        @ ''i c'' @ [CHR 0xC3, CHR 0xB3] @ '' th'' @ [CHR 0xE1, CHR 0xBB, CHR 0x83] @ '' h''
        @ [CHR 0xE1, CHR 0xBB, CHR 0xA7] @ ''y'',
      em_retryAfter = ''''\<rparr>,
   \<lparr>em_target = (=) ErrNotFound, em_status = 404, em_code = ''ORDER_NOT_FOUND'',
      em_message = ''Kh'' @ [CHR 0xC3, CHR 0xB4] @ ''ng t'' @ [CHR 0xC3, CHR 0xAC] @ ''m th'' @ [CHR 0xE1, CHR 0xBA, CHR 0xA5]
        @ ''y '' @ [CHR 0xC4, CHR 0x91, CHR 0xC6, CHR 0xA1] @ ''n h'' @ [CHR 0xC3, CHR 0xA0] @ ''ng'',
      em_retryAfter = ''''\<rparr>,
   \<lparr>em_target = (=) ErrAdmissionRequired, em_status = 403, em_code = ''ADMISSION_REQUIRED'',
      em_message = ''C'' @ [CHR 0xE1, CHR 0xBA, CHR 0xA7] @ ''n v'' @ [CHR 0xC3, CHR 0xA0] @ ''o h'' @ [CHR 0xC3, CHR 0xA0]
        @ ''ng ch'' @ [CHR 0xE1, CHR 0xBB, CHR 0x9D] @ '' v'' @ [CHR 0xC3, CHR 0xA0] @ '' ''
        @ [CHR 0xC4, CHR 0x91, CHR 0xC6, CHR 0xB0, CHR 0xE1, CHR 0xBB, CHR 0xA3] @ ''c cho v'' @ [CHR 0xC3, CHR 0xA0]
        @ ''o tr'' @ [CHR 0xC6, CHR 0xB0, CHR 0xE1, CHR 0xBB, CHR 0x9B] @ ''c khi ''
        @ [CHR 0xC4, CHR 0x91, CHR 0xE1, CHR 0xBA, CHR 0xB7] @ ''t v'' @ [CHR 0xC3, CHR 0xA9],
      em_retryAfter = ''''\<rparr>,
   \<lparr>em_target = (=) ErrInvalidAdmission, em_status = 403, em_code = ''ADMISSION_REQUIRED'',
      em_message = ''C'' @ [CHR 0xE1, CHR 0xBA, CHR 0xA7] @ ''n v'' @ [CHR 0xC3, CHR 0xA0] @ ''o h'' @ [CHR 0xC3, CHR 0xA0]
        @ ''ng ch'' @ [CHR 0xE1, CHR 0xBB, CHR 0x9D] @ '' v'' @ [CHR 0xC3, CHR 0xA0] @ '' ''
        @ [CHR 0xC4, CHR 0x91, CHR 0xC6, CHR 0xB0, CHR 0xE1, CHR 0xBB, CHR 0xA3] @ ''c cho v'' @ [CHR 0xC3, CHR 0xA0]
        @ ''o tr'' @ [CHR 0xC6, CHR 0xB0, CHR 0xE1, CHR 0xBB, CHR 0x9B] @ ''c khi ''
        @ [CHR 0xC4, CHR 0x91, CHR 0xE1, CHR 0xBA, CHR 0xB7] @ ''t v'' @ [CHR 0xC3, CHR 0xA9],
      em_retryAfter = ''''\<rparr>,
   \<lparr>em_target = (=) ErrAdmissionAlreadyUsed, em_status = 403, em_code = ''ADMISSION_ALREADY_USED'',
      em_message = ''L'' @ [CHR 0xC6, CHR 0xB0, CHR 0xE1, CHR 0xBB, CHR 0xA3] @ ''t v'' @ [CHR 0xC3, CHR 0xA0] @ ''o n''
        @ [CHR 0xC3, CHR 0xA0] @ ''y '' @ [CHR 0xC4, CHR 0x91, CHR 0xC3, CHR 0xA3] @ '' d'' @ [CHR 0xC3, CHR 0xB9]
        @ ''ng '' @ [CHR 0xC4, CHR 0x91, CHR 0xE1, CHR 0xBB, CHR 0x83] @ '' t'' @ [CHR 0xE1, CHR 0xBA, CHR 0xA1]
        @ ''o m'' @ [CHR 0xE1, CHR 0xBB, CHR 0x99] @ ''t '' @ [CHR 0xC4, CHR 0x91, CHR 0xC6, CHR 0xA1] @ ''n kh''
        @ [CHR 0xC3, CHR 0xA1] @ ''c'',
      em_retryAfter = ''''\<rparr>,
   \<lparr>em_target = (=) ErrEventNotFound, em_status = 404, em_code = ''EVENT_NOT_FOUND'',
      em_message = ''Kh'' @ [CHR 0xC3, CHR 0xB4] @ ''ng t'' @ [CHR 0xC3, CHR 0xAC] @ ''m th'' @ [CHR 0xE1, CHR 0xBA, CHR 0xA5]
        @ ''y s'' @ [CHR 0xE1, CHR 0xBB, CHR 0xB1] @ '' ki'' @ [CHR 0xE1, CHR 0xBB, CHR 0x87] @ ''n'',
      em_retryAfter = ''''\<rparr>,
   \<lparr>em_target = (=) ErrNotQueued, em_status = 404, em_code = ''QUEUE_ENTRY_NOT_FOUND'',
      em_message = ''Kh'' @ [CHR 0xC3, CHR 0xB4] @ ''ng c'' @ [CHR 0xC3, CHR 0xB2] @ ''n trong h'' @ [CHR 0xC3, CHR 0xA0]
        @ ''ng ch'' @ [CHR 0xE1, CHR 0xBB, CHR 0x9D] @ '', h'' @ [CHR 0xC3, CHR 0xA3] @ ''y v'' @ [CHR 0xC3, CHR 0xA0]
        @ ''o h'' @ [CHR 0xC3, CHR 0xA0] @ ''ng l'' @ [CHR 0xE1, CHR 0xBA, CHR 0xA1] @ ''i'',
      em_retryAfter = ''''\<rparr>,
   \<lparr>em_target = (=) ErrTemporarilyUnavailable, em_status = 503, em_code = ''SERVICE_UNAVAILABLE'',
      em_message = ''H'' @ [CHR 0xE1, CHR 0xBB, CHR 0x87] @ '' th'' @ [CHR 0xE1, CHR 0xBB, CHR 0x91] @ ''ng t''
        @ [CHR 0xE1, CHR 0xBA, CHR 0xA1] @ ''m th'' @ [CHR 0xE1, CHR 0xBB, CHR 0x9D] @ ''i kh'' @ [CHR 0xC3, CHR 0xB4]
        @ ''ng x'' @ [CHR 0xE1, CHR 0xBB, CHR 0xAD] @ '' l'' @ [CHR 0xC3, CHR 0xBD] @ '' ''
        @ [CHR 0xC4, CHR 0x91, CHR 0xC6, CHR 0xB0, CHR 0xE1, CHR 0xBB, CHR 0xA3] @ ''c, vui l'' @ [CHR 0xC3, CHR 0xB2]
        @ ''ng th'' @ [CHR 0xE1, CHR 0xBB, CHR 0xAD] @ '' l'' @ [CHR 0xE1, CHR 0xBA, CHR 0xA1] @ ''i'',
      em_retryAfter = ''1''\<rparr>]"

text \<open>\<open>errors.As\<close> finds the first error of the chain that carries details.\<close>

fun ErrorDetails :: "goerror \<Rightarrow> (string \<times> json) list" where
  "ErrorDetails [] = []"
| "ErrorDetails (ErrValidation f r # e) = [(''field'', JStr f), (''reason'', JStr r)]"
| "ErrorDetails (ErrSeatsUnavailable ss # e) = [(''seat_ids'', JArr (map JStr ss))]"
| "ErrorDetails (ErrNotCancellable st # e) = [(''status'', JStr st)]"
| "ErrorDetails (s # e) = ErrorDetails e"

definition WriteErr :: "goerror \<Rightarrow> response" where
  "WriteErr err =
    (case find (\<lambda>m. list_ex (em_target m) err) errorMappings of
       Some m \<Rightarrow>
         let r = WriteError (em_status m) \<lparr>eb_code = em_code m, eb_message = em_message m, eb_details = ErrorDetails err\<rparr>
         in if em_retryAfter m \<noteq> '''' then r\<lparr>rs_headers := (''Retry-After'', em_retryAfter m) # rs_headers r\<rparr> else r
     | None \<Rightarrow> WriteError 500 \<lparr>eb_code = CodeInternal, eb_message = SystemError, eb_details = []\<rparr>)"

section \<open>Requests (request.go)\<close>

definition maxBodyBytes :: nat where "maxBodyBytes = 16 * 1024"

text \<open>
  A longer body fails either while the object is read or when the end of the body is looked for.
\<close>

definition DecodeJSON :: "(string \<Rightarrow> 'a option) \<Rightarrow> request \<Rightarrow> 'a res" where
  "DecodeJSON dec r =
    (if length (hr_body r) > maxBodyBytes then Inl [ErrBadRequest, Opaque ''http: request body too large'']
     else case dec (hr_body r) of None \<Rightarrow> Inl [ErrBadRequest] | Some v \<Rightarrow> Inr v)"

record request_context =
  ctx_user :: "int option"
  ctx_admission :: "admission option"

text \<open>\<open>auth.UserIDFrom\<close> with its boolean ignored: the zero value when no user is set.\<close>

definition UserIDFrom :: "request_context \<Rightarrow> int" where
  "UserIDFrom c = (case ctx_user c of None \<Rightarrow> 0 | Some u \<Rightarrow> u)"

type_synonym 'w handler_func = "request_context \<Rightarrow> request \<Rightarrow> ('w, response) prog"

definition RequireUser :: "jwt_parse \<Rightarrow> Tokens \<Rightarrow> time \<Rightarrow> 'w handler_func \<Rightarrow> 'w handler_func" where
  "RequireUser parse tokens now next c r =
    (let h = hr_header r ''Authorization'' in
     if \<not> has_prefix h ''Bearer '' \<or> trim_prefix h ''Bearer '' = '''' then Ret (WriteErr [ErrUnauthorized])
     else case Tokens_Verify parse tokens now (trim_prefix h ''Bearer '') of
       Inl e \<Rightarrow> Ret (WriteErr e)
     | Inr uid \<Rightarrow> next (c\<lparr>ctx_user := Some uid\<rparr>) r)"

definition AdmissionHeader :: string where "AdmissionHeader = ''X-Admission-Token''"

definition RequireAdmission ::
  "jwt_parse \<Rightarrow> (string \<Rightarrow> uuid option) \<Rightarrow> AdmissionTokens \<Rightarrow> time \<Rightarrow> 'w handler_func \<Rightarrow> 'w handler_func" where
  "RequireAdmission parse uuid_parse tokens now next c r =
    (let raw = hr_header r AdmissionHeader in
     if raw = '''' then Ret (WriteErr [ErrAdmissionRequired])
     else case Admission_Verify parse uuid_parse tokens now raw of
       Inl e \<Rightarrow> Ret (WriteErr (ErrAdmissionRequired # e))
     | Inr adm \<Rightarrow>
         if adm_user_id adm \<noteq> UserIDFrom c then Ret (WriteErr [ErrAdmissionRequired])
         else next (c\<lparr>ctx_admission := Some adm\<rparr>) r)"

section \<open>Middleware (middleware.go)\<close>

definition RequestIDHeader :: string where "RequestIDHeader = ''X-Request-Id''"
definition maxRequestIDLen :: nat where "maxRequestIDLen = 128"

definition request_id_char :: "char \<Rightarrow> bool" where
  "request_id_char c \<longleftrightarrow> (let n = (of_char c :: nat) in 97 \<le> n \<and> n \<le> 122 \<or> 65 \<le> n \<and> n \<le> 90 \<or> 48 \<le> n \<and> n \<le> 57
     \<or> c = CHR ''-'' \<or> c = CHR ''_'' \<or> c = CHR ''.'' \<or> c = CHR '':'')"

definition validRequestID :: "string \<Rightarrow> bool" where
  "validRequestID i \<longleftrightarrow> \<not> (i = '''' \<or> length i > maxRequestIDLen) \<and> list_all request_id_char i"

text \<open>\<open>fresh\<close> is what the random generator gives.\<close>

definition RequestID :: "string \<Rightarrow> 'w handler_func \<Rightarrow> 'w handler_func" where
  "RequestID fresh next c r =
    (let given = hr_header r RequestIDHeader; i = (if validRequestID given then given else fresh)
     in bindp (next c r) (\<lambda>res. Ret (res\<lparr>rs_headers := (RequestIDHeader, i) # rs_headers res\<rparr>)))"

section \<open>Readiness (health.go)\<close>

definition Live :: response where
  "Live = WriteJSON 200 (JObj [(''status'', JStr ''ok'')])"

text \<open>\<open>Ready\<close> with the answers of the checks, each under its name.\<close>

definition Ready :: "(string \<times> unit res) list \<Rightarrow> response" where
  "Ready checks =
    (let bad = list_ex (\<lambda>(n, x). x \<noteq> Inr ()) checks in
     WriteJSON (if bad then 503 else 200) (JObj [(''status'', JStr (if bad then ''unavailable'' else ''ok'')),
       (''checks'', JObj (map (\<lambda>(n, x). (n, JStr (if x \<noteq> Inr () then ''fail'' else ''ok''))) checks))]))"

section \<open>Programs on a part of the state\<close>

text \<open>A handler works on the state of its process, most of its calls on the shared world in it.\<close>

primrec zoom :: "('s \<Rightarrow> 'w) \<Rightarrow> ('w \<Rightarrow> 's \<Rightarrow> 's) \<Rightarrow> ('w, 'a) prog \<Rightarrow> ('s, 'a) prog" where
  "zoom part set_part (Ret a) = Ret a"
| "zoom part set_part (Step g e c) = Step (\<lambda>s. g (part s)) (\<lambda>x s. set_part (e x (part s)) s)
     (\<lambda>x s. zoom part set_part (c x (part s)))"

lemma run_zoom:
  assumes "\<And>w s. part (set_part w s) = w" "\<And>v w s. set_part v (set_part w s) = set_part v s" "\<And>s. set_part (part s) s = s"
  shows "run fs s (zoom part set_part p) = map_option (\<lambda>(w, a). (set_part w s, a)) (run fs (part s) p)"
proof (induction p arbitrary: fs s)
  case (Step g e c)
  then show ?case by (cases fs) (simp_all add: assms(1,2) option.map_comp comp_def case_prod_beta)
qed (simp add: assms(3))

section \<open>What a client learns from an error\<close>

definition client_error :: "sentinel \<Rightarrow> bool" where
  "client_error s \<longleftrightarrow> list_ex (\<lambda>m. em_target m s) errorMappings"

lemma client_errors:
  "client_error ErrBadRequest" "client_error (ErrValidation f r)" "client_error (ErrSeatsUnavailable ss)"
  "client_error (ErrNotCancellable st)" "\<not> client_error (Opaque t)" "\<not> client_error (PgError a b)" "\<not> client_error NoRows"
  by (simp_all add: client_error_def errorMappings_def)

lemma ErrorDetails_filter: "ErrorDetails (filter client_error err) = ErrorDetails err"
  by (induction err rule: ErrorDetails.induct) (simp_all add: client_errors)

lemma WriteErr_status: "rs_status (WriteErr err) =
    (case find (\<lambda>m. list_ex (em_target m) err) errorMappings of Some m \<Rightarrow> em_status m | None \<Rightarrow> 500)"
  by (cases "find (\<lambda>m. list_ex (em_target m) err) errorMappings")
    (simp_all add: WriteErr_def WriteError_def WriteJSON_def Let_def)

text \<open>
  C39. Internal text never reaches a client: the response to an error is the response to its
  business errors alone, with every wrapped database, network or other internal error left
  out. Its status is one of eight, and it is 500 exactly when there is no business error.
\<close>

theorem errors_hide_internals:
  "WriteErr err = WriteErr (filter client_error err)
    \<and> rs_status (WriteErr err) \<in> {400, 401, 403, 404, 409, 422, 500, 503}
    \<and> (rs_status (WriteErr err) = 500 \<longleftrightarrow> filter client_error err = [])"
proof -
  have "m \<in> set errorMappings \<Longrightarrow> list_ex (em_target m) err = list_ex (em_target m) (filter client_error err)" for m
    by (auto simp: list_ex_iff client_error_def)
  then have f: "find (\<lambda>m. list_ex (em_target m) err) errorMappings
      = find (\<lambda>m. list_ex (em_target m) (filter client_error err)) errorMappings" by (intro find_cong) auto
  have "WriteErr err = WriteErr (filter client_error err)" unfolding WriteErr_def f ErrorDetails_filter ..
  moreover have "find (\<lambda>m. list_ex (em_target m) err) errorMappings = None \<longleftrightarrow> filter client_error err = []"
    by (auto simp: find_None_iff list_ex_iff filter_empty_conv client_error_def)
  moreover have "list_all (\<lambda>m. em_status m \<in> {400, 401, 403, 404, 409, 422, 503}) errorMappings"
    by (simp add: errorMappings_def)
  moreover have "m \<in> set errorMappings" if "find (\<lambda>m. list_ex (em_target m) err) errorMappings = Some m" for m
    using that by (auto simp: find_Some_iff)
  ultimately show ?thesis unfolding WriteErr_status list_all_iff
    by (cases "find (\<lambda>m. list_ex (em_target m) err) errorMappings") fastforce+
qed

lemma refused_status:
  "rs_status (WriteErr [ErrUnauthorized]) = 401" "rs_status (WriteErr [ErrUnauthorized, Opaque t]) = 401"
  "rs_status (WriteErr [ErrAdmissionRequired]) = 403" "rs_status (WriteErr [ErrAdmissionRequired, ErrInvalidAdmission]) = 403"
  "rs_status (WriteErr [ErrAdmissionRequired, ErrInvalidAdmission, Opaque t]) = 403"
  by (simp_all add: WriteErr_def WriteError_def WriteJSON_def errorMappings_def)

text \<open>
  C38. Behind the middleware a handler runs only for the user an access token was verified for,
  with an admission that was verified and issued to that user; every other request is
  answered 401 or 403 before any state is touched.
\<close>

theorem only_verified_requests:
  "(\<exists>uid adm. Tokens_Verify parse tokens now (trim_prefix (hr_header r ''Authorization'') ''Bearer '') = Inr uid
      \<and> Admission_Verify parse uuid_parse admissions now (hr_header r AdmissionHeader) = Inr adm \<and> adm_user_id adm = uid
      \<and> RequireUser parse tokens now (RequireAdmission parse uuid_parse admissions now next) c r
        = next (c\<lparr>ctx_user := Some uid, ctx_admission := Some adm\<rparr>) r)
    \<or> (\<exists>res. RequireUser parse tokens now (RequireAdmission parse uuid_parse admissions now next) c r = Ret res
      \<and> rs_status res \<in> {401, 403})"
proof -
  let ?raw = "trim_prefix (hr_header r ''Authorization'') ''Bearer ''"
  have user: "rs_status (WriteErr e) = 401" if "Tokens_Verify parse tokens now ?raw = Inl e" for e
    using refused_status(1) refused_status(2) that by (auto simp: Tokens_Verify_def split: option.splits if_splits)
  have adm: "rs_status (WriteErr (ErrAdmissionRequired # e)) = 403"
    if "Admission_Verify parse uuid_parse admissions now (hr_header r AdmissionHeader) = Inl e" for e
    using refused_status(4) refused_status(5) that by (auto simp: Admission_Verify_def split: option.splits if_splits)
  show ?thesis
    using user adm refused_status(1) refused_status(3)
    by (auto simp: RequireUser_def RequireAdmission_def Let_def UserIDFrom_def split: sum.split)
qed

end
