(* ===== verification/Money.thy ===== *)
theory Money
  imports Prelude "HOL-Library.Word"
begin

text \<open>
  Amounts for people, \<open>internal/money/money.go\<close>. The conversions between \<open>int64\<close> and
  \<open>uint64\<close> keep the 64 bits, so an amount is a word; its absolute value is formed by
  negating the unsigned word, which is right for the least \<open>int64\<close> as well. The lemmas show
  that leaving out the dots gives back the amount for every one of the 2^64 values, and that
  the dots stand exactly every three digits from the right.
\<close>

text \<open>The body of the loop of \<open>group\<close> at index \<open>i\<close>.\<close>

definition group_at :: "string \<Rightarrow> nat \<Rightarrow> string" where
  "group_at s i = (if i > 0 \<and> (length s - i) mod 3 = 0 then ''.'' else '''') @ [s ! i]"

definition group :: "string \<Rightarrow> string" where
  "group s = concat (map (group_at s) [0..<length s])"

definition FormatVND :: "64 word \<Rightarrow> string" where
  "FormatVND n =
    (let (sign, abs) = (if sint n < 0 then (''-'', - n) else ('''', n))
     in sign @ group (digits_of (unat abs)))"

section \<open>Reading an amount back\<close>

definition undot :: "string \<Rightarrow> string" where
  "undot s = filter (\<lambda>c. c \<noteq> CHR ''.'') s"

lemma undot_group:
  assumes "CHR ''.'' \<notin> set s"
  shows "undot (group s) = s"
proof -
  have "undot (group_at s i) = [s ! i]" if "i < length s" for i
    using that assms nth_mem[OF that] by (cases "s ! i = CHR ''.''") (auto simp: undot_def group_at_def)
  then have e: "map (\<lambda>i. undot (group_at s i)) [0..<length s] = map (\<lambda>i. [s ! i]) [0..<length s]" by simp
  have "undot (concat xs) = concat (map undot xs)" for xs by (induction xs) (simp_all add: undot_def)
  then have "undot (group s) = concat (map (\<lambda>i. undot (group_at s i)) [0..<length s])" by (simp add: group_def o_def)
  also have "\<dots> = s" by (simp only: e concat_map_singleton map_nth)
  finally show ?thesis .
qed

text \<open>What grouping means: the digits cut into blocks of three from the right.\<close>

fun grouped :: "string \<Rightarrow> string" where
  "grouped s = (if length s \<le> 3 then s else grouped (take (length s - 3) s) @ ''.'' @ drop (length s - 3) s)"

declare grouped.simps [simp del]

lemma group_block:
  assumes "length b = 3" "a \<noteq> []"
  shows "group (a @ b) = group a @ ''.'' @ b"
proof -
  have "(length a + 3 - i) mod 3 = (length a - i) mod 3" if "i < length a" for i
    using that by (metis add.commute diff_add_assoc less_imp_le mod_add_self1)
  then have front: "map (group_at (a @ b)) [0..<length a] = map (group_at a) [0..<length a]"
    using assms(1) by (auto simp: group_at_def nth_append)
  obtain x y z where b: "b = [x, y, z]" using assms(1) by (auto simp: numeral_3_eq_3 length_Suc_conv)
  have "[0..<length (a @ b)] = [0..<length a] @ [length a, length a + 1, length a + 2]"
    using upt_add_eq_append[of 0 "length a" 3] assms(1) by (simp add: upt_conv_Cons)
  then have "group (a @ b) = group a @ concat (map (group_at (a @ b)) [length a, length a + 1, length a + 2])"
    by (simp only: group_def map_append concat_append front)
  then show ?thesis using assms(2) by (simp add: b group_at_def nth_append)
qed

lemma group_short: "length s \<le> 3 \<Longrightarrow> group s = s"
proof -
  assume "length s \<le> 3"
  then have "\<not> (i > 0 \<and> (length s - i) mod 3 = 0)" if "i < length s" for i
    using that by (auto dest!: dvd_imp_le)
  then have e: "map (group_at s) [0..<length s] = map (\<lambda>i. [s ! i]) [0..<length s]" by (auto simp: group_at_def)
  show ?thesis by (simp only: group_def e concat_map_singleton map_nth)
qed

lemma group_grouped: "group s = grouped s"
proof (induction s rule: grouped.induct)
  case (1 s)
  show ?case
  proof (cases "length s \<le> 3")
    case True
    then show ?thesis by (simp add: group_short grouped.simps)
  next
    case False
    let ?n = "length s - 3"
    have "group (take ?n s @ drop ?n s) = group (take ?n s) @ ''.'' @ drop ?n s"
      using False by (intro group_block) auto
    then show ?thesis using 1 False by (simp add: grouped.simps[of s])
  qed
qed

lemma no_dot_digits: "CHR ''.'' \<notin> set (digits_of n)"
  by (auto simp: is_digit_def digit_val_def dest!: digits_of_digit)

text \<open>The 64 bits read as signed and as unsigned.\<close>

lemma unat_word_of_int: "unat (word_of_int k :: 64 word) = nat (k mod 2 ^ 64)"
  by (simp add: unat_eq_nat_uint uint_word_of_int)

lemma abs_word:
  fixes n :: "64 word"
  shows "unat (if sint n < 0 then - n else n) = nat \<bar>sint n\<bar>"
proof -
  have b: "- (2 ^ 63) \<le> sint n" "sint n < 2 ^ 63" using sint_ge[of n] sint_lt[of n] by simp_all
  have "unat (- n) = nat (- sint n)" if "sint n < 0"
  proof -
    have "- n = word_of_int (- sint n)" by simp
    then show ?thesis using that b by (simp add: unat_word_of_int del: word_of_int_minus of_int_minus)
  qed
  moreover have "unat n = nat (sint n)" if "0 \<le> sint n"
    using that b unat_word_of_int[of "sint n"] by simp
  ultimately show ?thesis by auto
qed

text \<open>
  \<open>FormatVND\<close> is exact on all 64-bit amounts, the least one included: read without its
  dots the text is the amount, and the text is the sign followed by the decimal digits of
  the absolute value cut into blocks of three from the right.
\<close>

theorem format_vnd_exact:
  "parse_int (undot (FormatVND n)) = Some (sint n)
    \<and> FormatVND n = (if sint n < 0 then ''-'' else '''') @ grouped (digits_of (nat \<bar>sint n\<bar>))"
proof -
  have f: "FormatVND n = (if sint n < 0 then ''-'' else '''') @ group (digits_of (nat \<bar>sint n\<bar>))"
    using abs_word[of n] by (auto simp: FormatVND_def)
  have "undot (FormatVND n) = (if sint n < 0 then ''-'' else '''') @ undot (group (digits_of (nat \<bar>sint n\<bar>)))"
    unfolding f by (simp add: undot_def)
  also have "\<dots> = format_int (sint n)" by (simp add: undot_group[OF no_dot_digits] format_int_def)
  finally have "undot (FormatVND n) = format_int (sint n)" .
  moreover have "in_int64 (sint n)" using sint_ge[of n] sint_lt[of n] by (simp add: in_int64_def)
  ultimately show ?thesis using f by (simp add: parse_format_int group_grouped)
qed

end
