(* ===== verification/Config.thy ===== *)
theory Config
  imports Go_Text Complex_Main "HOL-Library.State_Monad"
begin

text \<open>
  The configuration, \<open>internal/platform/config\<close>: the parser that collects every problem of the
  environment instead of stopping at the first, \<open>Load\<close> for the services and \<open>LoadFakepay\<close> for
  the payment gateway. The parser is a state monad over \<open>parser\<close>. What the standard library
  does with URLs, durations, decimal fractions and quoting is given by parameters.

  The lemmas show that a configuration that loads satisfies every constraint the services rely
  on, and that a refusal lists every missing or weak secret at once.
\<close>

record parser =
  pa_lookup :: "string \<Rightarrow> string option"
  pa_problems :: "string list"

type_synonym 'a parsing = "(parser, 'a) state"

text \<open>The standard library: \<open>url.Parse\<close> (scheme and host), \<open>time.ParseDuration\<close>, \<open>strconv.ParseFloat\<close>, \<open>%q\<close>.\<close>

datatype float64 = NaN | NegInf | Finite rat | PosInf

record golib =
  url_Parse :: "string \<Rightarrow> (string \<times> string) option"
  ParseDuration :: "string \<Rightarrow> duration option"
  ParseFloat :: "string \<Rightarrow> float64 option"
  quote :: "string \<Rightarrow> string"

section \<open>The parser (config.go)\<close>

definition p_fail :: "string \<Rightarrow> unit parsing" where
  "p_fail msg = State (\<lambda>p. ((), p\<lparr>pa_problems := pa_problems p @ [msg]\<rparr>))"

definition p_get :: "string \<Rightarrow> (string \<times> bool) parsing" where
  "p_get key = State (\<lambda>p.
    (let v = TrimSpace (case pa_lookup p key of None \<Rightarrow> '''' | Some v \<Rightarrow> v)
     in (v, pa_lookup p key \<noteq> None \<and> v \<noteq> ''''), p))"

definition p_str :: "string \<Rightarrow> string \<Rightarrow> string parsing" where
  "p_str key dflt = do { (v, ok) \<leftarrow> p_get key; State_Monad.return (if ok then v else dflt) }"

definition p_required :: "string \<Rightarrow> string parsing" where
  "p_required key = do {
    (v, ok) \<leftarrow> p_get key;
    (if \<not> ok then p_fail (key @ '' is required'') else State_Monad.return ());
    State_Monad.return v }"

definition MinSecretLen :: nat where "MinSecretLen = 32"

definition p_secret :: "string \<Rightarrow> string parsing" where
  "p_secret key = do {
    (v, ok) \<leftarrow> p_get key;
    (if \<not> ok then p_fail (key @ '' is required'')
    else if length v < MinSecretLen then p_fail (key @ '' must be at least 32 characters'')
    else State_Monad.return ());
    State_Monad.return v }"

text \<open>\<open>seen\<close> maps a secret to the variable it was first read from.\<close>

fun distinct_loop :: "(string \<times> string) list \<Rightarrow> (string \<rightharpoonup> string) \<Rightarrow> unit parsing" where
  "distinct_loop [] seen = State_Monad.return ()"
| "distinct_loop ((key, v) # rest) seen =
    (if v = '''' then distinct_loop rest seen
     else case seen v of
       Some other \<Rightarrow> do { p_fail (key @ '' must differ from '' @ other); distinct_loop rest seen }
     | None \<Rightarrow> distinct_loop rest (seen(v \<mapsto> key)))"

definition distinctSecrets :: "(string \<rightharpoonup> string) \<Rightarrow> unit parsing" where
  "distinctSecrets secrets = distinct_loop
     (map (\<lambda>key. (key, case secrets key of None \<Rightarrow> '''' | Some v \<Rightarrow> v))
       [''JWT_SECRET'', ''ADMISSION_SECRET'', ''WEBHOOK_SECRET'', ''TICKET_SECRET'']) Map.empty"

definition p_oneOf :: "golib \<Rightarrow> string \<Rightarrow> string \<Rightarrow> string list \<Rightarrow> string parsing" where
  "p_oneOf go key dflt allowed = do {
    v \<leftarrow> p_str key dflt;
    (if v \<in> set allowed then State_Monad.return ()
    else p_fail (key @ '' must be one of '' @ Join_with ''|'' allowed @ '', got '' @ quote go v));
    State_Monad.return v }"

definition p_positiveInt :: "golib \<Rightarrow> string \<Rightarrow> int \<Rightarrow> int \<Rightarrow> int parsing" where
  "p_positiveInt go key dflt maxVal = do {
    (v, ok) \<leftarrow> p_get key;
    if \<not> ok then State_Monad.return dflt
    else let bad = do {
        p_fail (key @ '' must be an integer in [1, '' @ format_int maxVal @ ''], got '' @ quote go v);
        State_Monad.return dflt }
      in case parse_int v of
        None \<Rightarrow> bad
      | Some n \<Rightarrow> if n \<le> 0 \<or> n > maxVal then bad else State_Monad.return n }"

definition p_duration :: "golib \<Rightarrow> string \<Rightarrow> duration \<Rightarrow> bool \<Rightarrow> duration parsing" where
  "p_duration go key dflt allowZero = do {
    (v, ok) \<leftarrow> p_get key;
    if \<not> ok then State_Monad.return dflt
    else let bad = do {
        p_fail (key @ '' must be a positive duration like 10m or 30s, got '' @ quote go v);
        State_Monad.return dflt }
      in case ParseDuration go v of
        None \<Rightarrow> bad
      | Some d \<Rightarrow> if d < 0 \<or> (d = 0 \<and> \<not> allowZero) then bad else State_Monad.return d }"

definition p_boolean :: "golib \<Rightarrow> string \<Rightarrow> bool \<Rightarrow> bool parsing" where
  "p_boolean go key dflt = do {
    (v, ok) \<leftarrow> p_get key;
    if \<not> ok then State_Monad.return dflt
    else case ParseBool v of
        None \<Rightarrow> do { p_fail (key @ '' must be true or false, got '' @ quote go v); State_Monad.return dflt }
      | Some b \<Rightarrow> State_Monad.return b }"

definition p_list :: "string \<Rightarrow> string \<Rightarrow> string list parsing" where
  "p_list key dflt = do {
    v \<leftarrow> p_str key dflt;
    let out = filter (\<lambda>item. item \<noteq> '''') (map TrimSpace (Split CHR '','' v));
    (if out = [] then p_fail (key @ '' must contain at least one entry'') else State_Monad.return ());
    State_Monad.return out }"

definition is_http_url :: "golib \<Rightarrow> string \<Rightarrow> bool" where
  "is_http_url go v = (case url_Parse go v of
     None \<Rightarrow> False
   | Some (scheme, host) \<Rightarrow> (scheme = ''http'' \<or> scheme = ''https'') \<and> host \<noteq> '''')"

definition p_httpURL :: "golib \<Rightarrow> string \<Rightarrow> string \<Rightarrow> string parsing" where
  "p_httpURL go key dflt = do {
    raw \<leftarrow> p_str key dflt;
    let v = trim_right (\<lambda>c. c = CHR ''/'') raw;
    (if is_http_url go v then State_Monad.return ()
    else p_fail (key @ '' must be an absolute http(s) URL, got '' @ quote go v));
    State_Monad.return v }"

section \<open>Load (config.go)\<close>

definition EnvDev :: string where "EnvDev = ''dev''"
definition EnvProd :: string where "EnvProd = ''prod''"
definition BackendPG :: string where "BackendPG = ''pg''"
definition BackendRedis :: string where "BackendRedis = ''redis''"

definition cfg_second :: duration where "cfg_second = 1000000000"
definition MaxInt32 :: int where "MaxInt32 = 2147483647"

record Config =
  AppEnv :: string
  DatabaseURL :: string
  DBMaxConns :: int
  RedisAddr :: string
  KafkaBrokers :: "string list"
  InventoryBackend :: string
  HoldTTL :: duration
  HoldGrace :: duration
  AdmissionTTL :: duration
  AdmitInterval :: duration
  AdmitBatch :: int
  ExpiryInterval :: duration
  RequireAdmissionSet :: bool
  JWTSecret :: string
  AdmissionSecret :: string
  WebhookSecret :: string
  TicketSecret :: string
  FakepayURL :: string
  PublicBaseURL :: string
  OTLPEndpoint :: string
  TelegramBotToken :: string
  TelegramChatID :: string

definition IsDev :: "Config \<Rightarrow> bool" where
  "IsDev c \<longleftrightarrow> AppEnv c = EnvDev"

text \<open>The fields are read in the order of the literal, which is the order of the problems.\<close>

definition read_config :: "golib \<Rightarrow> Config parsing" where
  "read_config go = do {
    app_env \<leftarrow> p_oneOf go ''APP_ENV'' EnvDev [EnvDev, EnvProd];
    database \<leftarrow> p_required ''DATABASE_URL'';
    conns \<leftarrow> p_positiveInt go ''DB_MAX_CONNS'' 20 MaxInt32;
    redis_addr \<leftarrow> p_str ''REDIS_ADDR'' ''localhost:6379'';
    brokers \<leftarrow> p_list ''KAFKA_BROKERS'' ''localhost:19092'';
    backend \<leftarrow> p_oneOf go ''INVENTORY_BACKEND'' BackendRedis [BackendPG, BackendRedis];
    hold_ttl \<leftarrow> p_duration go ''HOLD_TTL'' (600 * cfg_second) False;
    hold_grace \<leftarrow> p_duration go ''HOLD_GRACE'' (30 * cfg_second) True;
    admission_ttl \<leftarrow> p_duration go ''ADMISSION_TTL'' (300 * cfg_second) False;
    admit_interval \<leftarrow> p_duration go ''ADMIT_INTERVAL'' cfg_second False;
    batch \<leftarrow> p_positiveInt go ''ADMIT_BATCH'' 200 MaxInt32;
    expiry_interval \<leftarrow> p_duration go ''EXPIRY_INTERVAL'' (5 * cfg_second) False;
    admission \<leftarrow> p_boolean go ''REQUIRE_ADMISSION'' True;
    jwt \<leftarrow> p_secret ''JWT_SECRET'';
    adm \<leftarrow> p_secret ''ADMISSION_SECRET'';
    webhook \<leftarrow> p_secret ''WEBHOOK_SECRET'';
    ticket \<leftarrow> p_secret ''TICKET_SECRET'';
    fakepay \<leftarrow> p_httpURL go ''FAKEPAY_URL'' ''http://localhost:8090'';
    base \<leftarrow> p_httpURL go ''PUBLIC_BASE_URL'' ''http://localhost:8080'';
    otlp \<leftarrow> p_str ''OTEL_EXPORTER_OTLP_ENDPOINT'' '''';
    bot \<leftarrow> p_str ''TELEGRAM_BOT_TOKEN'' '''';
    chat \<leftarrow> p_str ''TELEGRAM_CHAT_ID'' '''';
    distinctSecrets [''JWT_SECRET'' \<mapsto> jwt, ''ADMISSION_SECRET'' \<mapsto> adm, ''WEBHOOK_SECRET'' \<mapsto> webhook,
      ''TICKET_SECRET'' \<mapsto> ticket];
    (if (bot = '''') \<noteq> (chat = '''')
     then p_fail ''TELEGRAM_BOT_TOKEN and TELEGRAM_CHAT_ID must be set together'' else State_Monad.return ());
    State_Monad.return \<lparr>AppEnv = app_env, DatabaseURL = database, DBMaxConns = conns, RedisAddr = redis_addr,
      KafkaBrokers = brokers, InventoryBackend = backend, HoldTTL = hold_ttl, HoldGrace = hold_grace,
      AdmissionTTL = admission_ttl, AdmitInterval = admit_interval, AdmitBatch = batch,
      ExpiryInterval = expiry_interval, RequireAdmissionSet = admission, JWTSecret = jwt, AdmissionSecret = adm,
      WebhookSecret = webhook, TicketSecret = ticket, FakepayURL = fakepay, PublicBaseURL = base,
      OTLPEndpoint = otlp, TelegramBotToken = bot, TelegramChatID = chat\<rparr> }"

text \<open>What the parser read, or the problems of the \<open>ValidationError\<close>.\<close>

definition parsed :: "'a parsing \<Rightarrow> (string \<Rightarrow> string option) \<Rightarrow> string list + 'a" where
  "parsed m look = (case run_state m \<lparr>pa_lookup = look, pa_problems = []\<rparr> of
     (c, p) \<Rightarrow> if pa_problems p \<noteq> [] then Inl (pa_problems p) else Inr c)"

definition Load :: "golib \<Rightarrow> (string \<Rightarrow> string option) \<Rightarrow> string list + Config" where
  "Load go look = parsed (read_config go) look"

text \<open>
  The attributes that are logged. \<open>redacted\<close> is \<open>url.Parse\<close> followed by \<open>Redacted\<close>, \<open>dur\<close> is
  \<open>Duration.String\<close>.
\<close>

datatype log_attr = LogString string | LogInt int | LogBool bool | LogStrings "string list"

definition redactURL :: "(string \<Rightarrow> string option) \<Rightarrow> string \<Rightarrow> string" where
  "redactURL redacted raw = (case redacted raw of None \<Rightarrow> ''<unparseable>'' | Some u \<Rightarrow> u)"

definition LogValue :: "(string \<Rightarrow> string option) \<Rightarrow> (duration \<Rightarrow> string) \<Rightarrow> Config \<Rightarrow> (string \<times> log_attr) list" where
  "LogValue redacted dur c = [
     (''app_env'', LogString (AppEnv c)),
     (''database_url'', LogString (redactURL redacted (DatabaseURL c))),
     (''db_max_conns'', LogInt (DBMaxConns c)),
     (''redis_addr'', LogString (RedisAddr c)),
     (''kafka_brokers'', LogStrings (KafkaBrokers c)),
     (''inventory_backend'', LogString (InventoryBackend c)),
     (''hold_ttl'', LogString (dur (HoldTTL c))),
     (''hold_grace'', LogString (dur (HoldGrace c))),
     (''admission_ttl'', LogString (dur (AdmissionTTL c))),
     (''admit_interval'', LogString (dur (AdmitInterval c))),
     (''admit_batch'', LogInt (AdmitBatch c)),
     (''expiry_interval'', LogString (dur (ExpiryInterval c))),
     (''require_admission'', LogBool (RequireAdmissionSet c)),
     (''fakepay_url'', LogString (FakepayURL c)),
     (''public_base_url'', LogString (PublicBaseURL c)),
     (''tracing_enabled'', LogBool (OTLPEndpoint c \<noteq> '''')),
     (''telegram_enabled'', LogBool (TelegramBotToken c \<noteq> ''''))]"

section \<open>LoadFakepay (fakepay.go)\<close>

record Fakepay =
  fk_WebhookSecret :: string
  fk_PublicURL :: string
  fk_DelayMin :: duration
  fk_DelayMax :: duration
  fk_DuplicateRate :: float64
  fk_LateRate :: float64
  fk_LateExtra :: duration
  fk_FailRate :: float64
  fk_CallbackPrefix :: string

definition Millisecond :: duration where "Millisecond = 1000000"
definition MaxInt64 :: int where "MaxInt64 = 9223372036854775807"

definition p_millis :: "golib \<Rightarrow> string \<Rightarrow> int \<Rightarrow> duration parsing" where
  "p_millis go key dflt = do {
    (v, ok) \<leftarrow> p_get key;
    if \<not> ok then State_Monad.return (dflt * Millisecond)
    else let bad = do {
        p_fail (key @ '' must be a non-negative number of milliseconds that fits a duration, got '' @ quote go v);
        State_Monad.return (dflt * Millisecond) }
      in case parse_int v of
        None \<Rightarrow> bad
      | Some n \<Rightarrow> if n < 0 \<or> n > go_div MaxInt64 Millisecond then bad
          else State_Monad.return (int64 (n * Millisecond)) }"

fun is_probability :: "float64 \<Rightarrow> bool" where
  "is_probability (Finite r) \<longleftrightarrow> 0 \<le> r \<and> r \<le> 1"
| "is_probability _ \<longleftrightarrow> False"

definition p_rate :: "golib \<Rightarrow> string \<Rightarrow> float64 \<Rightarrow> float64 parsing" where
  "p_rate go key dflt = do {
    (v, ok) \<leftarrow> p_get key;
    if \<not> ok then State_Monad.return dflt
    else let bad = do {
        p_fail (key @ '' must be a number between 0 and 1, got '' @ quote go v);
        State_Monad.return dflt }
      in case ParseFloat go v of
        None \<Rightarrow> bad
      | Some f \<Rightarrow> if \<not> is_probability f then bad else State_Monad.return f }"

text \<open>The default rates 0.2, 0.05 and 0.1 as the binary fractions they are.\<close>

definition read_fakepay :: "golib \<Rightarrow> Fakepay parsing" where
  "read_fakepay go = do {
    webhook \<leftarrow> p_secret ''WEBHOOK_SECRET'';
    public \<leftarrow> p_httpURL go ''FAKEPAY_URL'' ''http://localhost:8090'';
    delay_min \<leftarrow> p_millis go ''FAKEPAY_DELAY_MS_MIN'' 100;
    delay_max \<leftarrow> p_millis go ''FAKEPAY_DELAY_MS_MAX'' 2000;
    duplicate \<leftarrow> p_rate go ''FAKEPAY_DUPLICATE_RATE'' (Finite (3602879701896397 / 2 ^ 54));
    late \<leftarrow> p_rate go ''FAKEPAY_LATE_RATE'' (Finite (3602879701896397 / 2 ^ 56));
    extra \<leftarrow> p_millis go ''FAKEPAY_LATE_EXTRA_MS'' 660000;
    fail_rate \<leftarrow> p_rate go ''FAKEPAY_5XX_RATE'' (Finite (3602879701896397 / 2 ^ 55));
    prefix \<leftarrow> p_httpURL go ''PUBLIC_BASE_URL'' ''http://localhost:8080'';
    (if delay_min > delay_max
     then p_fail ''FAKEPAY_DELAY_MS_MIN must not exceed FAKEPAY_DELAY_MS_MAX'' else State_Monad.return ());
    State_Monad.return \<lparr>fk_WebhookSecret = webhook, fk_PublicURL = public, fk_DelayMin = delay_min,
      fk_DelayMax = delay_max, fk_DuplicateRate = duplicate, fk_LateRate = late, fk_LateExtra = extra,
      fk_FailRate = fail_rate, fk_CallbackPrefix = prefix\<rparr> }"

definition LoadFakepay :: "golib \<Rightarrow> (string \<Rightarrow> string option) \<Rightarrow> string list + Fakepay" where
  "LoadFakepay go look = parsed (read_fakepay go) look"

section \<open>What a parser accepts\<close>

text \<open>A parser keeps the environment, only adds problems, and without one its result satisfies P.\<close>

definition accepts :: "'a parsing \<Rightarrow> ('a \<Rightarrow> bool) \<Rightarrow> bool" where
  "accepts m P \<longleftrightarrow> (\<forall>p a p'. run_state m p = (a, p') \<longrightarrow> pa_lookup p' = pa_lookup p
     \<and> (\<exists>ps. pa_problems p' = pa_problems p @ ps \<and> (ps = [] \<longrightarrow> P a)))"

named_theorems accept_intros

lemma accepts_return [accept_intros]: "P a \<Longrightarrow> accepts (State_Monad.return a) P"
  by (simp add: accepts_def State_Monad.return_def)

lemma accepts_fail [accept_intros]: "accepts (p_fail msg) P"
  by (simp add: accepts_def p_fail_def)

lemma accepts_bind:
  assumes "accepts m P" and "\<And>a. accepts (k a) (\<lambda>b. P a \<longrightarrow> Q b)"
  shows "accepts (State_Monad.bind m k) Q"
  unfolding accepts_def
proof (intro allI impI)
  fix p b p2
  assume "run_state (State_Monad.bind m k) p = (b, p2)"
  then obtain a p1 where 1: "run_state m p = (a, p1)" and 2: "run_state (k a) p1 = (b, p2)"
    by (auto simp: State_Monad.bind_def split: prod.splits)
  obtain ps where ps: "pa_lookup p1 = pa_lookup p" "pa_problems p1 = pa_problems p @ ps" "ps = [] \<longrightarrow> P a"
    using assms(1) 1 unfolding accepts_def by blast
  obtain qs where "pa_lookup p2 = pa_lookup p1" "pa_problems p2 = pa_problems p1 @ qs" "qs = [] \<longrightarrow> P a \<longrightarrow> Q b"
    using assms(2)[of a] 2 unfolding accepts_def by blast
  then show "pa_lookup p2 = pa_lookup p \<and> (\<exists>ps. pa_problems p2 = pa_problems p @ ps \<and> (ps = [] \<longrightarrow> Q b))"
    using ps by auto
qed

lemma accepts_mono: "accepts m P \<Longrightarrow> (\<And>a. P a \<Longrightarrow> Q a) \<Longrightarrow> accepts m Q"
  unfolding accepts_def by blast

lemma accepts_guards:
  "accepts (k ()) (\<lambda>x. \<not> b \<and> \<not> c \<longrightarrow> Q x)
    \<Longrightarrow> accepts (State_Monad.bind (if b then p_fail m else if c then p_fail n else State_Monad.return ()) k) Q"
  by (rule accepts_bind[where P = "\<lambda>_. \<not> b \<and> \<not> c"]) (auto intro: accept_intros)

lemma accepts_guard:
  "accepts (k ()) (\<lambda>x. \<not> b \<longrightarrow> Q x)
    \<Longrightarrow> accepts (State_Monad.bind (if b then p_fail m else State_Monad.return ()) k) Q"
  by (rule accepts_bind[where P = "\<lambda>_. \<not> b"]) (auto intro: accept_intros)

lemma accepts_unless:
  "accepts (k ()) (\<lambda>x. b \<longrightarrow> Q x)
    \<Longrightarrow> accepts (State_Monad.bind (if b then State_Monad.return () else p_fail m) k) Q"
  by (rule accepts_bind[where P = "\<lambda>_. b"]) (auto intro: accept_intros)

lemma accepts_fail_then [accept_intros]: "accepts (State_Monad.bind (p_fail m) (\<lambda>_. State_Monad.return a)) P"
  by (auto intro: accepts_bind[where P = "\<lambda>_. False"] accept_intros)

lemma accepts_get: "accepts (p_get key) (\<lambda>(v, ok). ok \<longrightarrow> v \<noteq> [])"
  by (auto simp: accepts_def p_get_def Let_def)

lemmas parser_defs = p_str_def p_required_def p_secret_def p_oneOf_def p_positiveInt_def p_duration_def
  p_boolean_def p_list_def p_httpURL_def p_millis_def p_rate_def

lemma accepts_str: "accepts (p_str key dflt) (\<lambda>_. True)"
  by (auto simp: p_str_def intro!: accepts_bind[OF accepts_get] accept_intros)

lemma accepts_required: "accepts (p_required key) (\<lambda>v. v \<noteq> [])"
  unfolding p_required_def by (auto intro!: accepts_bind[OF accepts_get] accepts_guard accept_intros)

lemma accepts_secret: "accepts (p_secret key) (\<lambda>v. MinSecretLen \<le> length v)"
  unfolding p_secret_def by (auto intro!: accepts_bind[OF accepts_get] accepts_guards accept_intros)

lemma accepts_oneOf: "accepts (p_oneOf go key dflt allowed) (\<lambda>v. v \<in> set allowed)"
  unfolding p_oneOf_def by (auto intro!: accepts_bind[OF accepts_str] accepts_unless accept_intros)

lemma accepts_positiveInt:
  "0 < dflt \<Longrightarrow> dflt \<le> hi \<Longrightarrow> accepts (p_positiveInt go key dflt hi) (\<lambda>n. 0 < n \<and> n \<le> hi)"
  by (auto simp: p_positiveInt_def Let_def split: option.split intro!: accepts_bind[OF accepts_get] accept_intros)

lemma accepts_duration:
  "0 < dflt \<Longrightarrow> accepts (p_duration go key dflt zero) (\<lambda>d. 0 \<le> d \<and> (d = 0 \<longrightarrow> zero))"
  by (auto simp: p_duration_def Let_def split: option.split intro!: accepts_bind[OF accepts_get] accept_intros)

lemma accepts_boolean: "accepts (p_boolean go key dflt) (\<lambda>_. True)"
  by (auto simp: p_boolean_def split: option.split intro!: accepts_bind[OF accepts_get] accept_intros)

lemma accepts_list: "accepts (p_list key dflt) (\<lambda>out. out \<noteq> [] \<and> [] \<notin> set out)"
  unfolding p_list_def Let_def by (auto intro!: accepts_bind[OF accepts_str] accepts_guard accept_intros)

lemma accepts_httpURL: "accepts (p_httpURL go key dflt) (is_http_url go)"
  unfolding p_httpURL_def Let_def by (auto intro!: accepts_bind[OF accepts_str] accepts_unless accept_intros)

lemma accepts_millis: "0 \<le> dflt \<Longrightarrow> dflt \<le> 1000000 \<Longrightarrow> accepts (p_millis go key dflt) (\<lambda>d. 0 \<le> d \<and> in_int64 d)"
  by (auto simp: p_millis_def Let_def Millisecond_def MaxInt64_def in_int64_def int64_id go_div_nonneg split: option.split
    intro!: accepts_bind[OF accepts_get] accept_intros)

lemma accepts_rate: "is_probability dflt \<Longrightarrow> accepts (p_rate go key dflt) is_probability"
  by (auto simp: p_rate_def Let_def split: option.split intro!: accepts_bind[OF accepts_get] accept_intros)

lemma accepts_distinct:
  "accepts (distinct_loop kvs seen)
    (\<lambda>_. (\<forall>(key, v) \<in> set kvs. v \<noteq> [] \<longrightarrow> seen v = None) \<and> distinct (filter (\<lambda>v. v \<noteq> []) (map snd kvs)))"
proof (induction kvs seen rule: distinct_loop.induct)
  case (2 key v rest seen)
  show ?case
  proof (cases "v = [] \<or> seen v \<noteq> None")
    case True
    then show ?thesis using 2 by (auto intro!: accepts_bind[where P = "\<lambda>_. False"] accept_intros elim: accepts_mono split: option.split)
  next
    case False
    then have "accepts (distinct_loop rest (seen(v \<mapsto> key))) (\<lambda>_. (\<forall>(k, u) \<in> set rest. u \<noteq> [] \<longrightarrow> (seen(v \<mapsto> key)) u = None)
        \<and> distinct (filter (\<lambda>v. v \<noteq> []) (map snd rest)))" using 2 by (simp del: fun_upd_apply)
    then show ?thesis using False by (auto elim!: accepts_mono split: if_splits)
  qed
qed (simp add: accepts_return)

text \<open>What the services rely on.\<close>

definition valid_config :: "golib \<Rightarrow> Config \<Rightarrow> bool" where
  "valid_config go c \<longleftrightarrow>
    AppEnv c \<in> {EnvDev, EnvProd} \<and> InventoryBackend c \<in> {BackendPG, BackendRedis} \<and> DatabaseURL c \<noteq> []
    \<and> 0 < DBMaxConns c \<and> DBMaxConns c \<le> MaxInt32 \<and> 0 < AdmitBatch c \<and> AdmitBatch c \<le> MaxInt32
    \<and> KafkaBrokers c \<noteq> [] \<and> [] \<notin> set (KafkaBrokers c)
    \<and> 0 < HoldTTL c \<and> 0 \<le> HoldGrace c \<and> 0 < AdmissionTTL c \<and> 0 < AdmitInterval c \<and> 0 < ExpiryInterval c
    \<and> list_all (\<lambda>s. MinSecretLen \<le> length s) [JWTSecret c, AdmissionSecret c, WebhookSecret c, TicketSecret c]
    \<and> distinct [JWTSecret c, AdmissionSecret c, WebhookSecret c, TicketSecret c]
    \<and> is_http_url go (FakepayURL c) \<and> is_http_url go (PublicBaseURL c)
    \<and> (TelegramBotToken c = [] \<longleftrightarrow> TelegramChatID c = [])"

lemma accepts_distinctSecrets:
  "accepts (distinctSecrets [''JWT_SECRET'' \<mapsto> a, ''ADMISSION_SECRET'' \<mapsto> b, ''WEBHOOK_SECRET'' \<mapsto> c, ''TICKET_SECRET'' \<mapsto> d])
    (\<lambda>_. distinct (filter (\<lambda>v. v \<noteq> []) [a, b, c, d]))"
  unfolding distinctSecrets_def by (rule accepts_mono[OF accepts_distinct]) (simp split: if_splits)

lemmas accepts_steps = accepts_bind[OF accepts_oneOf] accepts_bind[OF accepts_required] accepts_bind[OF accepts_str]
    accepts_bind[OF accepts_list] accepts_bind[OF accepts_boolean] accepts_bind[OF accepts_secret]
    accepts_bind[OF accepts_httpURL] accepts_bind[OF accepts_distinctSecrets] accepts_guard accepts_return
    accepts_bind[OF accepts_positiveInt] accepts_bind[OF accepts_duration] accepts_bind[OF accepts_millis]
    accepts_bind[OF accepts_rate]

lemma accepts_config: "accepts (read_config go) (valid_config go)"
  unfolding read_config_def
  by (rule accepts_steps | simp add: cfg_second_def MaxInt32_def)+
    (auto simp: valid_config_def MinSecretLen_def MaxInt32_def)

definition valid_fakepay :: "golib \<Rightarrow> Fakepay \<Rightarrow> bool" where
  "valid_fakepay go c \<longleftrightarrow> MinSecretLen \<le> length (fk_WebhookSecret c)
    \<and> is_http_url go (fk_PublicURL c) \<and> is_http_url go (fk_CallbackPrefix c)
    \<and> 0 \<le> fk_DelayMin c \<and> fk_DelayMin c \<le> fk_DelayMax c \<and> in_int64 (fk_DelayMax c)
    \<and> 0 \<le> fk_LateExtra c \<and> in_int64 (fk_LateExtra c)
    \<and> list_all is_probability [fk_DuplicateRate c, fk_LateRate c, fk_FailRate c]"

lemma accepts_fakepay: "accepts (read_fakepay go) (valid_fakepay go)"
  unfolding read_fakepay_def
  by (rule accepts_steps | simp)+ (auto simp: valid_fakepay_def)

lemma parsed_accepts: "accepts m P \<Longrightarrow> parsed m look = Inr c \<Longrightarrow> P c"
  by (fastforce simp: accepts_def parsed_def split: prod.splits if_splits)

section \<open>What a parser reports\<close>

definition unset :: "(string \<Rightarrow> string option) \<Rightarrow> string \<Rightarrow> bool" where
  "unset look key \<longleftrightarrow> TrimSpace (case look key of None \<Rightarrow> [] | Some v \<Rightarrow> v) = []"

definition reports :: "'a parsing \<Rightarrow> (string \<Rightarrow> string option) \<Rightarrow> string \<Rightarrow> bool" where
  "reports m look msg \<longleftrightarrow> (\<forall>p a p'. run_state m p = (a, p') \<and> pa_lookup p = look \<longrightarrow> msg \<in> set (pa_problems p'))"

lemma reports_now: "reports m look msg \<Longrightarrow> (\<And>a. accepts (k a) (\<lambda>_. True)) \<Longrightarrow> reports (State_Monad.bind m k) look msg"
  unfolding reports_def accepts_def by (fastforce simp: State_Monad.bind_def split: prod.splits)

lemma reports_later: "accepts m P \<Longrightarrow> (\<And>a. reports (k a) look msg) \<Longrightarrow> reports (State_Monad.bind m k) look msg"
  unfolding reports_def accepts_def by (fastforce simp: State_Monad.bind_def split: prod.splits)

lemma reports_required: "unset look key \<Longrightarrow> reports (p_required key) look (key @ '' is required'')"
  by (auto simp: reports_def unset_def p_required_def p_get_def p_fail_def State_Monad.bind_def State_Monad.return_def Let_def)

lemma reports_secret: "unset look key \<Longrightarrow> reports (p_secret key) look (key @ '' is required'')"
  by (auto simp: reports_def unset_def p_secret_def p_get_def p_fail_def State_Monad.bind_def State_Monad.return_def Let_def)

definition required_keys :: "string list" where
  "required_keys = [''DATABASE_URL'', ''JWT_SECRET'', ''ADMISSION_SECRET'', ''WEBHOOK_SECRET'', ''TICKET_SECRET'']"

lemmas reports_steps = reports_later[OF accepts_oneOf] reports_later[OF accepts_required] reports_later[OF accepts_str]
    reports_later[OF accepts_list] reports_later[OF accepts_boolean] reports_later[OF accepts_secret]
    reports_later[OF accepts_positiveInt] reports_later[OF accepts_duration]

lemma reports_config:
  "reports (p_required ''DATABASE_URL'') look msg \<Longrightarrow> reports (read_config go) look msg"
  unfolding read_config_def
  by (rule reports_now reports_steps accepts_steps | assumption | (simp add: cfg_second_def MaxInt32_def; fail))+

lemma reports_config_secret:
  assumes "\<And>k. k = key \<Longrightarrow> reports (p_secret k) look msg"
    and "key \<in> {''JWT_SECRET'', ''ADMISSION_SECRET'', ''WEBHOOK_SECRET'', ''TICKET_SECRET''}"
  shows "reports (read_config go) look msg"
  using assms(2) unfolding insert_iff empty_iff read_config_def
  apply (elim disjE FalseE)
  apply ((rule reports_now[OF assms(1)], (simp; fail)) | rule reports_steps | rule accepts_steps | (simp add: cfg_second_def MaxInt32_def; fail))+
  done

text \<open>
  C33. A configuration that loads satisfies everything the services rely on: known environment
  and backend, positive pools, batches, lifetimes and intervals, at least one broker, absolute
  http(s) URLs, four different secrets of at least 32 bytes, and both or neither of the
  Telegram settings. A refusal is never empty and names every required variable that is not
  set, all of them at once.
\<close>

theorem load_validates:
  "case Load go look of
     Inr c \<Rightarrow> valid_config go c
   | Inl ps \<Rightarrow> ps \<noteq> [] \<and> {key \<in> set required_keys. unset look key} \<subseteq> {key. (key @ '' is required'') \<in> set ps}"
proof (cases "Load go look")
  case (Inr c)
  then show ?thesis using parsed_accepts[OF accepts_config] by (simp add: Load_def)
next
  case (Inl ps)
  obtain c p where r: "run_state (read_config go) \<lparr>pa_lookup = look, pa_problems = []\<rparr> = (c, p)" by fastforce
  then have ps: "ps = pa_problems p" "ps \<noteq> []" using Inl by (auto simp: Load_def parsed_def split: if_splits)
  have "(key @ '' is required'') \<in> set ps" if "key \<in> set required_keys" "unset look key" for key
  proof -
    have "reports (read_config go) look (key @ '' is required'')"
    proof (cases "key = ''DATABASE_URL''")
      case True
      then show ?thesis using reports_config reports_required[OF that(2)] by blast
    next
      case False
      then have k: "key \<in> {''JWT_SECRET'', ''ADMISSION_SECRET'', ''WEBHOOK_SECRET'', ''TICKET_SECRET''}"
        using that(1) unfolding required_keys_def by simp
      show ?thesis by (rule reports_config_secret[OF _ k]) (simp only: reports_secret[OF that(2)])
    qed
    moreover have "pa_lookup \<lparr>pa_lookup = look, pa_problems = []\<rparr> = look" by simp
    ultimately show ?thesis using r unfolding reports_def ps(1) by blast
  qed
  then show ?thesis using Inl ps by auto
qed

lemma loaded_fakepay: "LoadFakepay go look = Inr c \<Longrightarrow> valid_fakepay go c"
  using parsed_accepts[OF accepts_fakepay] by (simp add: LoadFakepay_def)

text \<open>Only whether the Telegram token is set is logged, and nothing of a secret.\<close>

lemma LogValue_no_secrets:
  "LogValue redacted dur (c\<lparr>JWTSecret := a, AdmissionSecret := b, WebhookSecret := d, TicketSecret := e, TelegramChatID := f\<rparr>)
    = LogValue redacted dur c"
  by (simp add: LogValue_def)

text \<open>An environment with the required variables alone loads with the defaults.\<close>

definition small_env :: "string \<Rightarrow> string option" where
  "small_env = [''DATABASE_URL'' \<mapsto> ''postgres:'', ''JWT_SECRET'' \<mapsto> replicate 32 CHR ''a'', ''ADMISSION_SECRET'' \<mapsto> replicate 32 CHR ''b'',
     ''WEBHOOK_SECRET'' \<mapsto> replicate 32 CHR ''c'', ''TICKET_SECRET'' \<mapsto> replicate 33 CHR ''d'']"

definition small_go :: golib where
  "small_go = \<lparr>url_Parse = (\<lambda>u. if has_prefix u ''http://'' then Some (''http'', takeWhile (\<lambda>c. c \<noteq> CHR ''/'') (drop 7 u)) else None),
     ParseDuration = (\<lambda>_. None), ParseFloat = (\<lambda>_. None), quote = (\<lambda>s. s)\<rparr>"

lemma small_env_loads:
  "map_sum (\<lambda>x. x) (\<lambda>c. (HoldTTL c, AdmitBatch c, InventoryBackend c, KafkaBrokers c)) (Load small_go small_env)
    = Inr (600000000000, 200, ''redis'', [''localhost:19092''])"
  by code_simp

end
