(* ===== verification/Gateway.thy ===== *)
theory Gateway
  imports Http Payments Money Config
begin

text \<open>
  Payments seen from outside: the client of the gateway, \<open>internal/payment/client.go\<close>, and the
  fake gateway, \<open>internal/fakepay\<close>: registering a payment, completing it, refunds, the payment
  page, and the delivery of signed webhooks with retries. Random draws, the answers to posts and
  whether a wait was interrupted are parameters; so is the text of an error and of the page. A
  goroutine that is started is an entry of \<open>gw_scheduled\<close>.

  The lemmas show that a registration and a refund, once made, stay in force, that every webhook
  scheduled is for the registered amount and passes booking's validation and signature, and
  that a delivery makes a bounded number of posts with doubling waits and ends at the first
  accepted one.
\<close>

section \<open>The client (payment/client.go)\<close>

record CreatePaymentRequest =
  cp_order_id :: uuid
  cp_amount_vnd :: int
  cp_callback_url :: string

record RefundRequest =
  rr_order_id :: uuid
  rr_provider_txn_id :: string
  rr_amount_vnd :: int

definition create_json :: "CreatePaymentRequest \<Rightarrow> json" where
  "create_json r = JObj [(''order_id'', JStr (cp_order_id r)), (''amount_vnd'', JNum (cp_amount_vnd r)),
     (''callback_url'', JStr (cp_callback_url r))]"

definition refund_json :: "RefundRequest \<Rightarrow> json" where
  "refund_json r = JObj [(''order_id'', JStr (rr_order_id r)), (''provider_txn_id'', JStr (rr_provider_txn_id r)),
     (''amount_vnd'', JNum (rr_amount_vnd r))]"

text \<open>A POST of a body to an URL: the status and the body of the answer, or the transport's error.\<close>

type_synonym 'w http_post = "string \<Rightarrow> string \<Rightarrow> ('w, (int \<times> string) res) prog"

definition Client_post :: "'w http_post \<Rightarrow> (string \<Rightarrow> 'a option) \<Rightarrow> string \<Rightarrow> string \<Rightarrow> json \<Rightarrow> ('w, 'a res) prog" where
  "Client_post http dec baseURL path v =
    bindp (http (baseURL @ path) (json_text v)) (\<lambda>r. Ret (case r of
      Inl e \<Rightarrow> Inl e
    | Inr (status, raw) \<Rightarrow>
        if status \<noteq> 200 then Inl [Opaque ''status'']
        else case dec (take (64 * 1024) raw) of None \<Rightarrow> Inl [Opaque ''json''] | Some x \<Rightarrow> Inr x))"

definition Client_CreatePayment ::
  "'w http_post \<Rightarrow> (string \<Rightarrow> string option) \<Rightarrow> string \<Rightarrow> CreatePaymentRequest \<Rightarrow> ('w, string res) prog" where
  "Client_CreatePayment http dec baseURL req = Client_post http dec baseURL ''/v1/payments'' (create_json req)"

definition Client_Refund ::
  "'w http_post \<Rightarrow> (string \<Rightarrow> string option) \<Rightarrow> string \<Rightarrow> RefundRequest \<Rightarrow> ('w, unit res) prog" where
  "Client_Refund http dec baseURL req =
    bindp (Client_post http dec baseURL ''/v1/refunds'' (refund_json req)) (\<lambda>r. Ret (map_sum (\<lambda>e. e) (\<lambda>_. ()) r))"

section \<open>The server (fakepay.go)\<close>

record gateway_config =
  gc_WebhookSecret :: string
  gc_PublicURL :: string
  gc_DelayMin :: duration
  gc_DelayMax :: duration
  gc_DuplicateRate :: float64
  gc_LateRate :: float64
  gc_LateExtra :: duration
  gc_FailRate :: float64
  gc_MaxResends :: int
  gc_RetryBase :: duration
  gc_CallbackPrefix :: string

record gateway_server =
  gw_cfg :: gateway_config
  gw_payments :: "uuid \<Rightarrow> CreatePaymentRequest option"
  gw_refunds :: "string \<Rightarrow> RefundRequest option"
  gw_txns :: "string \<Rightarrow> uuid option"
  gw_scheduled :: "(CreatePaymentRequest \<times> string \<times> string) list"

definition New :: "gateway_config \<Rightarrow> gateway_server" where
  "New cfg =
    (let cfg = (if gc_MaxResends cfg \<le> 0 then cfg\<lparr>gc_MaxResends := 8\<rparr> else cfg);
         cfg = (if gc_RetryBase cfg \<le> 0 then cfg\<lparr>gc_RetryBase := 1000000000\<rparr> else cfg)
     in \<lparr>gw_cfg = cfg, gw_payments = Map.empty, gw_refunds = Map.empty, gw_txns = Map.empty, gw_scheduled = []\<rparr>)"

definition validCreate :: "golib \<Rightarrow> gateway_config \<Rightarrow> CreatePaymentRequest \<Rightarrow> unit res" where
  "validCreate go cfg req =
    (let prefix = gc_CallbackPrefix cfg in
     if cp_order_id req = uuid_nil then Inl [ErrInvalidRequest, Opaque ''order_id is required'']
     else if cp_amount_vnd req \<le> 0 then Inl [ErrInvalidRequest, Opaque ''amount_vnd must be positive'']
     else if \<not> is_http_url go (cp_callback_url req)
     then Inl [ErrInvalidRequest, Opaque ''callback_url must be an absolute http(s) URL'']
     else if prefix \<noteq> '''' \<and> cp_callback_url req \<noteq> prefix \<and> \<not> has_prefix (cp_callback_url req) (prefix @ ''/'')
     then Inl [ErrInvalidRequest, Opaque (''callback_url must be under '' @ prefix)]
     else Inr ())"

definition register :: "gateway_server \<Rightarrow> CreatePaymentRequest \<Rightarrow> gateway_server \<times> CreatePaymentRequest" where
  "register s req = (case gw_payments s (cp_order_id req) of
     Some p \<Rightarrow> (s, p)
   | None \<Rightarrow> (s\<lparr>gw_payments := (gw_payments s)(cp_order_id req \<mapsto> req)\<rparr>, req))"

definition gw_paymentURL :: "gateway_server \<Rightarrow> uuid \<Rightarrow> string" where
  "gw_paymentURL s oid = gc_PublicURL (gw_cfg s) @ ''/pay/'' @ oid"

definition badRequest :: "(goerror \<Rightarrow> string) \<Rightarrow> goerror \<Rightarrow> response" where
  "badRequest err_text e = WriteError 400 \<lparr>eb_code = ''BAD_REQUEST'', eb_message = err_text e, eb_details = []\<rparr>"

definition handleCreate ::
  "golib \<Rightarrow> (goerror \<Rightarrow> string) \<Rightarrow> (string \<Rightarrow> CreatePaymentRequest option) \<Rightarrow> gateway_server \<Rightarrow> request
    \<Rightarrow> gateway_server \<times> response" where
  "handleCreate go err_text dec s r = (case DecodeJSON dec r of
     Inl e \<Rightarrow> (s, badRequest err_text e)
   | Inr req \<Rightarrow> (case validCreate go (gw_cfg s) req of
       Inl e \<Rightarrow> (s, badRequest err_text e)
     | Inr _ \<Rightarrow> (case register s req of (s, p) \<Rightarrow>
         (s, WriteJSON 200 (JObj [(''payment_url'', JStr (gw_paymentURL s (cp_order_id p)))])))))"

text \<open>The body \<open>json.Marshal\<close> makes of a webhook.\<close>

definition webhook_text :: "Webhook \<Rightarrow> string" where
  "webhook_text wh = json_text (JObj [(''provider_txn_id'', JStr (wh_provider_txn_id wh)), (''order_id'', JStr (wh_order_id wh)),
     (''amount_vnd'', JNum (wh_amount_vnd wh)), (''status'', JStr (wh_status wh)), (''paid_at'', JTime (wh_paid_at wh))])"

definition webhook_of :: "CreatePaymentRequest \<Rightarrow> string \<Rightarrow> string \<Rightarrow> time \<Rightarrow> Webhook" where
  "webhook_of p txn result now = \<lparr>wh_provider_txn_id = txn, wh_order_id = cp_order_id p, wh_amount_vnd = cp_amount_vnd p,
     wh_status = result, wh_paid_at = now\<rparr>"

text \<open>\<open>rand\<close> is what \<open>rand.Text\<close> gives.\<close>

definition gw_complete ::
  "string \<Rightarrow> time \<Rightarrow> gateway_server \<Rightarrow> CreatePaymentRequest \<Rightarrow> string \<Rightarrow> gateway_server \<times> string res" where
  "gw_complete rand now s p result =
    (if result \<noteq> StatusSucceeded \<and> result \<noteq> StatusFailed
     then (s, Inl [ErrInvalidRequest, Opaque ''result must be SUCCEEDED or FAILED''])
     else let txn = ''fp_'' @ rand; body = webhook_text (webhook_of p txn result now) in
       (s\<lparr>gw_txns := (gw_txns s)(txn \<mapsto> cp_order_id p), gw_scheduled := gw_scheduled s @ [(p, txn, body)]\<rparr>, Inr txn))"

definition NoPaymentText :: string where
  "NoPaymentText = ''Kh'' @ [CHR 0xC3, CHR 0xB4] @ ''ng c'' @ [CHR 0xC3, CHR 0xB3] @ '' thanh to'' @ [CHR 0xC3, CHR 0xA1]
     @ ''n cho '' @ [CHR 0xC4, CHR 0x91, CHR 0xC6, CHR 0xA1] @ ''n n'' @ [CHR 0xC3, CHR 0xA0] @ ''y''"

definition paymentNotFound :: response where
  "paymentNotFound = WriteError 404 \<lparr>eb_code = ''PAYMENT_NOT_FOUND'', eb_message = NoPaymentText, eb_details = []\<rparr>"

definition completed :: "(goerror \<Rightarrow> string) \<Rightarrow> gateway_server \<times> string res \<Rightarrow> gateway_server \<times> response" where
  "completed err_text x = (case x of
     (s, Inl e) \<Rightarrow> (s, badRequest err_text e)
   | (s, Inr txn) \<Rightarrow> (s, WriteJSON 200 (JObj [(''provider_txn_id'', JStr txn)])))"

definition handleComplete ::
  "(goerror \<Rightarrow> string) \<Rightarrow> (string \<Rightarrow> uuid option) \<Rightarrow> (string \<Rightarrow> string option) \<Rightarrow> string \<Rightarrow> time
    \<Rightarrow> gateway_server \<Rightarrow> request \<Rightarrow> gateway_server \<times> response" where
  "handleComplete err_text uuid_parse dec rand now s r = (case uuid_parse (hr_param r ''orderID'') of
     None \<Rightarrow> (s, paymentNotFound)
   | Some oid \<Rightarrow> (case DecodeJSON dec r of
       Inl e \<Rightarrow> (s, badRequest err_text e)
     | Inr result \<Rightarrow> (case gw_payments s oid of
         None \<Rightarrow> (s, paymentNotFound)
       | Some p \<Rightarrow> completed err_text (gw_complete rand now s p result))))"

definition handleAuto ::
  "golib \<Rightarrow> (goerror \<Rightarrow> string) \<Rightarrow> (string \<Rightarrow> (CreatePaymentRequest \<times> string) option) \<Rightarrow> string \<Rightarrow> time
    \<Rightarrow> gateway_server \<Rightarrow> request \<Rightarrow> gateway_server \<times> response" where
  "handleAuto go err_text dec rand now s r = (case DecodeJSON dec r of
     Inl e \<Rightarrow> (s, badRequest err_text e)
   | Inr (req, result) \<Rightarrow>
       let result = (if result = '''' then StatusSucceeded else result) in
       (case validCreate go (gw_cfg s) req of
         Inl e \<Rightarrow> (s, badRequest err_text e)
       | Inr _ \<Rightarrow> (case register s req of (s, p) \<Rightarrow> completed err_text (gw_complete rand now s p result))))"

definition handleRefund ::
  "(goerror \<Rightarrow> string) \<Rightarrow> (string \<Rightarrow> RefundRequest option) \<Rightarrow> gateway_server \<Rightarrow> request \<Rightarrow> gateway_server \<times> response" where
  "handleRefund err_text dec s r = (case DecodeJSON dec r of
     Inl e \<Rightarrow> (s, badRequest err_text e)
   | Inr req \<Rightarrow>
       if rr_provider_txn_id req = '''' \<or> rr_order_id req = uuid_nil \<or> rr_amount_vnd req \<le> 0
       then (s, badRequest err_text
         [ErrInvalidRequest, Opaque ''order_id, provider_txn_id and a positive amount_vnd are required''])
       else (if gw_refunds s (rr_provider_txn_id req) = None
             then s\<lparr>gw_refunds := (gw_refunds s)(rr_provider_txn_id req \<mapsto> req)\<rparr> else s,
         WriteJSON 200 (JObj [(''status'', JStr StatusSucceeded)])))"

text \<open>\<open>page\<close> renders the template with an order id and an amount; \<open>http.Error\<close> adds a line break.\<close>

definition handlePage ::
  "(string \<Rightarrow> string \<Rightarrow> string) \<Rightarrow> (string \<Rightarrow> uuid option) \<Rightarrow> gateway_server \<Rightarrow> request \<Rightarrow> response" where
  "handlePage page uuid_parse s r =
    (let notFound = \<lparr>rs_status = 404, rs_headers = [(''Content-Type'', ''text/plain; charset=utf-8''),
           (''X-Content-Type-Options'', ''nosniff'')], rs_body = Bytes (NoPaymentText @ [CHR 0x0A])\<rparr>
     in case uuid_parse (hr_param r ''orderID'') of
       None \<Rightarrow> notFound
     | Some oid \<Rightarrow> (case gw_payments s oid of
         None \<Rightarrow> notFound
       | Some p \<Rightarrow> \<lparr>rs_status = 200, rs_headers = [(''Content-Type'', ''text/html; charset=utf-8'')],
           rs_body = Bytes (page (cp_order_id p) (FormatVND (word_of_int (cp_amount_vnd p))))\<rparr>))"

section \<open>Delivering webhooks\<close>

fun below_rate :: "rat \<Rightarrow> float64 \<Rightarrow> bool" where
  "below_rate x (Finite r) \<longleftrightarrow> x < r"
| "below_rate x PosInf \<longleftrightarrow> True"
| "below_rate x _ \<longleftrightarrow> False"

text \<open>The draws of one delivery: \<open>Int64N\<close>, the two \<open>Float64\<close> and \<open>IntN(3)\<close>.\<close>

record draws =
  dr_Int64N :: "int \<Rightarrow> int"
  dr_late :: rat
  dr_duplicate :: rat
  dr_IntN3 :: nat

definition delay_of :: "gateway_config \<Rightarrow> draws \<Rightarrow> duration" where
  "delay_of cfg rnd =
    (let delay = gc_DelayMin cfg; span = int64 (gc_DelayMax cfg - gc_DelayMin cfg);
         delay = (if span > 0 then int64 (delay + dr_Int64N rnd (int64 (span + 1))) else delay)
     in if below_rate (dr_late rnd) (gc_LateRate cfg) then int64 (delay + gc_LateExtra cfg) else delay)"

definition copies_of :: "gateway_config \<Rightarrow> draws \<Rightarrow> nat" where
  "copies_of cfg rnd = (if below_rate (dr_duplicate rnd) (gc_DuplicateRate cfg) then 2 + dr_IntN3 rnd else 1)"

text \<open>\<open>sleep\<close>: \<open>alive\<close> tells that the context had not ended when the wait began, \<open>elapsed\<close> that the timer was first.\<close>

definition sleep :: "bool \<Rightarrow> bool \<Rightarrow> duration \<Rightarrow> bool" where
  "sleep alive elapsed d = (if d \<le> 0 then alive else elapsed)"

datatype delivery = Delivered | GivenUp | Cancelled

text \<open>
  \<open>post\<close> sends the signed body and answers the status. The n-th post is followed by the draw
  \<open>roll n\<close> and by a wait of which \<open>slept n\<close> tells how it ended. The result is how the delivery
  ended, the number of posts and the waits.
\<close>

function sendWithRetry ::
  "gateway_config \<Rightarrow> ('w, int res) prog \<Rightarrow> (nat \<Rightarrow> rat) \<Rightarrow> (nat \<Rightarrow> bool \<times> bool) \<Rightarrow> nat \<Rightarrow> duration
    \<Rightarrow> ('w, delivery \<times> nat \<times> duration list) prog" where
  "sendWithRetry cfg post roll slept posts wait = bindp post (\<lambda>status.
     let forcedFailure = (status = Inr 200 \<and> below_rate (roll posts) (gc_FailRate cfg)) in
     if status = Inr 200 \<and> \<not> forcedFailure then Ret (Delivered, posts, [])
     else if int posts > gc_MaxResends cfg then Ret (GivenUp, posts, [])
     else if \<not> sleep (fst (slept posts)) (snd (slept posts)) wait then Ret (Cancelled, posts, [wait])
     else bindp (sendWithRetry cfg post roll slept (posts + 1) (int64 (wait * 2))) (\<lambda>(d, n, waits).
       Ret (d, n, wait # waits)))"
  by pat_completeness auto
termination by (relation "measure (\<lambda>(cfg, post, roll, slept, posts, wait). nat (gc_MaxResends cfg + 1 - int posts))") auto

declare sendWithRetry.simps [simp del]

text \<open>
  \<open>deliver\<close>: the programs that run at once when the delay has passed. \<open>post\<close> takes the URL, the
  body and the signature.
\<close>

definition deliver ::
  "gateway_config \<Rightarrow> draws \<Rightarrow> bool \<times> bool \<Rightarrow> (string \<Rightarrow> string \<Rightarrow> string \<Rightarrow> ('w, int res) prog)
    \<Rightarrow> (nat \<Rightarrow> nat \<Rightarrow> rat) \<Rightarrow> (nat \<Rightarrow> nat \<Rightarrow> bool \<times> bool) \<Rightarrow> CreatePaymentRequest \<Rightarrow> string
    \<Rightarrow> ('w, delivery \<times> nat \<times> duration list) prog list" where
  "deliver cfg rnd woke post roll slept p body =
    (if \<not> sleep (fst woke) (snd woke) (delay_of cfg rnd) then []
     else map (\<lambda>i. sendWithRetry cfg (post (cp_callback_url p) body (Sign (gc_WebhookSecret cfg) body)) (roll i) (slept i)
            1 (gc_RetryBase cfg)) [0..<copies_of cfg rnd])"

section \<open>A delivery ends\<close>

lemma int64_mult_left: "int64 (int64 a * b) = int64 (a * b)"
proof -
  have "int64 a mod 2 ^ 64 = a mod 2 ^ 64" unfolding int64_def by (simp add: mod_diff_left_eq)
  then have "(int64 a * b) mod 2 ^ 64 = (a * b) mod 2 ^ 64" by (metis mod_mult_left_eq)
  then have "(int64 a * b + 2 ^ 63) mod 2 ^ 64 = (a * b + 2 ^ 63) mod 2 ^ 64" by (metis mod_add_left_eq)
  then show ?thesis unfolding int64_def[of "int64 a * b"] int64_def[of "a * b"] by simp
qed

lemma send_step:
  "sendWithRetry cfg post roll slept posts wait = bindp post (\<lambda>status.
     if status = Inr 200 \<and> \<not> below_rate (roll posts) (gc_FailRate cfg) then Ret (Delivered, posts, [])
     else if int posts > gc_MaxResends cfg then Ret (GivenUp, posts, [])
     else if \<not> sleep (fst (slept posts)) (snd (slept posts)) wait then Ret (Cancelled, posts, [wait])
     else bindp (sendWithRetry cfg post roll slept (posts + 1) (int64 (wait * 2))) (\<lambda>(d, n, waits).
       Ret (d, n, wait # waits)))"
  unfolding sendWithRetry.simps[of cfg post roll slept posts wait] Let_def
  by (rule arg_cong[where f = "bindp post"]) (auto simp: fun_eq_iff)

definition backoffs :: "duration \<Rightarrow> nat \<Rightarrow> duration list" where
  "backoffs wait m = map (\<lambda>i. int64 (wait * 2 ^ i)) [0..<m]"

lemma backoffs_Suc: "wait = int64 wait \<Longrightarrow> backoffs wait (Suc m) = wait # backoffs (int64 (wait * 2)) m"
  by (simp add: backoffs_def upt_conv_Cons int64_mult_left mult.assoc map_Suc_upt[symmetric] del: upt_Suc)

lemma send_result:
  assumes "run fs w (sendWithRetry cfg post roll slept posts wait) = Some (w', d, n, ws)" "wait = int64 wait"
  shows "posts \<le> n \<and> int n \<le> max (gc_MaxResends cfg + 1) (int posts)
    \<and> ws = backoffs wait (length ws) \<and> n + (if d = Cancelled then 1 else 0) = posts + length ws
    \<and> (d = GivenUp \<longrightarrow> int n > gc_MaxResends cfg) \<and> (d = Delivered \<longrightarrow> (\<exists>fs1 w1. run fs1 w1 post = Some (w', Inr 200)))"
  using assms
proof (induction "nat (gc_MaxResends cfg + 1 - int posts)" arbitrary: fs w posts wait ws rule: less_induct)
  case less
  let ?ok = "\<lambda>status. status = Inr 200 \<and> \<not> below_rate (roll posts) (gc_FailRate cfg)"
  obtain fs1 fs2 w1 status where p: "run fs1 w post = Some (w1, status)"
    and k: "run fs2 w1 (if ?ok status then Ret (Delivered, posts, [])
     else if int posts > gc_MaxResends cfg then Ret (GivenUp, posts, [])
     else if \<not> sleep (fst (slept posts)) (snd (slept posts)) wait then Ret (Cancelled, posts, [wait])
     else bindp (sendWithRetry cfg post roll slept (posts + 1) (int64 (wait * 2))) (\<lambda>(d, n, waits).
       Ret (d, n, wait # waits))) = Some (w', d, n, ws)"
    using less(2) unfolding send_step[of cfg post roll slept posts wait] by (elim run_bindE) blast
  show ?case
  proof (cases "?ok status \<or> int posts > gc_MaxResends cfg \<or> \<not> sleep (fst (slept posts)) (snd (slept posts)) wait")
    case True
    then show ?thesis using k p less(3) by (auto simp: backoffs_Suc[OF less(3)] backoffs_def[of _ 0] split: if_splits)
  next
    case False
    then have "run fs2 w1 (bindp (sendWithRetry cfg post roll slept (posts + 1) (int64 (wait * 2))) (\<lambda>(d, n, waits).
       Ret (d, n, wait # waits))) = Some (w', d, n, ws)" using k by (simp only: if_False simp_thms de_Morgan_disj)
    then obtain fs3 ws1 where r: "run fs3 w1 (sendWithRetry cfg post roll slept (posts + 1) (int64 (wait * 2))) = Some (w', d, n, ws1)"
      and ws: "ws = wait # ws1" by (elim run_bindE) auto
    have "int64 (wait * 2) = int64 (int64 (wait * 2))" by (simp add: int64_id in_int64_int64)
    then show ?thesis using less(1)[OF _ r] False by (auto simp: ws backoffs_Suc[OF less(3)])
  qed
qed

lemma New_cfg: "1 \<le> gc_MaxResends (gw_cfg (New c)) \<and> 1 \<le> gc_RetryBase (gw_cfg (New c))"
  by (simp add: New_def Let_def)

text \<open>
  C31. A delivery of the gateway is bounded: it makes between one and \<open>MaxResends\<close> + 1 posts, and
  its waits are the base wait, twice it, four times it and so on, without wrapping around as
  long as the last one fits a duration. It gives up only after the last post, and it counts as
  delivered only when the last post was answered with status 200.
\<close>

theorem delivery_bounded:
  assumes "cfg = gw_cfg (New c)" "gc_RetryBase cfg * 2 ^ nat (gc_MaxResends cfg) < 2 ^ 63"
    and "run fs w (sendWithRetry cfg post roll slept 1 (gc_RetryBase cfg)) = Some (w', d, n, waits)"
  shows "1 \<le> n \<and> int n \<le> gc_MaxResends cfg + 1 \<and> length waits \<le> n
    \<and> waits = map (\<lambda>i. gc_RetryBase cfg * 2 ^ i) [0..<length waits]
    \<and> (d = GivenUp \<longrightarrow> int n = gc_MaxResends cfg + 1)
    \<and> (d = Delivered \<longrightarrow> (\<exists>fs1 w1. run fs1 w1 post = Some (w', Inr 200)))"
proof -
  let ?b = "gc_RetryBase cfg" and ?m = "nat (gc_MaxResends cfg)"
  have pos: "1 \<le> gc_MaxResends cfg" "1 \<le> ?b" using New_cfg[of c] assms(1) by auto
  have fits: "int64 (?b * 2 ^ i) = ?b * 2 ^ i" if "i \<le> ?m" for i
  proof -
    have "?b * 2 ^ i \<le> ?b * 2 ^ ?m" using pos that by (intro mult_left_mono power_increasing) auto
    moreover have "0 \<le> ?b * 2 ^ i" using pos by simp
    ultimately have "in_int64 (?b * 2 ^ i)" using assms(2) unfolding in_int64_def by linarith
    then show ?thesis by (rule int64_id)
  qed
  note r = send_result[OF assms(3)] fits[of 0]
  have len: "length waits \<le> ?m + 1" "length waits \<le> n" using r pos by (auto split: if_splits)
  have "length waits \<le> ?m \<or> d = Cancelled" using r pos by (auto split: if_splits)
  moreover have "length waits \<le> ?m + 1 \<Longrightarrow> i < length waits \<Longrightarrow> i \<le> ?m" for i by simp
  ultimately have "map (\<lambda>i. int64 (?b * 2 ^ i)) [0..<length waits] = map (\<lambda>i. ?b * 2 ^ i) [0..<length waits]"
    using len fits by (intro map_cong) auto
  moreover have "waits = backoffs ?b (length waits)" using r by simp
  ultimately have "waits = map (\<lambda>i. ?b * 2 ^ i) [0..<length waits]" unfolding backoffs_def by (rule trans[rotated])
  then show ?thesis using r pos len by (auto split: if_splits)
qed

definition small_gateway :: gateway_config where
  "small_gateway = \<lparr>gc_WebhookSecret = ''secret'', gc_PublicURL = ''http://pay'', gc_DelayMin = 0, gc_DelayMax = 0,
     gc_DuplicateRate = Finite 0, gc_LateRate = Finite 0, gc_LateExtra = 0, gc_FailRate = Finite 0,
     gc_MaxResends = 0, gc_RetryBase = 0, gc_CallbackPrefix = ''http://booking''\<rparr>"

lemma small_gateway_cfg:
  "gc_MaxResends (gw_cfg (New small_gateway)) = 8" "gc_RetryBase (gw_cfg (New small_gateway)) = 1000000000"
  "gc_FailRate (gw_cfg (New small_gateway)) = Finite 0" "gc_CallbackPrefix (gw_cfg (New small_gateway)) = ''http://booking''"
  by (simp_all add: New_def small_gateway_def)

text \<open>Booking fails once and then answers 200.\<close>

theorem delivery_bounded_witness:
  "\<exists>w' n waits. run [Fail, Reply] (0 :: nat) (sendWithRetry (gw_cfg (New small_gateway)) (call (\<lambda>w. (w + 1, Inr 200)))
      (\<lambda>_. 1) (\<lambda>_. (True, True)) 1 1000000000) = Some (w', Delivered, n, waits) \<and> n = 2 \<and> waits = [1000000000]"
proof -
  have r: "run [Fail, Reply] (0 :: nat) (sendWithRetry (gw_cfg (New small_gateway)) (call (\<lambda>w. (w + 1, Inr 200)))
      (\<lambda>_. 1) (\<lambda>_. (True, True)) 1 (gc_RetryBase (gw_cfg (New small_gateway)))) = Some (1, Delivered, 2, [1000000000])"
    by (simp add: send_step[of _ _ _ _ 1] send_step[of _ _ _ _ "Suc 0"] send_step[of _ _ _ _ "Suc (Suc 0)"]
      small_gateway_cfg sleep_def)
  show ?thesis using r delivery_bounded[OF refl _ r] by (simp add: small_gateway_cfg)
qed

section \<open>The gateway as a state machine\<close>

text \<open>One request to any endpoint. \<open>rand.Text\<close> gives 26 characters.\<close>

inductive gw_step :: "golib \<Rightarrow> gateway_server \<Rightarrow> gateway_server \<Rightarrow> bool" for go where
  create: "gw_step go s (fst (handleCreate go err_text dec s r))"
| complete: "length rand = 26 \<Longrightarrow> gw_step go s (fst (handleComplete err_text uuid_parse dec_result rand now s r))"
| auto: "length rand = 26 \<Longrightarrow> gw_step go s (fst (handleAuto go err_text dec_auto rand now s r))"
| refund: "gw_step go s (fst (handleRefund err_text dec_refund s r))"

abbreviation gw_steps :: "golib \<Rightarrow> gateway_server \<Rightarrow> gateway_server \<Rightarrow> bool" where
  "gw_steps go \<equiv> (gw_step go)\<^sup>*\<^sup>*"

definition gw_keeps :: "gateway_server \<Rightarrow> gateway_server \<Rightarrow> bool" where
  "gw_keeps s s' \<longleftrightarrow> gw_cfg s' = gw_cfg s \<and> gw_payments s \<subseteq>\<^sub>m gw_payments s' \<and> gw_refunds s \<subseteq>\<^sub>m gw_refunds s'
    \<and> (\<exists>new. gw_scheduled s' = gw_scheduled s @ new)"

lemma gw_keeps_refl: "gw_keeps s s"
  by (simp add: gw_keeps_def)

lemma gw_keeps_trans: "gw_keeps a b \<Longrightarrow> gw_keeps b c \<Longrightarrow> gw_keeps a c"
  by (auto simp: gw_keeps_def intro: map_le_trans)

lemma register_keeps: "register s req = (s', p) \<Longrightarrow> gw_keeps s s' \<and> gw_payments s' (cp_order_id req) = Some p"
  by (auto simp: register_def gw_keeps_def map_le_def split: option.splits)

lemma complete_keeps: "gw_keeps s (fst (gw_complete rand now s p result))"
  by (simp add: gw_complete_def gw_keeps_def Let_def)

lemma completed_fst [simp]: "fst (completed err_text x) = fst x"
  by (cases x; cases "snd x") (simp_all add: completed_def)

lemma gw_step_keeps: "gw_step go s s' \<Longrightarrow> gw_keeps s s'"
proof (induction rule: gw_step.induct)
  case (create s err_text dec r)
  show ?case by (auto simp: handleCreate_def gw_keeps_refl split: sum.split prod.split dest: register_keeps)
next
  case (complete rand s err_text uuid_parse dec now r)
  show ?case by (auto simp: handleComplete_def gw_keeps_refl complete_keeps split: sum.split option.split)
next
  case (auto rand s err_text dec now r)
  show ?case
    by (auto simp: handleAuto_def gw_keeps_refl Let_def split: sum.split prod.split
      dest!: register_keeps intro: gw_keeps_trans[OF _ complete_keeps])
next
  case (refund s err_text dec r)
  show ?case by (auto simp: handleRefund_def gw_keeps_def map_le_def split: sum.split)
qed

lemma gw_steps_keep: "gw_steps go s s' \<Longrightarrow> gw_keeps s s'"
  by (induction rule: rtranclp_induct) (auto intro: gw_keeps_refl gw_keeps_trans dest: gw_step_keeps)

text \<open>A registered payment passed the validation; a scheduled webhook is for one, and booking will accept it.\<close>

definition webhook_ok :: "gateway_server \<Rightarrow> CreatePaymentRequest \<times> string \<times> string \<Rightarrow> bool" where
  "webhook_ok s d = (case d of (p, txn, body) \<Rightarrow> gw_payments s (cp_order_id p) = Some p
     \<and> (\<exists>wh. body = webhook_text wh \<and> Validate wh = Inr () \<and> wh_provider_txn_id wh = txn \<and> wh_order_id wh = cp_order_id p
       \<and> wh_amount_vnd wh = cp_amount_vnd p))"

definition gw_inv :: "golib \<Rightarrow> gateway_server \<Rightarrow> bool" where
  "gw_inv go s \<longleftrightarrow> (\<forall>oid p. gw_payments s oid = Some p \<longrightarrow> cp_order_id p = oid \<and> validCreate go (gw_cfg s) p = Inr ())
    \<and> (\<forall>d \<in> set (gw_scheduled s). webhook_ok s d)"

lemma register_inv:
  assumes "gw_inv go s" "validCreate go (gw_cfg s) req = Inr ()" "register s req = (s', p)"
  shows "gw_inv go s' \<and> gw_payments s' (cp_order_id p) = Some p"
proof (cases "gw_payments s (cp_order_id req)")
  case None
  then have "s' = s\<lparr>gw_payments := (gw_payments s)(cp_order_id req \<mapsto> req)\<rparr>" "p = req"
    using assms(3) by (auto simp: register_def)
  moreover have "webhook_ok s d \<Longrightarrow> webhook_ok s' d" for d using None calculation by (auto simp: webhook_ok_def)
  ultimately show ?thesis using assms(1,2) by (auto simp: gw_inv_def)
next
  case (Some q)
  then show ?thesis using assms(1,3) by (auto simp: register_def gw_inv_def)
qed

lemma webhook_valid:
  assumes "validCreate go cfg p = Inr ()" "result = StatusSucceeded \<or> result = StatusFailed" "length rand = 26"
  shows "Validate (webhook_of p (''fp_'' @ rand) result now) = Inr ()"
  using assms by (auto simp: Validate_def webhook_of_def validCreate_def Let_def split: if_splits)

lemma complete_inv:
  assumes "gw_inv go s" "gw_payments s (cp_order_id p) = Some p" "length rand = 26"
  shows "gw_inv go (fst (gw_complete rand now s p result))"
proof (cases "result = StatusSucceeded \<or> result = StatusFailed")
  case True
  let ?wh = "webhook_of p (''fp_'' @ rand) result now"
  have "validCreate go (gw_cfg s) p = Inr ()" using assms(1,2) unfolding gw_inv_def by blast
  from webhook_valid[OF this True assms(3)] have "Validate ?wh = Inr ()" .
  moreover have "wh_provider_txn_id ?wh = ''fp_'' @ rand" "wh_order_id ?wh = cp_order_id p" "wh_amount_vnd ?wh = cp_amount_vnd p"
    by (simp_all add: webhook_of_def)
  ultimately have "webhook_ok s (p, ''fp_'' @ rand, webhook_text ?wh)"
    using assms(2) unfolding webhook_ok_def prod.case by blast
  moreover have "webhook_ok (s\<lparr>gw_txns := x, gw_scheduled := y\<rparr>) d = webhook_ok s d" for x y d by (simp add: webhook_ok_def)
  ultimately show ?thesis using assms(1) True unfolding gw_complete_def Let_def gw_inv_def by simp
next
  case False
  then show ?thesis using assms(1) by (simp add: gw_complete_def)
qed

lemma registered: "gw_inv go s \<Longrightarrow> gw_payments s oid = Some p \<Longrightarrow> gw_payments s (cp_order_id p) = Some p"
  unfolding gw_inv_def by blast

lemma gw_step_inv: "gw_step go s s' \<Longrightarrow> gw_inv go s \<Longrightarrow> gw_inv go s'"
proof (induction rule: gw_step.induct)
  case (create s err_text dec r)
  then show ?case by (auto simp: handleCreate_def split: sum.split prod.split dest: register_inv)
next
  case (complete rand s err_text uuid_parse dec now r)
  then show ?case
    by (auto simp: handleComplete_def split: sum.split option.split
      intro: complete_inv[OF complete.prems registered[OF complete.prems]])
next
  case (auto rand s err_text dec now r)
  have "gw_inv go (fst (gw_complete rand now s' p result))"
    if "validCreate go (gw_cfg s) req = Inr ()" "register s req = (s', p)" for req s' p result
    using register_inv[OF auto.prems that] auto.hyps by (simp add: complete_inv)
  then show ?case using auto.prems by (simp add: handleAuto_def Let_def split: sum.split prod.split)
next
  case (refund s err_text dec r)
  then show ?case by (auto simp: handleRefund_def gw_inv_def webhook_ok_def split: sum.split)
qed

lemma gw_reach_inv: "gw_steps go (New cfg) s \<Longrightarrow> gw_inv go s"
proof (induction rule: rtranclp_induct)
  case base
  show ?case by (simp add: gw_inv_def New_def Let_def)
qed (rule gw_step_inv)

text \<open>
  C30. Every webhook the gateway schedules, after any sequence of requests to any endpoint, is for
  a registered payment and carries its order and its amount, has a positive amount, passes
  booking's validation, goes to a URL under the configured prefix, and its signature verifies.
\<close>

theorem scheduled_webhooks_valid:
  assumes "gw_steps go (New cfg) s" "(p, txn, body) \<in> set (gw_scheduled s)"
  shows "\<exists>wh. body = webhook_text wh \<and> Validate wh = Inr () \<and> wh_provider_txn_id wh = txn
    \<and> gw_payments s (wh_order_id wh) = Some p \<and> wh_amount_vnd wh = cp_amount_vnd p \<and> 0 < cp_amount_vnd p
    \<and> (gc_CallbackPrefix cfg = [] \<or> cp_callback_url p = gc_CallbackPrefix cfg
      \<or> has_prefix (cp_callback_url p) (gc_CallbackPrefix cfg @ ''/''))
    \<and> Verify secret body (Sign secret body)"
proof -
  have i: "gw_inv go s" by (rule gw_reach_inv[OF assms(1)])
  then have "webhook_ok s (p, txn, body)" using assms(2) unfolding gw_inv_def by blast
  then obtain wh where wh: "body = webhook_text wh" "Validate wh = Inr ()" "wh_provider_txn_id wh = txn"
      "wh_order_id wh = cp_order_id p" "wh_amount_vnd wh = cp_amount_vnd p" "gw_payments s (cp_order_id p) = Some p"
    unfolding webhook_ok_def prod.case by blast
  have "gw_cfg s = gw_cfg (New cfg)" using gw_steps_keep[OF assms(1)] by (simp add: gw_keeps_def)
  then have "gc_CallbackPrefix (gw_cfg s) = gc_CallbackPrefix cfg" by (simp add: New_def Let_def)
  moreover have "validCreate go (gw_cfg s) p = Inr ()" using i wh(6) unfolding gw_inv_def by blast
  moreover have "Verify secret body (Sign secret body)" by (simp add: Verify_def Sign_def hex_decode_encode)
  ultimately show ?thesis using wh by (intro exI[of _ wh]) (auto simp: validCreate_def Let_def split: if_splits)
qed

definition paid_request :: CreatePaymentRequest where
  "paid_request = \<lparr>cp_order_id = ''q'', cp_amount_vnd = 500, cp_callback_url = ''http://booking/hook''\<rparr>"

definition plain_request :: request where
  "plain_request = \<lparr>hr_header = (\<lambda>_. []), hr_param = (\<lambda>_. ''q''), hr_query = (\<lambda>_. []), hr_body = ''{}''\<rparr>"

text \<open>A load test pays an order in one call.\<close>

theorem scheduled_webhooks_valid_witness:
  "\<exists>s p txn body wh. gw_steps small_go (New small_gateway) s \<and> (p, txn, body) \<in> set (gw_scheduled s)
    \<and> body = webhook_text wh \<and> wh_amount_vnd wh = 500 \<and> Verify ''secret'' body (Sign ''secret'' body)"
proof -
  let ?rand = "replicate 26 CHR ''A''"
  let ?s = "fst (handleAuto small_go (\<lambda>_. []) (\<lambda>_. Some (paid_request, [])) ?rand 0 (New small_gateway) plain_request)"
  have s: "gw_steps small_go (New small_gateway) ?s" by (rule r_into_rtranclp, rule gw_step.auto) simp
  have c: "gc_CallbackPrefix (gw_cfg (New small_gateway)) = ''http://booking''" by (rule small_gateway_cfg)
  have v: "validCreate small_go (gw_cfg (New small_gateway)) paid_request = Inr ()"
    by (simp add: validCreate_def paid_request_def c is_http_url_def small_go_def uuid_nil_def)
  have n: "gw_payments (New small_gateway) x = None" for x by (simp add: New_def Let_def)
  have m: "(paid_request, ''fp_'' @ ?rand, webhook_text (webhook_of paid_request (''fp_'' @ ?rand) StatusSucceeded 0))
      \<in> set (gw_scheduled ?s)"
    by (simp add: handleAuto_def DecodeJSON_def plain_request_def maxBodyBytes_def v register_def n gw_complete_def Let_def)
  have "cp_amount_vnd paid_request = 500" by (simp add: paid_request_def)
  then obtain wh where "webhook_text (webhook_of paid_request (''fp_'' @ ?rand) StatusSucceeded 0) = webhook_text wh" "wh_amount_vnd wh = 500"
      "Verify ''secret'' (webhook_text wh) (Sign ''secret'' (webhook_text wh))"
    using scheduled_webhooks_valid[OF s m, of "''secret''"] by (elim exE conjE) simp
  then show ?thesis using s m by (intro exI conjI) auto
qed

text \<open>
  Money goes back once per transaction: a refund the gateway has recorded stays as it is
  through any sequence of requests, a further request for the same transaction is answered
  with success without another refund, and registered payments are never replaced either.
\<close>

theorem refunded_once:
  assumes "gw_refunds s txn = Some r" "gw_steps go s s'"
    and "DecodeJSON dec q = Inr r'" "rr_provider_txn_id r' = txn" "txn \<noteq> []" "rr_order_id r' \<noteq> uuid_nil" "0 < rr_amount_vnd r'"
  shows "gw_refunds s' txn = Some r \<and> gw_payments s \<subseteq>\<^sub>m gw_payments s'
    \<and> handleRefund err_text dec s' q = (s', WriteJSON 200 (JObj [(''status'', JStr StatusSucceeded)]))"
proof -
  have k: "gw_payments s \<subseteq>\<^sub>m gw_payments s'" "gw_refunds s \<subseteq>\<^sub>m gw_refunds s'"
    using gw_steps_keep[OF assms(2)] by (simp_all add: gw_keeps_def)
  then have "gw_refunds s' txn = Some r" using assms(1) by (fastforce simp: map_le_def dom_def)
  then show ?thesis using k assms(3-7) by (auto simp: handleRefund_def)
qed

theorem refunded_once_witness:
  "handleRefund (\<lambda>_. []) (\<lambda>_. Some \<lparr>rr_order_id = ''q'', rr_provider_txn_id = ''fp_1'', rr_amount_vnd = 5\<rparr>)
      (New small_gateway\<lparr>gw_refunds := [''fp_1'' \<mapsto> \<lparr>rr_order_id = ''q'', rr_provider_txn_id = ''fp_1'', rr_amount_vnd = 7\<rparr>]\<rparr>)
      plain_request
    = (New small_gateway\<lparr>gw_refunds := [''fp_1'' \<mapsto> \<lparr>rr_order_id = ''q'', rr_provider_txn_id = ''fp_1'', rr_amount_vnd = 7\<rparr>]\<rparr>,
       WriteJSON 200 (JObj [(''status'', JStr StatusSucceeded)]))"
  (is "handleRefund _ ?dec ?s _ = _")
proof -
  have "DecodeJSON ?dec plain_request = Inr \<lparr>rr_order_id = ''q'', rr_provider_txn_id = ''fp_1'', rr_amount_vnd = 5\<rparr>"
    by (simp add: DecodeJSON_def plain_request_def maxBodyBytes_def)
  from refunded_once[where s = ?s and txn = "''fp_1''" and go = small_go and err_text = "\<lambda>_. []", OF _ rtranclp.rtrancl_refl this]
  show ?thesis by (simp add: uuid_nil_def)
qed

text \<open>
  With a configuration that loads, the delay before a webhook lies between the configured bounds,
  the late ones after the extra, and one to four copies are sent.
\<close>

lemma delay_bounds:
  assumes "0 \<le> gc_DelayMin cfg" "gc_DelayMin cfg \<le> gc_DelayMax cfg" "0 \<le> gc_LateExtra cfg"
    and "gc_DelayMax cfg + gc_LateExtra cfg < 2 ^ 63 - 1" "\<forall>n. 0 < n \<longrightarrow> 0 \<le> dr_Int64N rnd n \<and> dr_Int64N rnd n < n" "dr_IntN3 rnd < 3"
  shows "gc_DelayMin cfg \<le> delay_of cfg rnd \<and> delay_of cfg rnd \<le> gc_DelayMax cfg + gc_LateExtra cfg
    \<and> copies_of cfg rnd \<in> {1..4}"
proof -
  let ?span = "gc_DelayMax cfg - gc_DelayMin cfg"
  have "in_int64 ?span" "in_int64 (?span + 1)" using assms(1-4) by (simp_all add: in_int64_def)
  then have s: "int64 ?span = ?span" "int64 (?span + 1) = ?span + 1" by (simp_all add: int64_id)
  have d: "0 \<le> dr_Int64N rnd (?span + 1)" "dr_Int64N rnd (?span + 1) \<le> ?span"
    using assms(2) assms(5)[rule_format, of "?span + 1"] by auto
  then have "in_int64 (gc_DelayMin cfg + dr_Int64N rnd (?span + 1))" "in_int64 (gc_DelayMin cfg + dr_Int64N rnd (?span + 1) + gc_LateExtra cfg)"
      "in_int64 (gc_DelayMin cfg + gc_LateExtra cfg)"
    using assms(1-4) unfolding in_int64_def by linarith+
  then show ?thesis using assms d by (auto simp: delay_of_def copies_of_def Let_def s int64_id)
qed

end
