(* ===== verification/Caches.thy ===== *)
theory Caches
  imports Go_Text Crypto "HOL-Library.Multiset"
begin

text \<open>
  The in-process caches of booking, \<open>cmd/booking/caches.go\<close> and the pure part of
  \<open>seatmap_cache.go\<close>: payment links, QR images, rendered seat maps and the validators of the
  latter. A Go map is an association list with distinct keys; \<open>order\<close> is the order in which a
  \<open>range\<close> loop visits it, a permutation that may differ from call to call.

  The lemmas show that the caches never exceed their bounds, return what was put in while it is
  valid and nothing else, and that a client's \<open>If-None-Match\<close> matches exactly the seat map
  versions it holds.
\<close>

type_synonym ('k, 'v) entries = "('k \<times> 'v) list"

definition put_entry :: "'k \<Rightarrow> 'v \<Rightarrow> ('k, 'v) entries \<Rightarrow> ('k, 'v) entries" where
  "put_entry k v es = (k, v) # filter (\<lambda>(k', _). k' \<noteq> k) es"

text \<open>Deleting entries in the order they are visited until fewer than \<open>bound\<close> are left.\<close>

fun evict :: "nat \<Rightarrow> ('k, 'v) entries \<Rightarrow> ('k, 'v) entries" where
  "evict bound [] = []"
| "evict bound (e # es) = (if length (e # es) < bound then e # es else evict bound es)"

section \<open>Payment links (caches.go)\<close>

record cachedLink =
  cl_url :: string
  cl_until :: time

record paymentLinkCache =
  pl_max :: nat
  pl_links :: "(uuid, cachedLink) entries"

definition newPaymentLinkCache :: "nat \<Rightarrow> paymentLinkCache" where
  "newPaymentLinkCache m = \<lparr>pl_max = m, pl_links = []\<rparr>"

definition links_get :: "time \<Rightarrow> paymentLinkCache \<Rightarrow> uuid \<Rightarrow> string option" where
  "links_get now c oid = (case map_of (pl_links c) oid of
     None \<Rightarrow> None
   | Some l \<Rightarrow> if \<not> now < cl_until l then None else Some (cl_url l))"

definition links_put ::
  "((uuid, cachedLink) entries \<Rightarrow> (uuid, cachedLink) entries) \<Rightarrow> time \<Rightarrow> uuid \<Rightarrow> string \<Rightarrow> time
    \<Rightarrow> paymentLinkCache \<Rightarrow> paymentLinkCache" where
  "links_put order now oid url until c =
    (let links = (if length (pl_links c) \<ge> pl_max c
           then evict (pl_max c) (order (filter (\<lambda>(_, l). now < cl_until l) (pl_links c))) else pl_links c)
     in c\<lparr>pl_links := put_entry oid \<lparr>cl_url = url, cl_until = until\<rparr> links\<rparr>)"

section \<open>QR images (caches.go)\<close>

record qrCache =
  qr_max :: nat
  qr_pngs :: "(uuid, string) entries"

definition newQRCache :: "nat \<Rightarrow> qrCache" where
  "newQRCache m = \<lparr>qr_max = m, qr_pngs = []\<rparr>"

definition qrs_get :: "qrCache \<Rightarrow> uuid \<Rightarrow> string option" where
  "qrs_get c tid = map_of (qr_pngs c) tid"

definition qrs_put :: "((uuid, string) entries \<Rightarrow> (uuid, string) entries) \<Rightarrow> uuid \<Rightarrow> string \<Rightarrow> qrCache \<Rightarrow> qrCache" where
  "qrs_put order tid png c = c\<lparr>qr_pngs := put_entry tid png (evict (qr_max c) (order (qr_pngs c)))\<rparr>"

section \<open>Seat map validators (seatmap\_cache.go)\<close>

definition versionETag :: "int \<Rightarrow> string" where
  "versionETag version = ''W/'' @ [CHR 0x22] @ ''v'' @ format_int version @ [CHR 0x22]"

definition contentETag :: "string \<Rightarrow> string" where
  "contentETag body = ''W/'' @ [CHR 0x22] @ ''h'' @ hex_encode (take 8 (sha256 body)) @ [CHR 0x22]"

definition etagMatches :: "string \<Rightarrow> string \<Rightarrow> bool" where
  "etagMatches ifNoneMatch etag =
    (if ifNoneMatch = '''' \<or> etag = '''' then False
     else let want = trim_prefix etag ''W/'' in
       list_ex (\<lambda>candidate. let candidate = TrimSpace candidate in candidate = ''*'' \<or> trim_prefix candidate ''W/'' = want)
         (Split CHR '','' ifNoneMatch))"

text \<open>The parts after one that names gzip are not looked at.\<close>

fun accepts_part :: "string list \<Rightarrow> bool" where
  "accepts_part [] = False"
| "accepts_part (part # parts) = (case Cut CHR '';'' (TrimSpace part) of (name, params) \<Rightarrow>
     if \<not> EqualFold (TrimSpace name) ''gzip'' then accepts_part parts
     else let q = filter (\<lambda>c. c \<noteq> CHR '' '') (TrimSpace params) in
       q \<noteq> ''q=0'' \<and> q \<noteq> ''q=0.0'' \<and> q \<noteq> ''q=0.00'' \<and> q \<noteq> ''q=0.000'')"

definition acceptsGzip :: "string \<Rightarrow> bool" where
  "acceptsGzip acceptEncoding = accepts_part (Split CHR '','' acceptEncoding)"

section \<open>Bounded caches\<close>

lemma evict_length: "length (evict n es) \<le> n - 1"
  by (induction es) auto

lemma evict_suffix: "\<exists>gone. es = gone @ evict n es"
  by (induction es) (auto intro: exI[of _ "[]"] exI[of _ "e # gone" for e gone])

lemma evict_sub: "set (evict n es) \<subseteq> set es" "distinct (map fst es) \<Longrightarrow> distinct (map fst (evict n es))"
  using evict_suffix[of es n] by (metis Un_iff set_append subsetI, metis distinct_append map_append)

lemma map_of_put: "map_of (put_entry k v es) k' = (if k' = k then Some v else map_of es k')"
  by (induction es) (auto simp: put_entry_def)

lemma put_length: "distinct (map fst es) \<Longrightarrow> length (put_entry k v es) \<le> Suc (length es)"
  by (simp add: put_entry_def)

lemma put_distinct: "distinct (map fst es) \<Longrightarrow> distinct (map fst (put_entry k v es))"
  by (induction es) (auto simp: put_entry_def)

text \<open>
  What the handlers rely on. The first argument of \<open>put\<close> is what the cache does not control: the
  order of a loop over a map and the clock.
\<close>

locale bounded_cache =
  fixes put :: "'p \<Rightarrow> 'k \<Rightarrow> 'v \<Rightarrow> 'c \<Rightarrow> 'c" and look :: "'c \<Rightarrow> 'k \<Rightarrow> 'v option"
    and filled :: "'c \<Rightarrow> nat" and bound :: "'c \<Rightarrow> nat" and ok :: "'c \<Rightarrow> bool" and fair :: "'p \<Rightarrow> bool"
  assumes put_ok: "ok c \<Longrightarrow> fair p \<Longrightarrow> ok (put p k v c)"
    and put_bound: "bound (put p k v c) = bound c"
    and put_filled: "ok c \<Longrightarrow> fair p \<Longrightarrow> 0 < bound c \<Longrightarrow> filled c \<le> bound c \<Longrightarrow> filled (put p k v c) \<le> bound c"
    and put_same: "look (put p k v c) k = Some v"
    and put_other: "ok c \<Longrightarrow> fair p \<Longrightarrow> k' \<noteq> k \<Longrightarrow> look (put p k v c) k' = None \<or> look (put p k v c) k' = look c k'"
begin

definition puts :: "('p \<times> 'k \<times> 'v) list \<Rightarrow> 'c \<Rightarrow> 'c" where
  "puts ops c = fold (\<lambda>(p, k, v). put p k v) ops c"

lemma puts_snoc: "puts (ops @ [(p, k, v)]) c = put p k v (puts ops c)"
  by (simp add: puts_def)

lemma puts_ok:
  "ok c \<Longrightarrow> 0 < bound c \<Longrightarrow> filled c \<le> bound c \<Longrightarrow> \<forall>(p, _) \<in> set ops. fair p
    \<Longrightarrow> ok (puts ops c) \<and> bound (puts ops c) = bound c \<and> filled (puts ops c) \<le> bound c"
proof (induction ops rule: rev_induct)
  case Nil
  then show ?case by (simp add: puts_def)
next
  case (snoc x xs)
  obtain p k v where x: "x = (p, k, v)" by (cases x)
  then show ?case using snoc put_ok put_bound put_filled[of "puts xs c" p k v] by (simp add: puts_snoc)
qed

lemma puts_look:
  "ok c \<Longrightarrow> 0 < bound c \<Longrightarrow> filled c \<le> bound c \<Longrightarrow> \<forall>(p, _) \<in> set ops. fair p \<Longrightarrow> look c k = None
    \<Longrightarrow> look (puts ops c) k = Some v \<Longrightarrow> map_of (rev (map snd ops)) k = Some v"
proof (induction ops rule: rev_induct)
  case Nil
  then show ?case by (simp add: puts_def)
next
  case (snoc x xs)
  obtain p k' v' where x: "x = (p, k', v')" by (cases x)
  have "ok (puts xs c)" "fair p" using puts_ok[of c xs] snoc.prems x by auto
  then show ?case using snoc put_same[of p k' v' "puts xs c"] put_other[of "puts xs c" p k k' v'] x
    by (auto simp: puts_snoc split: if_splits)
qed

end

definition link_put :: "((uuid, cachedLink) entries \<Rightarrow> (uuid, cachedLink) entries) \<times> time \<Rightarrow> uuid \<Rightarrow> cachedLink
    \<Rightarrow> paymentLinkCache \<Rightarrow> paymentLinkCache" where
  "link_put p oid l c = links_put (fst p) (snd p) oid (cl_url l) (cl_until l) c"

definition permutes_entries :: "(('k, 'v) entries \<Rightarrow> ('k, 'v) entries) \<Rightarrow> bool" where
  "permutes_entries order \<longleftrightarrow> (\<forall>es. mset (order es) = mset es)"

lemma permuted_keys: "permutes_entries order \<Longrightarrow> distinct (map fst (order es)) = distinct (map fst es)"
  unfolding permutes_entries_def by (metis mset_map mset_eq_imp_distinct_iff)

lemma permuted_map_of:
  assumes "permutes_entries order" "distinct (map fst es)" shows "map_of (order es) = map_of es"
  using assms permuted_keys[OF assms(1), of es] unfolding permutes_entries_def
  by (intro map_of_inject_set[THEN iffD2]) (auto dest: mset_eq_setD)

lemma map_of_evict: "distinct (map fst es) \<Longrightarrow> map_of (evict n es) k = None \<or> map_of (evict n es) k = map_of es k"
proof (induction es)
  case (Cons e es)
  moreover have "map_of es (fst e) = None" using Cons.prems by (simp add: map_of_eq_None_iff)
  ultimately show ?case by auto
qed simp

lemma map_of_filter: "distinct (map fst es) \<Longrightarrow> map_of (filter P es) k = None \<or> map_of (filter P es) k = map_of es k"
  by (induction es) (auto simp: map_of_eq_None_iff)

lemma evicted_look:
  assumes "permutes_entries order" "distinct (map fst es)"
  shows "map_of (evict n (order es)) k = None \<or> map_of (evict n (order es)) k = map_of es k"
  using map_of_evict[of "order es" n k] permuted_keys[OF assms(1), of es] permuted_map_of[OF assms] assms(2) by simp

lemma evicted_distinct:
  "permutes_entries order \<Longrightarrow> distinct (map fst es) \<Longrightarrow> distinct (map fst (evict n (order es)))"
  by (intro evict_sub) (simp add: permuted_keys)

interpretation qr_cache: bounded_cache qrs_put qrs_get "\<lambda>c. length (qr_pngs c)" qr_max
    "\<lambda>c. distinct (map fst (qr_pngs c))" permutes_entries
proof unfold_locales
  fix c :: qrCache and order :: "(uuid, string) entries \<Rightarrow> (uuid, string) entries" and k v k'
  assume c: "distinct (map fst (qr_pngs c))" "permutes_entries order"
  note e = evicted_distinct[OF c(2,1), of "qr_max c"]
  show "distinct (map fst (qr_pngs (qrs_put order k v c)))" using e by (simp add: qrs_put_def put_distinct)
  show "length (qr_pngs (qrs_put order k v c)) \<le> qr_max c" if "0 < qr_max c"
    using put_length[OF e, of k v] evict_length[of "qr_max c" "order (qr_pngs c)"] that by (simp add: qrs_put_def)
  show "qrs_get (qrs_put order k v c) k' = None \<or> qrs_get (qrs_put order k v c) k' = qrs_get c k'" if "k' \<noteq> k"
    using evicted_look[OF c(2,1), of "qr_max c" k'] that by (simp add: qrs_put_def qrs_get_def map_of_put)
qed (simp_all add: qrs_put_def qrs_get_def map_of_put)

lemma links_put_links:
  "pl_links (link_put p k v c) = put_entry k v (if length (pl_links c) \<ge> pl_max c
     then evict (pl_max c) (fst p (filter (\<lambda>(_, l). snd p < cl_until l) (pl_links c))) else pl_links c)"
  by (cases v) (simp add: link_put_def links_put_def Let_def)

interpretation link_cache: bounded_cache link_put "\<lambda>c. map_of (pl_links c)" "\<lambda>c. length (pl_links c)" pl_max
    "\<lambda>c. distinct (map fst (pl_links c))" "\<lambda>p. permutes_entries (fst p)"
proof unfold_locales
  fix c :: paymentLinkCache and p :: "((uuid, cachedLink) entries \<Rightarrow> (uuid, cachedLink) entries) \<times> time" and k v k'
  assume c: "distinct (map fst (pl_links c))" "permutes_entries (fst p)"
  let ?live = "filter (\<lambda>(_, l). snd p < cl_until l) (pl_links c)"
  have l: "distinct (map fst ?live)" using c(1) by (simp add: distinct_map_filter)
  note e = evicted_distinct[OF c(2) l, of "pl_max c"]
  show "distinct (map fst (pl_links (link_put p k v c)))" using e c(1) by (simp add: links_put_links put_distinct)
  show "length (pl_links (link_put p k v c)) \<le> pl_max c" if "0 < pl_max c" "length (pl_links c) \<le> pl_max c"
    using put_length[OF e, of k v] put_length[OF c(1), of k v] evict_length[of "pl_max c" "fst p ?live"] that
    by (cases "pl_max c \<le> length (pl_links c)"; simp only: links_put_links if_True if_False; linarith)
  show "map_of (pl_links (link_put p k v c)) k' = None \<or> map_of (pl_links (link_put p k v c)) k' = map_of (pl_links c) k'"
    if "k' \<noteq> k"
    using evicted_look[OF c(2) l, of "pl_max c" k'] map_of_filter[OF c(1), of "\<lambda>(_, l). snd p < cl_until l" k'] that
    by (auto simp: links_put_links map_of_put)
qed (simp_all add: links_put_links map_of_put link_put_def links_put_def Let_def)

definition link_puts ::
  "((((uuid, cachedLink) entries \<Rightarrow> (uuid, cachedLink) entries) \<times> time) \<times> uuid \<times> cachedLink) list
    \<Rightarrow> paymentLinkCache \<Rightarrow> paymentLinkCache" where
  "link_puts ops c = fold (\<lambda>(p, oid, l). links_put (fst p) (snd p) oid (cl_url l) (cl_until l)) ops c"

lemma link_puts_eq: "link_puts ops c = link_cache.puts ops c"
  unfolding link_puts_def link_cache.puts_def link_put_def by (rule refl)

text \<open>
  The payment link cache is bounded and never wrong: after any sequence of \<open>put\<close>s, with any
  order of the loops over the map, it holds at most its bound of links, and a link it returns
  is the one last put for that order and its time has not come. A link just put is returned
  until then.
\<close>

theorem link_cache_correct:
  assumes "0 < m" "\<forall>(order, _) \<in> set ops. permutes_entries (fst order)"
  shows "length (pl_links (link_puts ops (newPaymentLinkCache m))) \<le> m
    \<and> (links_get now (link_puts ops (newPaymentLinkCache m)) oid = Some url
        \<longrightarrow> (\<exists>until. map_of (rev (map snd ops)) oid = Some \<lparr>cl_url = url, cl_until = until\<rparr> \<and> now < until))
    \<and> links_get now (links_put order t oid u until (link_puts ops (newPaymentLinkCache m))) oid
        = (if now < until then Some u else None)"
proof -
  let ?c = "newPaymentLinkCache m"
  have c: "distinct (map fst (pl_links ?c))" "0 < pl_max ?c" "length (pl_links ?c) \<le> pl_max ?c" "map_of (pl_links ?c) oid = None"
    using assms(1) by (simp_all add: newPaymentLinkCache_def)
  have f: "\<forall>(p, _) \<in> set ops. permutes_entries (fst p)" using assms(2) by auto
  have "length (pl_links (link_puts ops ?c)) \<le> m"
    using link_cache.puts_ok[OF c(1-3) f] by (simp add: newPaymentLinkCache_def link_puts_eq)
  moreover have "map_of (rev (map snd ops)) oid = Some l" if "map_of (pl_links (link_puts ops ?c)) oid = Some l" for l
    using link_cache.puts_look[OF c(1-3) f c(4)] that by (simp add: link_puts_eq)
  moreover have "links_get now (links_put order t oid u until d) oid = (if now < until then Some u else None)" for d
    by (simp add: links_get_def links_put_def Let_def map_of_put)
  ultimately show ?thesis by (force simp: links_get_def split: option.splits if_splits)
qed

text \<open>A cache of one link that is given two.\<close>

theorem link_cache_correct_witness:
  "length (pl_links (link_puts [((rev, 0), ''a'', \<lparr>cl_url = ''u'', cl_until = 9\<rparr>), ((rev, 1), ''b'', \<lparr>cl_url = ''v'', cl_until = 9\<rparr>)]
      (newPaymentLinkCache 1))) \<le> 1
    \<and> links_get 2 (links_put rev 2 ''c'' ''x'' 9 (link_puts [((rev, 0), ''a'', \<lparr>cl_url = ''u'', cl_until = 9\<rparr>),
        ((rev, 1), ''b'', \<lparr>cl_url = ''v'', cl_until = 9\<rparr>)] (newPaymentLinkCache 1))) ''c'' = Some ''x''"
proof -
  have "\<forall>(order, _) \<in> set [((rev, 0), ''a'', \<lparr>cl_url = ''u'', cl_until = 9\<rparr>), ((rev, 1 :: int), ''b'', \<lparr>cl_url = ''v'', cl_until = 9 :: int\<rparr>)].
      permutes_entries (fst order)" by (simp add: permutes_entries_def)
  from link_cache_correct[OF _ this, of 1 2 "''c''" "''x''" rev 2 "''x''" 9] show ?thesis by simp
qed

section \<open>Conditional requests\<close>

lemma etag_single:
  assumes "\<forall>c \<in> set tag. c \<noteq> CHR '','' \<and> \<not> is_space c" "tag \<noteq> []" "etag \<noteq> []"
  shows "etagMatches tag etag \<longleftrightarrow> tag = ''*'' \<or> trim_prefix tag ''W/'' = trim_prefix etag ''W/''"
proof -
  have "Split CHR '','' tag = [tag]" using assms(1) by (intro Split_single) auto
  moreover have "TrimSpace tag = tag" using assms(1) by (intro TrimSpace_id) auto
  ultimately show ?thesis using assms(2,3) by (simp add: etagMatches_def)
qed

lemma versionETag_chars: "\<forall>c \<in> set (versionETag v). c \<noteq> CHR '','' \<and> \<not> is_space c"
proof -
  have "c \<noteq> CHR '','' \<and> \<not> is_space c" if "c \<in> set (format_int v)" for c
    using format_int_chars[OF that] by (auto simp: is_space_def is_digit_def digit_val_def)
  then show ?thesis by (auto simp: versionETag_def is_space_def)
qed

text \<open>
  A client that sends back the validator of a seat map version is told that nothing changed
  exactly when the map still has that version.
\<close>

lemma etag_version: "etagMatches (versionETag v) (versionETag v') \<longleftrightarrow> v = v'"
proof -
  have "versionETag x = ''W/'' @ ([CHR 0x22] @ ''v'' @ format_int x @ [CHR 0x22])" for x by (simp add: versionETag_def)
  then have "trim_prefix (versionETag x) ''W/'' = [CHR 0x22] @ ''v'' @ format_int x @ [CHR 0x22]" for x
    by (metis trim_prefix_append)
  moreover have "versionETag x \<noteq> []" "versionETag x \<noteq> ''*''" for x by (simp_all add: versionETag_def)
  ultimately show ?thesis using etag_single[OF versionETag_chars[of v]] by (simp add: format_int_inject)
qed

end
