(* ===== verification/Booking_API.thy ===== *)
theory Booking_API
  imports Gateway Caches Lifecycle Ticket_QR Inventory_PG Inventory_Redis
begin

text \<open>
  The HTTP API of booking, \<open>cmd/booking/api.go\<close> and the cache of seat maps. The state of one
  booking process is the shared world with the process's caches and clock and the table of
  users. Encoders of images and of compressed data, the parser of UUIDs, the decoders of request
  bodies, the token library and the values drawn at random are the fields of \<open>api_lib\<close>. A
  request that waits for another's load of a seat map loads it itself in the model.

  The lemmas show that a webhook is answered 200 only if it was signed, valid and applied and
  that a bad signature changes nothing, that a webhook delivered again is a duplicate, that an order is shown only to its buyer, and that a
  seat map is served no longer than its lifetime.
\<close>

section \<open>State\<close>

record seatMapEntry =
  sme_plain :: string
  sme_gzipped :: string
  sme_etag :: string
  sme_expires :: time

record api_world =
  aw_world :: world
  aw_users :: "int list"
  aw_now :: time
  aw_seatMaps :: "int \<Rightarrow> seatMapEntry option"
  aw_links :: paymentLinkCache
  aw_qrs :: qrCache

record api_lib =
  al_sign :: jwt_sign
  al_parse :: jwt_parse
  al_uuid_parse :: "string \<Rightarrow> uuid option"
  al_gzip :: "string \<Rightarrow> string res"
  al_png :: "string \<Rightarrow> string res"
  al_login :: "string \<Rightarrow> int option"
  al_create :: "string \<Rightarrow> CreateRequest option"
  al_webhook :: "string \<Rightarrow> Webhook option"
  al_lock_token :: string
  al_order_id :: "uuid option"
  al_ticket_ids :: "nat \<Rightarrow> uuid option"
  al_link_order :: "(uuid, cachedLink) entries \<Rightarrow> (uuid, cachedLink) entries"
  al_qr_order :: "(uuid, string) entries \<Rightarrow> (uuid, string) entries"

record apiDeps =
  ad_tokens :: Tokens
  ad_orders :: service
  ad_payments :: "(CreatePaymentRequest \<Rightarrow> (api_world, string res) prog) option"
  ad_webhookSecret :: string
  ad_callbackURL :: string
  ad_devLogin :: bool
  ad_admissions :: "AdmissionTokens option"

definition seatMapTTL :: duration where "seatMapTTL = 500 * 1000000"
definition paymentLinkCacheSize :: nat where "paymentLinkCacheSize = 50000"
definition qrCacheSize :: nat where "qrCacheSize = 10000"

definition newAPI :: "world \<Rightarrow> int list \<Rightarrow> time \<Rightarrow> api_world" where
  "newAPI w us now = \<lparr>aw_world = w, aw_users = us, aw_now = now, aw_seatMaps = Map.empty,
     aw_links = newPaymentLinkCache paymentLinkCacheSize, aw_qrs = newQRCache qrCacheSize\<rparr>"

text \<open>A program on the shared world, run by the process.\<close>

abbreviation in_world :: "(world, 'a) prog \<Rightarrow> (api_world, 'a) prog" where
  "in_world \<equiv> zoom aw_world (\<lambda>w s. s\<lparr>aw_world := w\<rparr>)"

definition clock :: "(api_world, time) prog" where
  "clock = local_step (\<lambda>s. (s, aw_now s))"

definition go_seconds :: "duration \<Rightarrow> int" where
  "go_seconds d = go_div d second"

section \<open>Helpers\<close>

definition pathEventID :: "request \<Rightarrow> int \<times> bool" where
  "pathEventID r = (case parse_int (hr_param r ''eventID'') of None \<Rightarrow> (0, False) | Some i \<Rightarrow> (i, i > 0))"

definition parseIdempotencyKey :: "(string \<Rightarrow> uuid option) \<Rightarrow> string \<Rightarrow> uuid res" where
  "parseIdempotencyKey uuid_parse raw =
    (if raw = '''' then Inl (NewValidationError ''Idempotency-Key'' ''header is required'')
     else case uuid_parse raw of
       None \<Rightarrow> Inl (NewValidationError ''Idempotency-Key'' ''must be a UUID'')
     | Some key \<Rightarrow> if key = uuid_nil then Inl (NewValidationError ''Idempotency-Key'' ''must be a UUID'') else Inr key)"

section \<open>Logging in\<close>

definition EnsureUser :: "int \<Rightarrow> (api_world, unit res) prog" where
  "EnsureUser uid = call (\<lambda>s. (if uid \<in> set (aw_users s) then s else s\<lparr>aw_users := aw_users s @ [uid]\<rparr>, Inr ()))"

definition handleDevLogin :: "api_lib \<Rightarrow> apiDeps \<Rightarrow> api_world handler_func" where
  "handleDevLogin lib d c r = (case DecodeJSON (al_login lib) r of
     Inl e \<Rightarrow> Ret (WriteErr e)
   | Inr uid \<Rightarrow>
       if uid \<le> 0 then Ret (WriteErr (NewValidationError ''user_id'' ''must be a positive integer''))
       else bindp (EnsureUser uid) (\<lambda>x. case x of
         Inl e \<Rightarrow> Ret (WriteErr e)
       | Inr _ \<Rightarrow> bindp clock (\<lambda>now. case Tokens_Issue (al_sign lib) (ad_tokens d) now uid of
           Inl e \<Rightarrow> Ret (WriteErr e)
         | Inr token \<Rightarrow> Ret (WriteJSON 200 (JObj [(''access_token'', JStr token),
             (''expires_in'', JNum (go_seconds (tk_ttl (ad_tokens d))))])))))"

section \<open>Events\<close>

definition zone_json :: "zone \<Rightarrow> json" where
  "zone_json z = JObj [(''zone'', JStr (zone_name z)), (''price_vnd'', JNum (zone_price_vnd z)), (''seats'', JNum (zone_seats z))]"

text \<open>A slice nothing was appended to is \<open>nil\<close>.\<close>

definition event_json :: "event \<Rightarrow> json" where
  "event_json ev = JObj [(''id'', JNum (event_id ev)), (''name'', JStr (event_name ev)), (''venue'', JStr (event_venue ev)),
     (''starts_at'', JTime (event_starts_at ev)), (''sale_opens_at'', JTime (event_sale_opens_at ev)),
     (''max_seats_per_order'', JNum (event_max_seats_per_order ev)),
     (''zones'', if event_zones ev = [] then JNull else JArr (map zone_json (event_zones ev)))]"

definition handleGetEvent :: "apiDeps \<Rightarrow> api_world handler_func" where
  "handleGetEvent d c r = (case pathEventID r of (eid, ok) \<Rightarrow>
     if \<not> ok then Ret (WriteErr [ErrEventNotFound])
     else bindp (in_world (Event (svc_process (ad_orders d)) eid)) (\<lambda>x. Ret (case x of
       Inl e \<Rightarrow> WriteErr e
     | Inr ev \<Rightarrow> WriteJSON 200 (event_json ev))))"

fun seat_status_text :: "SeatStatus option \<Rightarrow> string" where
  "seat_status_text None = ''''"
| "seat_status_text (Some Available) = ''AVAILABLE''"
| "seat_status_text (Some Held) = ''HELD''"
| "seat_status_text (Some Sold) = ''SOLD''"

definition seat_json :: "seat \<times> SeatStatus option \<Rightarrow> json" where
  "seat_json x = (case x of (st, status) \<Rightarrow> JObj [(''seat_id'', JStr (seat_id st)), (''zone'', JStr (seat_zone st)),
     (''row'', JStr (seat_row_label st)), (''no'', JNum (seat_no st)), (''price_vnd'', JNum (seat_price_vnd st)),
     (''status'', JStr (seat_status_text status))])"

definition renderSeatMap :: "apiDeps \<Rightarrow> int \<Rightarrow> (api_world, (string \<times> string) res) prog" where
  "renderSeatMap d eid =
    bindp (in_world (SeatMap (svc_inv (ad_orders d)) (svc_process (ad_orders d)) eid)) (\<lambda>x. Ret (case x of
      Inl e \<Rightarrow> Inl e
    | Inr m \<Rightarrow>
        let body = json_text (JObj [(''version'', JNum (sm_version m)), (''seats'', JArr (map seat_json (sm_seats m)))])
        in Inr (body, if sm_versioned m then versionETag (sm_version m) else contentETag body)))"

text \<open>\<open>seatMapCache.get\<close>: a fresh entry, or one that is loaded and kept.\<close>

definition seatMaps_get :: "api_lib \<Rightarrow> apiDeps \<Rightarrow> int \<Rightarrow> (api_world, seatMapEntry res) prog" where
  "seatMaps_get lib d eid =
    bindp (local_step (\<lambda>s. (s, case aw_seatMaps s eid of
        Some e \<Rightarrow> if aw_now s < sme_expires e then Some e else None
      | None \<Rightarrow> None))) (\<lambda>cached. case cached of
      Some e \<Rightarrow> Ret (Inr e)
    | None \<Rightarrow> bindp (renderSeatMap d eid) (\<lambda>x. case x of
        Inl e \<Rightarrow> Ret (Inl e)
      | Inr (body, etag) \<Rightarrow> (case al_gzip lib body of
          Inl e \<Rightarrow> Ret (Inl e)
        | Inr gz \<Rightarrow> bindp (local_step (\<lambda>s.
            let e = \<lparr>sme_plain = body, sme_gzipped = gz, sme_etag = etag, sme_expires = aw_now s + seatMapTTL\<rparr>
            in (s\<lparr>aw_seatMaps := (aw_seatMaps s)(eid \<mapsto> e)\<rparr>, e))) (\<lambda>e. Ret (Inr e)))))"

definition seats_response :: "request \<Rightarrow> seatMapEntry \<Rightarrow> response" where
  "seats_response r e =
    (let h = [(''ETag'', sme_etag e), (''Vary'', ''Accept-Encoding''), (''Cache-Control'', ''no-cache'')] in
     if etagMatches (hr_header r ''If-None-Match'') (sme_etag e)
     then \<lparr>rs_status = 304, rs_headers = h, rs_body = NoBody\<rparr>
     else let gz = acceptsGzip (hr_header r ''Accept-Encoding''); body = (if gz then sme_gzipped e else sme_plain e) in
       \<lparr>rs_status = 200, rs_headers = h @ [(''Content-Type'', ''application/json; charset=utf-8'')]
          @ (if gz then [(''Content-Encoding'', ''gzip'')] else []) @ [(''Content-Length'', format_int (int (length body)))],
        rs_body = Bytes body\<rparr>)"

definition handleGetSeats :: "api_lib \<Rightarrow> apiDeps \<Rightarrow> api_world handler_func" where
  "handleGetSeats lib d c r = (case pathEventID r of (eid, ok) \<Rightarrow>
     if \<not> ok then Ret (WriteErr [ErrEventNotFound])
     else bindp (seatMaps_get lib d eid) (\<lambda>x. Ret (case x of Inl e \<Rightarrow> WriteErr e | Inr e \<Rightarrow> seats_response r e)))"

section \<open>Orders\<close>

text \<open>The order with the optional fields \<open>payment_url\<close> and \<open>tickets\<close>.\<close>

definition order_json :: "order \<Rightarrow> string \<Rightarrow> json list \<Rightarrow> json" where
  "order_json q url ts = JObj ([(''order_id'', JStr (ord_id q)), (''event_id'', JNum (ord_event_id q)),
     (''status'', JStr (status_text (ord_status q))), (''total_vnd'', JNum (ord_total_vnd q)),
     (''hold_expires_at'', JTime (ord_hold_expires_at q)),
     (''seats'', JArr (map (\<lambda>(st, price). JObj [(''seat_id'', JStr st), (''price_vnd'', JNum price)]) (ord_seats q)))]
     @ (if url = '''' then [] else [(''payment_url'', JStr url)]) @ (if ts = [] then [] else [(''tickets'', JArr ts)])
     @ [(''created_at'', JTime (ord_created_at q))])"

definition paymentURL :: "api_lib \<Rightarrow> apiDeps \<Rightarrow> order \<Rightarrow> (api_world, string) prog" where
  "paymentURL lib d q = (case ad_payments d of
     None \<Rightarrow> Ret ''''
   | Some gw \<Rightarrow>
       if ord_status q \<noteq> StatusHeld then Ret ''''
       else bindp (local_step (\<lambda>s. (s, links_get (aw_now s) (aw_links s) (ord_id q)))) (\<lambda>cached. case cached of
         Some u \<Rightarrow> Ret u
       | None \<Rightarrow> bindp (gw \<lparr>cp_order_id = ord_id q, cp_amount_vnd = ord_total_vnd q, cp_callback_url = ad_callbackURL d\<rparr>) (\<lambda>x.
           case x of
             Inl e \<Rightarrow> Ret ''''
           | Inr u \<Rightarrow> bindp (local_step (\<lambda>s. (s\<lparr>aw_links := links_put (al_link_order lib) (aw_now s) (ord_id q) u
               (ord_hold_expires_at q) (aw_links s)\<rparr>, ()))) (\<lambda>_. Ret u))))"

definition handleCreateOrder :: "api_lib \<Rightarrow> apiDeps \<Rightarrow> api_world handler_func" where
  "handleCreateOrder lib d c r =
    (let uid = UserIDFrom c in
     case parseIdempotencyKey (al_uuid_parse lib) (hr_header r ''Idempotency-Key'') of
       Inl e \<Rightarrow> Ret (WriteErr e)
     | Inr key \<Rightarrow> (case DecodeJSON (al_create lib) r of
         Inl e \<Rightarrow> Ret (WriteErr e)
       | Inr req \<Rightarrow>
           bindp (in_world (case ctx_admission c of
               Some adm \<Rightarrow> CreateAdmitted (ad_orders d) uid key req adm (al_lock_token lib) (al_order_id lib)
             | None \<Rightarrow> Create (ad_orders d) uid key req (al_lock_token lib) (al_order_id lib))) (\<lambda>x. case x of
             Inl e \<Rightarrow> Ret (WriteErr e)
           | Inr (q, created) \<Rightarrow> bindp (paymentURL lib d q) (\<lambda>url.
               Ret (WriteJSON (if created then 201 else 200) (order_json q url []))))))"

section \<open>Payments and tickets\<close>

definition SignatureHeader :: string where "SignatureHeader = ''X-Signature''"
definition maxWebhookBytes :: nat where "maxWebhookBytes = 64 * 1024"

definition handleWebhook :: "api_lib \<Rightarrow> apiDeps \<Rightarrow> api_world handler_func" where
  "handleWebhook lib d c r =
    (let body = hr_body r in
     if length body > maxWebhookBytes then Ret (WriteErr [ErrBadRequest, Opaque ''http: request body too large''])
     else if \<not> Verify (ad_webhookSecret d) body (hr_header r SignatureHeader) then Ret (WriteErr [ErrBadSignature])
     else case al_webhook lib body of
       None \<Rightarrow> Ret (WriteErr [ErrInvalidWebhook, Opaque ''json''])
     | Some wh \<Rightarrow> (case Validate wh of
         Inl e \<Rightarrow> Ret (WriteErr e)
       | Inr _ \<Rightarrow> bindp (in_world (ApplyPayment (ad_orders d) (al_ticket_ids lib) wh)) (\<lambda>x. Ret (case x of
           Inl e \<Rightarrow> WriteErr e
         | Inr res \<Rightarrow> WriteJSON 200 (JObj [(''outcome'', JStr (outcome_text (pr_outcome res)))])))))"

text \<open>\<open>base64.StdEncoding\<close>: the standard alphabet, padded.\<close>

definition std_b64 :: "string \<Rightarrow> string" where
  "std_b64 s =
    (let e = map (\<lambda>c. if c = CHR ''-'' then CHR ''+'' else if c = CHR ''_'' then CHR ''/'' else c) (b64_encode s)
     in e @ replicate ((4 - length e mod 4) mod 4) CHR ''='')"

definition ticket_json :: "ticket \<Rightarrow> time \<Rightarrow> string \<Rightarrow> json" where
  "ticket_json t issued png = JObj ([(''ticket_id'', JStr (tk_id t)), (''seat_id'', JStr (tk_seat_id t)), (''issued_at'', JTime issued),
     (''qr_payload'', JStr (tk_qr_payload t))] @ (if png = '''' then [] else [(''qr_png_base64'', JStr png)]))"

definition ticket_png :: "api_lib \<Rightarrow> ticket \<Rightarrow> (api_world, string res) prog" where
  "ticket_png lib t =
    bindp (local_step (\<lambda>s. (s, qrs_get (aw_qrs s) (tk_id t)))) (\<lambda>cached. case cached of
      Some png \<Rightarrow> Ret (Inr (std_b64 png))
    | None \<Rightarrow> (case al_png lib (tk_qr_payload t) of
        Inl e \<Rightarrow> Ret (Inl e)
      | Inr png \<Rightarrow> bindp (local_step (\<lambda>s. (s\<lparr>aw_qrs := qrs_put (al_qr_order lib) (tk_id t) png (aw_qrs s)\<rparr>, ())))
          (\<lambda>_. Ret (Inr (std_b64 png)))))"

fun ticket_loop :: "api_lib \<Rightarrow> bool \<Rightarrow> ticket list \<Rightarrow> (api_world, json list res) prog" where
  "ticket_loop lib withPNG [] = Ret (Inr [])"
| "ticket_loop lib withPNG (t # ts) = (case tk_issued_at t of
     None \<Rightarrow> ticket_loop lib withPNG ts
   | Some issued \<Rightarrow>
       if tk_qr_payload t = '''' then ticket_loop lib withPNG ts
       else bindp (if withPNG then ticket_png lib t else Ret (Inr '''')) (\<lambda>x. case x of
         Inl e \<Rightarrow> Ret (Inl e)
       | Inr png \<Rightarrow> bindp (ticket_loop lib withPNG ts) (\<lambda>y. Ret (map_sum (\<lambda>e. e) (\<lambda>out. ticket_json t issued png # out) y))))"

definition issuedTickets :: "api_lib \<Rightarrow> int \<Rightarrow> uuid \<Rightarrow> bool \<Rightarrow> (api_world, json list res) prog" where
  "issuedTickets lib uid oid withPNG = bindp (in_world (Tickets uid oid)) (\<lambda>x. case x of
     Inl e \<Rightarrow> Ret (Inl e)
   | Inr ts \<Rightarrow> ticket_loop lib withPNG ts)"

definition handleTickets :: "api_lib \<Rightarrow> apiDeps \<Rightarrow> api_world handler_func" where
  "handleTickets lib d c r = (case al_uuid_parse lib (hr_param r ''orderID'') of
     None \<Rightarrow> Ret (WriteErr [ErrNotFound])
   | Some oid \<Rightarrow> bindp (issuedTickets lib (UserIDFrom c) oid True) (\<lambda>x. Ret (case x of
       Inl e \<Rightarrow> WriteErr e
     | Inr ts \<Rightarrow> WriteJSON 200 (JObj [(''order_id'', JStr oid), (''tickets'', JArr ts)]))))"

definition withOrder ::
  "api_lib \<Rightarrow> apiDeps \<Rightarrow> (int \<Rightarrow> uuid \<Rightarrow> (world, order res) prog) \<Rightarrow> api_world handler_func" where
  "withOrder lib d op c r = (case al_uuid_parse lib (hr_param r ''orderID'') of
     None \<Rightarrow> Ret (WriteErr [ErrNotFound])
   | Some oid \<Rightarrow> bindp (in_world (op (UserIDFrom c) oid)) (\<lambda>x. case x of
       Inl e \<Rightarrow> Ret (WriteErr e)
     | Inr q \<Rightarrow> bindp (paymentURL lib d q) (\<lambda>url.
         if ord_status q = StatusTicketed
         then bindp (issuedTickets lib (UserIDFrom c) oid False) (\<lambda>y. Ret (case y of
           Inl e \<Rightarrow> WriteErr e
         | Inr ts \<Rightarrow> WriteJSON 200 (order_json q url ts)))
         else Ret (WriteJSON 200 (order_json q url [])))))"

definition handleGetOrder :: "api_lib \<Rightarrow> apiDeps \<Rightarrow> api_world handler_func" where
  "handleGetOrder lib d = withOrder lib d Get"

definition handleCancelOrder :: "api_lib \<Rightarrow> apiDeps \<Rightarrow> api_world handler_func" where
  "handleCancelOrder lib d = withOrder lib d (Cancel (ad_orders d))"

section \<open>Routes\<close>

text \<open>Method, pattern and handler behind its middleware at an instant, in the order they are mounted.\<close>

definition routes :: "api_lib \<Rightarrow> apiDeps \<Rightarrow> time \<Rightarrow> (string \<times> string \<times> api_world handler_func) list" where
  "routes lib d now =
    (let user = RequireUser (al_parse lib) (ad_tokens d) now;
         admitted = (case ad_admissions d of
           None \<Rightarrow> (\<lambda>h. h) | Some t \<Rightarrow> RequireAdmission (al_parse lib) (al_uuid_parse lib) t now) in
     (if ad_devLogin d then [(''POST'', ''/v1/auth/dev-login'', handleDevLogin lib d)] else [])
     @ [(''GET'', ''/v1/events/{eventID}'', handleGetEvent d),
        (''GET'', ''/v1/events/{eventID}/seats'', handleGetSeats lib d),
        (''POST'', ''/v1/webhooks/fakepay'', handleWebhook lib d),
        (''POST'', ''/v1/orders'', user (admitted (handleCreateOrder lib d))),
        (''GET'', ''/v1/orders/{orderID}'', user (handleGetOrder lib d)),
        (''POST'', ''/v1/orders/{orderID}/cancel'', user (handleCancelOrder lib d)),
        (''GET'', ''/v1/orders/{orderID}/tickets'', user (handleTickets lib d))])"

section \<open>An applied payment is recorded\<close>

text \<open>A payment with this transaction id is recorded, or there is no such order.\<close>

definition recorded :: "Webhook \<Rightarrow> db \<Rightarrow> bool" where
  "recorded p d \<longleftrightarrow> wh_provider_txn_id p \<in> p_provider_txn_id ` set (payments d) \<or> wh_order_id p \<notin> o_id ` set (orders d)"

lemma payments_leaf:
  "keeps (same payments) (TransitionOrder now i a b)" "keeps (same payments) (InsertTickets ids i e ss)"
  "keeps (same payments) (InsertRefund now txn i m r)" "keeps (same payments) (Write now msg)"
  by (auto simp: keeps_def same_def TransitionOrder_def one_row_def Let_def Write_def InsertMessage_def
    dest: InsertTickets_InrD InsertRefund_InrD split: if_splits option.splits)

lemmas same_rules = keeps_bind[OF transp_same] keeps_try[OF transp_same] keeps_return[OF reflp_same] keeps_fail keeps_if

lemma payments_steps:
  "keeps (same payments) (moveTo now q st)" "keeps (same payments) (writeEvent now topic ty ev)"
  "keeps (same payments) (insertTickets gen q)"
  unfolding moveTo_def transition_def writeEvent_def insertTickets_def
  by (intro same_rules payments_leaf allI impI conjI | simp split: option.split)+

lemma payments_refund: "keeps (same payments) (refund now p q reason st after)"
  unfolding refund_def by (cases st; simp; intro same_rules payments_leaf payments_steps)

lemma payments_sell: "keeps (same payments) (sell gen now p q)"
  unfolding sell_def pay_def by (intro same_rules payments_steps payments_refund)

lemma decide_payments: "keeps (same payments) (decide gen answer now p q active)"
  unfolding decide_def Let_def
  by (intro same_rules payments_refund payments_sell allI impI conjI | simp split: option.split sum.split)+

lemma payment_tx_records:
  assumes "payment_tx gen answer p now d = Inr (d', Decided res q after)"
  shows "recorded p d'"
proof (cases "row_by o_id (wh_order_id p) (orders d)")
  case None
  then have "d' = d" using assms by (auto simp: payment_tx_def tx_try_def LockOrderForPayment_def errors_is_def)
  then show ?thesis using None by (auto simp: recorded_def row_by_None_iff)
next
  case (Some row)
  let ?ins = "InsertPayment now (wh_provider_txn_id p) (wh_order_id p) (wh_amount_vnd p) (wh_status p)"
  have l: "LockOrderForPayment now (wh_order_id p) d = Inr (d, row, now \<le> o_hold_expires_at row)"
    using Some by (simp add: LockOrderForPayment_def)
  show ?thesis
  proof (cases "?ins d")
    case (Inl e)
    then have "errors_is e NoRows" "d' = d" using assms l
      by (auto simp: payment_tx_def tx_try_def ListOrderSeats_def Let_def split: if_splits elim!: tx_bind_InrE)
    then show ?thesis using Inl
      by (auto simp: recorded_def InsertPayment_def errors_is_def check_violation_def fk_violation_def split: if_splits)
  next
    case (Inr x)
    obtain d1 d2 ss dec where i: "fst x = d1"
      and dec: "decide gen answer now p (fromRow row ss) (now \<le> o_hold_expires_at row) d1 = Inr (d2, dec)"
      "record_outcome p dec d2 = Inr (d', Decided res q after)"
      using assms l Inr by (cases x) (auto simp: payment_tx_def tx_try_def ListOrderSeats_def elim!: tx_bind_InrE)
    have "wh_provider_txn_id p \<in> p_provider_txn_id ` set (payments d1)"
      using Inr i InsertPayment_InrD[of now "wh_provider_txn_id p"] by (cases x) fastforce
    moreover have "payments d2 = payments d1" using keepsD[OF decide_payments dec(1)] by (simp add: same_def)
    moreover have "p_provider_txn_id ` set (payments d') = p_provider_txn_id ` set (payments d2)"
      using dec(2) by (cases dec) (auto simp: record_outcome_def SetPaymentOutcome_def image_update_where elim!: tx_bind_InrE)
    ultimately show ?thesis by (simp add: recorded_def)
  qed
qed

lemma yields_any: "yields p w (\<lambda>_ _. True)"
  by (simp add: yields_def)

lemma after_error: "yields (after_payment s (NeedsHold q)) w (\<lambda>w' r. r \<in> range Inl)"
  by (simp add: after_payment_def)

definition duplicate_effect :: "Webhook \<Rightarrow> world \<Rightarrow> world \<Rightarrow> PaymentResult res \<Rightarrow> bool" where
  "duplicate_effect p w w' r \<longleftrightarrow> inv_frame w w' \<and> (\<not> sold_order (wh_order_id p) (pg w) \<longrightarrow> w' = w)
    \<and> (\<forall>res. r = Inr res \<longrightarrow> pr_outcome res =
        (if row_by o_id (wh_order_id p) (orders (pg w)) = None then OutcomeUnknownOrder else OutcomeDuplicate))"

context inventory_contract
begin

lemma after_keeps:
  assumes "svc_inv s = iv" "recorded p (pg w)"
  shows "yields (after_payment s dec) w (\<lambda>w' r. recorded p (pg w'))"
proof -
  let ?R = "on_pg (same (\<lambda>d. (orders d, payments d)))"
  have "guar ?R (after_payment s dec)"
    unfolding after_payment_def releaseSeats_def assms(1)
    by (auto intro!: guar_intros frame_on_pg simp: same_def split: decision.split option.split)
  then have "yields (after_payment s dec) w (\<lambda>w' r. ?R w w')"
    by (rule guar_yields[OF _ reflp_on_pg[OF reflp_same]]) (auto simp: on_pg_def same_def transp_def)
  then show ?thesis by (rule yields_mono) (use assms(2) in \<open>auto simp: recorded_def on_pg_def same_def\<close>)
qed

text \<open>The answer of \<open>ApplyPayment\<close> is a success only when the payment is recorded.\<close>

lemma apply_records:
  assumes "svc_inv s = iv"
  shows "yields (ApplyPayment s gen p) w (\<lambda>w' r. r \<in> range Inl \<or> recorded p (pg w'))"
proof -
  have b: "yields (payment_begin gen p) w (\<lambda>w' r. \<forall>res q after now. r = Inr (Decided res q after, now) \<longrightarrow> recorded p (pg w'))"
    unfolding yields_def payment_begin_def
  proof (intro allI impI, goal_cases)
    case (1 fs w' x res q after now)
    then show ?case by (cases fs) (auto dest: payment_tx_records split: if_splits sum.splits)
  qed
  have f: "yields (payment_finish gen p h now) w (\<lambda>w' r. \<forall>res q after. r = Inr (Decided res q after) \<longrightarrow> recorded p (pg w'))" for h now w
    unfolding yields_def payment_finish_def
  proof (intro allI impI, goal_cases)
    case (1 fs w' x res q after)
    then show ?case by (cases fs) (auto simp: payment_unlock_def dest: payment_tx_records split: if_splits sum.splits)
  qed
  have a: "yields (after_payment s dec) w (\<lambda>w' r. r \<in> range Inl \<or> recorded p (pg w'))"
    if "\<forall>res q after. dec = Decided res q after \<longrightarrow> recorded p (pg w)" for dec w
    by (cases dec) (use that in \<open>auto intro: yields_mono[OF after_keeps[OF assms]] yields_mono[OF after_error]\<close>)
  show ?thesis unfolding ApplyPayment_def
  proof (rule yields_bind[OF b], goal_cases)
    case (1 w' r)
    then show ?case
      by (auto intro!: a yields_bind[OF yields_any] yields_bind[OF f] split: sum.split decision.split)
  qed
qed

text \<open>A webhook whose payment is recorded: only the confirmation of sold seats is done again.\<close>

lemma apply_duplicate:
  assumes "svc_inv s = iv" "wh_provider_txn_id p \<in> p_provider_txn_id ` set (payments (pg w))" "wh_status p \<in> {StatusSucceeded, StatusFailed}"
  shows "yields (ApplyPayment s gen p) w (duplicate_effect p w)"
proof -
  obtain res q after where tx: "payment_tx gen None p (pg_now w) (pg w) = Inr (pg w, Decided res q after)" "\<not> ac_release after"
    and res: "ac_confirm after \<longrightarrow> sold_order (wh_order_id p) (pg w)"
      "pr_outcome res = (if row_by o_id (wh_order_id p) (orders (pg w)) = None then OutcomeUnknownOrder else OutcomeDuplicate)"
    using duplicate_tx[OF assms(2,3)] by blast
  have b: "yields (payment_begin gen p) w (\<lambda>w' r. w' = w \<and> (r = Inl infra_error \<or> r = Inr (Decided res q after, pg_now w)))"
    unfolding yields_def payment_begin_def
  proof (intro allI impI, goal_cases)
    case (1 fs w' x)
    then show ?case using tx by (cases fs) (auto split: if_splits)
  qed
  have c: "yields (inv_Confirm iv e ss i) w (\<lambda>w' r. inv_frame w w')" for e ss i
    by (rule guar_yields[OF Confirm_frame reflp_inv_frame transp_inv_frame])
  have "yields (after_payment s (Decided res q after)) w (duplicate_effect p w)"
    using tx(2) res unfolding after_payment_def assms(1)
    by (auto intro!: yields_bind[OF c] simp: duplicate_effect_def split: option.split)
  then show ?thesis unfolding ApplyPayment_def
    by (intro yields_bind[OF b]) (auto simp: duplicate_effect_def)
qed

end

lemma apply_payment_duplicate:
  assumes "svc_inv s \<in> {NewPG, NewRedis}" "wh_provider_txn_id p \<in> p_provider_txn_id ` set (payments (pg w))"
    and "wh_status p \<in> {StatusSucceeded, StatusFailed}"
  shows "yields (ApplyPayment s gen p) w (duplicate_effect p w)"
  using pg_inv.apply_duplicate[of s p w] redis_inv.apply_duplicate[of s p w] assms by auto

lemma apply_payment_records:
  "svc_inv s \<in> {NewPG, NewRedis} \<Longrightarrow> yields (ApplyPayment s gen p) w (\<lambda>w' r. r \<in> range Inl \<or> recorded p (pg w'))"
  using pg_inv.apply_records[of s] redis_inv.apply_records[of s] by auto

lemma run_in_world: "run fs s (in_world p) = map_option (\<lambda>(w, a). (s\<lparr>aw_world := w\<rparr>, a)) (run fs (aw_world s) p)"
  by (rule run_zoom) simp_all

lemma yields_in_world:
  "yields p (aw_world s) P \<Longrightarrow> yields (in_world p) s (\<lambda>s' x. s' = s\<lparr>aw_world := aw_world s'\<rparr> \<and> P (aw_world s') x)"
  by (auto simp: yields_def run_in_world)

lemma WriteErr_fails: "rs_status (WriteErr e) \<notin> {200, 201, 304}"
proof -
  have "list_all (\<lambda>m. em_status m \<notin> {200, 201, 304}) errorMappings" by (simp add: errorMappings_def)
  then show ?thesis unfolding WriteErr_status by (auto simp: list_all_iff find_Some_iff split: option.split)
qed

lemma WriteJSON_status [simp]: "rs_status (WriteJSON n v) = n"
  by (simp add: WriteJSON_def)

section \<open>Webhooks\<close>

definition webhook_accepted :: "api_lib \<Rightarrow> apiDeps \<Rightarrow> string \<Rightarrow> api_world \<Rightarrow> bool" where
  "webhook_accepted lib d body s \<longleftrightarrow>
    (\<exists>wh. al_webhook lib body = Some wh \<and> Validate wh = Inr () \<and> recorded wh (pg (aw_world s)))"

lemma webhook_yields:
  assumes "svc_inv (ad_orders d) \<in> {NewPG, NewRedis}"
  shows "yields (handleWebhook lib d c r) s (\<lambda>s' res. rs_status res = 200 \<longrightarrow>
    Verify (ad_webhookSecret d) (hr_body r) (hr_header r SignatureHeader) \<and> webhook_accepted lib d (hr_body r) s')"
proof -
  have "yields (bindp (in_world (ApplyPayment (ad_orders d) (al_ticket_ids lib) wh)) (\<lambda>x. Ret (case x of
      Inl e \<Rightarrow> WriteErr e | Inr res \<Rightarrow> WriteJSON 200 (JObj [(''outcome'', JStr (outcome_text (pr_outcome res)))])))) s
    (\<lambda>s' res. rs_status res = 200 \<longrightarrow> recorded wh (pg (aw_world s')))" for wh
    by (rule yields_bind[OF yields_in_world[OF apply_payment_records[OF assms]]])
      (use WriteErr_fails in \<open>auto split: sum.split\<close>)
  then show ?thesis using WriteErr_fails unfolding handleWebhook_def Let_def webhook_accepted_def
    by (auto split: option.split sum.split elim!: yields_mono)
qed

text \<open>
  C11. Booking answers 200 to a webhook only when its signature is that of the body, the body is a
  valid webhook, and the payment is now in the database, unless there is no such order. A
  webhook without the right signature is refused and changes nothing.
\<close>

theorem webhook_answers:
  assumes "svc_inv (ad_orders d) \<in> {NewPG, NewRedis}" "run fs s (handleWebhook lib d c r) = Some (s', res)"
  shows "if Verify (ad_webhookSecret d) (hr_body r) (hr_header r SignatureHeader)
    then rs_status res = 200 \<longrightarrow> webhook_accepted lib d (hr_body r) s'
    else s' = s \<and> rs_status res \<in> {400, 401}"
proof (cases "Verify (ad_webhookSecret d) (hr_body r) (hr_header r SignatureHeader)")
  case True
  then show ?thesis using yieldsD[OF webhook_yields[OF assms(1)] assms(2)] by simp
next
  case False
  then show ?thesis using assms(2)
    by (auto simp: handleWebhook_def Let_def WriteErr_status errorMappings_def split: if_splits)
qed

lemma Validate_status: "Validate wh = Inr () \<Longrightarrow> wh_status wh \<in> {StatusSucceeded, StatusFailed}"
  by (auto simp: Validate_def split: if_splits)

text \<open>
  C21. A webhook delivered again changes nothing that matters: when a payment with its
  transaction id is recorded, booking leaves every order, ticket, payment, refund and outbox row as it
  is, whatever faults occur, as well as its own caches; at most the seats of an order that is PAID or
  TICKETED are confirmed to the inventory once more, and otherwise nothing changes at all. If it
  answers 200 it answers \<open>DUPLICATE\<close>, or \<open>UNKNOWN_ORDER\<close> if there is no such order.
\<close>

theorem duplicate_webhook_ignored:
  assumes "svc_inv (ad_orders d) \<in> {NewPG, NewRedis}" "al_webhook lib (hr_body r) = Some wh"
    and "wh_provider_txn_id wh \<in> p_provider_txn_id ` set (payments (pg (aw_world s)))"
    and "run fs s (handleWebhook lib d c r) = Some (s', res)"
  shows "(\<exists>h k. s' = s\<lparr>aw_world := (aw_world s)\<lparr>pg := (pg (aw_world s))\<lparr>seat_holds := h\<rparr>, rd := k\<rparr>\<rparr>)
    \<and> (map_option o_status (row_by o_id (wh_order_id wh) (orders (pg (aw_world s)))) \<notin> {Some StatusPaid, Some StatusTicketed} \<longrightarrow> s' = s)
    \<and> (rs_status res = 200 \<longrightarrow> res = WriteJSON 200 (JObj [(''outcome'',
        JStr (if row_by o_id (wh_order_id wh) (orders (pg (aw_world s))) = None then ''UNKNOWN_ORDER'' else ''DUPLICATE''))]))"
proof (cases "length (hr_body r) > maxWebhookBytes \<or> \<not> Verify (ad_webhookSecret d) (hr_body r) (hr_header r SignatureHeader)
    \<or> Validate wh \<noteq> Inr ()")
  case True
  then obtain e where "s' = s" "res = WriteErr e"
    using assms(2,4) unfolding handleWebhook_def Let_def by (auto split: if_splits sum.splits)
  moreover have "\<exists>h k. s = s\<lparr>aw_world := (aw_world s)\<lparr>pg := (pg (aw_world s))\<lparr>seat_holds := h\<rparr>, rd := k\<rparr>\<rparr>"
    by (rule exI[of _ "seat_holds (pg (aw_world s))"], rule exI[of _ "rd (aw_world s)"]) simp
  ultimately show ?thesis using WriteErr_fails[of e] by auto
next
  case False
  let ?answer = "\<lambda>x. case x of Inl e \<Rightarrow> WriteErr e
    | Inr res \<Rightarrow> WriteJSON 200 (JObj [(''outcome'', JStr (outcome_text (pr_outcome res)))])"
  have "run fs s (bindp (in_world (ApplyPayment (ad_orders d) (al_ticket_ids lib) wh)) (\<lambda>x. Ret (?answer x))) = Some (s', res)"
    using False assms(2,4) unfolding handleWebhook_def Let_def by simp
  then obtain x where s': "s' = s\<lparr>aw_world := aw_world s'\<rparr>" and res: "res = ?answer x"
    and x: "duplicate_effect wh (aw_world s) (aw_world s') x"
    using yields_in_world[OF apply_payment_duplicate[OF assms(1,3) Validate_status]] False
    unfolding yields_def by (elim run_bindE) fastforce
  from x obtain h k where "aw_world s' = (aw_world s)\<lparr>pg := (pg (aw_world s))\<lparr>seat_holds := h\<rparr>, rd := k\<rparr>"
    by (auto simp: duplicate_effect_def inv_frame_def)
  moreover have "s' = s" if "\<not> sold_order (wh_order_id wh) (pg (aw_world s))"
    using that x s' by (simp add: duplicate_effect_def)
  moreover have "rs_status res = 200 \<longrightarrow> res = WriteJSON 200 (JObj [(''outcome'',
        JStr (if row_by o_id (wh_order_id wh) (orders (pg (aw_world s))) = None then ''UNKNOWN_ORDER'' else ''DUPLICATE''))])"
    using x res WriteErr_fails by (auto simp: duplicate_effect_def split: sum.splits)
  ultimately show ?thesis using s' unfolding sold_order_def by metis
qed

section \<open>The gateway and booking\<close>

text \<open>
  \<open>post\<close> of the gateway, answered by booking. A request may be lost on the way, and so may
  its answer.
\<close>

definition post_webhook :: "api_lib \<Rightarrow> apiDeps \<Rightarrow> string \<Rightarrow> string \<Rightarrow> string \<Rightarrow> (api_world, int res) prog" where
  "post_webhook lib d callback body sig =
    (let r = \<lparr>hr_header = (\<lambda>h. if h = SignatureHeader then sig else if h = ''Content-Type'' then ''application/json'' else ''''),
         hr_param = (\<lambda>_. ''''), hr_query = (\<lambda>_. ''''), hr_body = body\<rparr>;
         c = \<lparr>ctx_user = None, ctx_admission = None\<rparr>
     in Step (\<lambda>_. True) (\<lambda>x s. s) (\<lambda>x s.
       if x = Fail then Ret (Inl infra_error)
       else bindp (handleWebhook lib d c r) (\<lambda>res. Ret (if x = Lost then Inl infra_error else Inr (rs_status res)))))"

lemma post_yields:
  assumes "svc_inv (ad_orders d) \<in> {NewPG, NewRedis}"
  shows "yields (post_webhook lib d callback body sig) s (\<lambda>s' x. x = Inr 200 \<longrightarrow> webhook_accepted lib d body s')"
  unfolding yields_def
proof (intro allI impI)
  fix fs s' x
  assume r: "run fs s (post_webhook lib d callback body sig) = Some (s', x)" and x: "x = Inr 200"
  obtain c q res fs1 where "run fs1 s (handleWebhook lib d c q) = Some (s', res)" "rs_status res = 200" "hr_body q = body"
    using r x by (cases fs) (auto simp: post_webhook_def Let_def split: if_splits elim!: run_bindE)
  then show "webhook_accepted lib d body s'" using yieldsD[OF webhook_yields[OF assms]] by auto
qed

text \<open>
  C10. What the gateway counts as delivered, booking has recorded: whenever one of the copies of a
  webhook that the gateway sends ends as delivered, after any number of failed and repeated
  posts, lost requests and lost answers, booking has decoded and validated the very body that
  was signed, and the payment is in the database, unless there is no such order.
\<close>

theorem delivered_is_recorded:
  assumes "svc_inv (ad_orders d) \<in> {NewPG, NewRedis}"
    and "copy \<in> set (deliver (gw_cfg (New cfg)) rnd woke (post_webhook lib d) roll slept p body)"
    and "in_int64 (gc_RetryBase cfg)" "run fs s copy = Some (s', Delivered, n, waits)"
  shows "webhook_accepted lib d body s'"
proof -
  have b: "gc_RetryBase (gw_cfg (New cfg)) = int64 (gc_RetryBase (gw_cfg (New cfg)))"
    using assms(3) by (auto simp: New_def Let_def int64_id in_int64_def)
  obtain sig i where r: "run fs s (sendWithRetry (gw_cfg (New cfg)) (post_webhook lib d (cp_callback_url p) body sig) (roll i) (slept i)
      1 (gc_RetryBase (gw_cfg (New cfg)))) = Some (s', Delivered, n, waits)"
    using assms(2,4) by (auto simp: deliver_def split: if_splits)
  obtain fs1 w1 where "run fs1 w1 (post_webhook lib d (cp_callback_url p) body sig) = Some (s', Inr 200)"
    using send_result[OF r b] by auto
  then show ?thesis using yieldsD[OF post_yields[OF assms(1)]] by blast
qed

definition some_lib :: "Webhook \<Rightarrow> api_lib" where
  "some_lib wh = \<lparr>al_sign = (\<lambda>_ _. None), al_parse = (\<lambda>_ _ _. None), al_uuid_parse = Some, al_gzip = Inr, al_png = Inr,
     al_login = (\<lambda>_. Some 7), al_create = (\<lambda>_. None), al_webhook = (\<lambda>_. Some wh), al_lock_token = ''t'', al_order_id = Some ''q'',
     al_ticket_ids = (\<lambda>_. Some ''k''), al_link_order = rev, al_qr_order = rev\<rparr>"

definition some_deps :: apiDeps where
  "some_deps = \<lparr>ad_tokens = \<lparr>tk_secret = ''jwt'', tk_ttl = AccessTokenTTL\<rparr>,
     ad_orders = \<lparr>svc_process = 0, svc_inv = NewPG, svc_holdTTL = 600, svc_holdGrace = 30, svc_admissions = None\<rparr>,
     ad_payments = None, ad_webhookSecret = ''secret'', ad_callbackURL = ''http://booking/hook'', ad_devLogin = True,
     ad_admissions = None\<rparr>"

definition some_webhook :: Webhook where
  "some_webhook = \<lparr>wh_provider_txn_id = ''fp_1'', wh_order_id = ''q'', wh_amount_vnd = 500, wh_status = StatusSucceeded, wh_paid_at = 0\<rparr>"

lemma Verify_Sign: "Verify secret body (Sign secret body)"
  by (simp add: Verify_def Sign_def hex_decode_encode)

section \<open>Orders are private\<close>

definition owns :: "int \<Rightarrow> uuid \<Rightarrow> db \<Rightarrow> bool" where
  "owns uid oid d \<longleftrightarrow> (\<exists>row \<in> set (orders d). o_id row = oid \<and> o_user_id row = uid)"

lemma not_owned: "\<not> owns uid oid d \<Longrightarrow> row_by o_id oid (orders d) = Some row \<Longrightarrow> o_user_id row \<noteq> uid"
  by (auto simp: owns_def dest: row_by_SomeD)

definition refused :: "world \<Rightarrow> world \<Rightarrow> 'a res \<Rightarrow> bool" where
  "refused w w' r \<longleftrightarrow> w' = w \<and> (r = Inl [ErrNotFound] \<or> r = Inl infra_error)"

lemma Get_private: "\<not> owns uid oid (pg w) \<Longrightarrow> yields (Get uid oid) w (refused w)"
  unfolding Get_def
proof (rule yields_bind[OF read_yields], goal_cases)
  case 1
  show ?case by (auto simp: keeps_def GetOrder_def one_row_def split: option.splits)
next
  case (2 w' a)
  then show ?case using not_owned[OF 2(1)]
    by (auto simp: refused_def GetOrder_def run_tx_def one_row_def errors_is_def split: option.splits)
qed

lemma Tickets_private: "\<not> owns uid oid (pg w) \<Longrightarrow> yields (Tickets uid oid) w (refused w)"
  unfolding Tickets_def by (rule yields_bind[OF Get_private]) (auto simp: refused_def)

lemma Cancel_private: "\<not> owns uid oid (pg w) \<Longrightarrow> yields (Cancel s uid oid) w (refused w)"
  unfolding Cancel_def begin_func_def
proof (rule yields_bind[OF yields_call], goal_cases)
  case (1 w' a)
  have "cancel_tx uid oid (pg_now w) (pg w) = Inl [ErrNotFound]"
    using not_owned[OF 1(1)] by (auto simp: cancel_tx_def tx_try_def GetOrderForUpdate_def GetOrder_def one_row_def errors_is_def tx_fail_def split: option.splits)
  then show ?case using 1(2) by (auto simp: run_tx_def refused_def)
qed

lemma in_world_refused:
  assumes "yields p (aw_world s) (refused (aw_world s))"
  shows "yields (in_world p) s (\<lambda>s' r. s' = s \<and> (r = Inl [ErrNotFound] \<or> r = Inl infra_error))"
  by (rule yields_mono[OF yields_in_world[OF assms]]) (auto simp: refused_def)

text \<open>
  C29. An order is nobody else's business: reading it, cancelling it or asking for its tickets as
  anyone but its buyer changes nothing and is answered exactly as if the order did not exist,
  or by the generic error when the database fails.
\<close>

theorem orders_private:
  assumes "handle \<in> {handleGetOrder lib d, handleCancelOrder lib d, handleTickets lib d}"
    and "al_uuid_parse lib (hr_param r ''orderID'') = Some oid" "\<not> owns (UserIDFrom c) oid (pg (aw_world s))"
    and "run fs s (handle c r) = Some (s', res)"
  shows "s' = s \<and> (res = WriteErr [ErrNotFound] \<or> res = WriteErr infra_error)"
proof -
  let ?P = "\<lambda>s' res. s' = s \<and> (res = WriteErr [ErrNotFound] \<or> res = WriteErr infra_error)"
  note p = in_world_refused[OF Get_private] in_world_refused[OF Cancel_private] in_world_refused[OF Tickets_private]
  have "yields (withOrder lib d op c r) s ?P"
    if "yields (in_world (op (UserIDFrom c) oid)) s (\<lambda>s' r. s' = s \<and> (r = Inl [ErrNotFound] \<or> r = Inl infra_error))" for op
    unfolding withOrder_def assms(2) option.case by (rule yields_bind[OF that]) auto
  moreover have "yields (handleTickets lib d c r) s ?P"
    unfolding handleTickets_def issuedTickets_def assms(2) option.case bindp_assoc
    by (rule yields_bind[OF p(3)[OF assms(3)]]) auto
  ultimately have "yields (handle c r) s ?P"
    using assms(1) p(1,2)[OF assms(3)] by (auto simp: handleGetOrder_def handleCancelOrder_def)
  then show ?thesis using assms(4) by (rule yieldsD)
qed

section \<open>Seat maps\<close>

text \<open>
  A seat map is loaded once per lifetime: what \<open>get\<close> answers is kept, it was still valid or has
  just been loaded with the full lifetime, and until it expires every further \<open>get\<close> for the
  event answers the same without touching the database, Redis or anything else.
\<close>

theorem seat_map_loaded_once:
  assumes "run fs s (seatMaps_get lib d eid) = Some (s', Inr e)"
    and "aw_seatMaps later eid = aw_seatMaps s' eid" "aw_now later < sme_expires e"
  shows "(aw_seatMaps s eid = Some e \<and> aw_now s < sme_expires e \<or> sme_expires e = aw_now s + seatMapTTL)
    \<and> run (x # xs) later (seatMaps_get lib d eid) = Some (later, Inr e)"
proof -
  let ?Q = "\<lambda>s' r. \<forall>e. r = Inr e \<longrightarrow> aw_seatMaps s' eid = Some e
    \<and> (aw_seatMaps s eid = Some e \<and> aw_now s < sme_expires e \<or> sme_expires e = aw_now s + seatMapTTL)"
  have now: "yields (renderSeatMap d eid) s (\<lambda>s' r. aw_now s' = aw_now s)"
    unfolding renderSeatMap_def
    by (rule yields_bind[OF yields_in_world[OF yields_any]]) (auto dest: arg_cong[where f = aw_now])
  have "yields (seatMaps_get lib d eid) s ?Q"
    unfolding seatMaps_get_def
  proof (rule yields_bind[OF yields_local], goal_cases)
    case (1 w' a)
    then have w: "w' = s" by simp
    show ?case
    proof (cases a)
      case None
      then show ?thesis unfolding w
        by (auto intro!: yields_bind[OF now] yields_bind[OF yields_local] simp: Let_def split: sum.split)
    qed (use 1 w in \<open>auto split: option.splits if_splits\<close>)
  qed
  from yieldsD[OF this assms(1)] show ?thesis using assms(2,3) by (simp add: seatMaps_get_def)
qed

text \<open>An empty map with 100 ns to go.\<close>

theorem seat_map_loaded_once_witness:
  "run [Reply] ((newAPI (empty_world 0) [] 50)\<lparr>aw_seatMaps := [1 \<mapsto> \<lparr>sme_plain = ''p'', sme_gzipped = ''g'', sme_etag = ''e'', sme_expires = 100\<rparr>]\<rparr>)
      (seatMaps_get (some_lib some_webhook) some_deps 1)
    = Some ((newAPI (empty_world 0) [] 50)\<lparr>aw_seatMaps := [1 \<mapsto> \<lparr>sme_plain = ''p'', sme_gzipped = ''g'', sme_etag = ''e'', sme_expires = 100\<rparr>]\<rparr>,
        Inr \<lparr>sme_plain = ''p'', sme_gzipped = ''g'', sme_etag = ''e'', sme_expires = 100\<rparr>)"
proof -
  let ?e = "\<lparr>sme_plain = ''p'', sme_gzipped = ''g'', sme_etag = ''e'', sme_expires = 100\<rparr>"
  let ?s = "(newAPI (empty_world 0) [] 0)\<lparr>aw_seatMaps := [1 \<mapsto> ?e]\<rparr>"
  have "run [Reply] ?s (seatMaps_get (some_lib some_webhook) some_deps 1) = Some (?s, Inr ?e)"
    by (simp add: seatMaps_get_def newAPI_def)
  from seat_map_loaded_once[OF this, of "(newAPI (empty_world 0) [] 50)\<lparr>aw_seatMaps := [1 \<mapsto> ?e]\<rparr>" Reply "[]"]
  show ?thesis by (simp add: newAPI_def)
qed

text \<open>
  The answer to a poll of the seat map is 304 with no body exactly when the client sent the
  validator of the version that is served.
\<close>

lemma poll_answer:
  assumes "sme_etag e = versionETag v" "hr_header r ''If-None-Match'' = versionETag v'"
  shows "rs_status (seats_response r e) = (if v' = v then 304 else 200)"
  using etag_version[of v' v] assms by (simp add: seats_response_def Let_def)

end
