(* ===== verification/Waiting_Room.thy ===== *)
theory Waiting_Room
  imports Http Queue
begin

text \<open>
  The HTTP API of the waiting room, \<open>cmd/waitingroom/api.go\<close>: joining the queue of an event and the
  stream of Server-Sent Events that tells the position until the buyer is admitted. The state of
  a request is the shared world and what the stream has sent. The number of ticks before the
  client leaves or the server shuts down is a parameter, so is the estimate of the wait, which
  the code computes in floating point.

  The lemmas show that a stream sends positions and comments, and then at most one last event:
  the admission with the token that is stored for the queue entry, or that the entry expired.
\<close>

datatype sse = SSE string json | Waiting

record stream_world =
  sw_world :: world
  sw_sent :: "sse list"

text \<open>The bytes of an event and of a comment.\<close>

fun sse_text :: "sse \<Rightarrow> string" where
  "sse_text (SSE name data) = ''event: '' @ name @ [CHR 0x0A] @ ''data: '' @ json_text data @ [CHR 0x0A, CHR 0x0A]"
| "sse_text Waiting = '': waiting'' @ [CHR 0x0A, CHR 0x0A]"

abbreviation in_stream :: "(world, 'a) prog \<Rightarrow> (stream_world, 'a) prog" where
  "in_stream \<equiv> zoom sw_world (\<lambda>w s. s\<lparr>sw_world := w\<rparr>)"

record wr_api =
  wr_process :: nat
  wr_estimate :: "int \<Rightarrow> int"

definition wr_pathEventID :: "request \<Rightarrow> int \<times> bool" where
  "wr_pathEventID r = (case parse_int (hr_param r ''eventID'') of None \<Rightarrow> (0, False) | Some i \<Rightarrow> (i, i > 0))"

text \<open>\<open>new\<close> is the queue id the generator gives.\<close>

definition handleJoin :: "wr_api \<Rightarrow> (string \<Rightarrow> uuid option) \<Rightarrow> uuid option \<Rightarrow> stream_world handler_func" where
  "handleJoin a uuid_parse new c r = (case wr_pathEventID r of (eid, ok) \<Rightarrow>
     if \<not> ok then Ret (WriteErr [ErrEventNotFound])
     else bindp (in_stream (Event (wr_process a) eid)) (\<lambda>x. case x of
       Inl e \<Rightarrow> Ret (WriteErr e)
     | Inr _ \<Rightarrow> bindp (in_stream (Join uuid_parse eid (UserIDFrom c) new)) (\<lambda>y. Ret (case y of
         Inl e \<Rightarrow> WriteErr e
       | Inr en \<Rightarrow> WriteJSON 200 (JObj [(''queue_id'', JStr (en_queue_id en)), (''position'', JNum (en_position en))])))))"

definition write_sse :: "sse \<Rightarrow> (stream_world, unit res) prog" where
  "write_sse ev = call (\<lambda>s. (s\<lparr>sw_sent := sw_sent s @ [ev]\<rparr>, Inr ()))"

text \<open>\<open>send\<close> answers whether the stream is done.\<close>

definition sse_of :: "wr_api \<Rightarrow> queue_status \<Rightarrow> sse \<times> bool" where
  "sse_of a st =
    (if qs_token st \<noteq> ''''
     then (SSE ''admitted'' (JObj [(''admission_token'', JStr (qs_token st)), (''expires_in'', JNum (go_div (qs_expires_in st) second))]), True)
     else if qs_position st < 0 then (Waiting, False)
     else (SSE ''position'' (JObj [(''position'', JNum (qs_position st)),
       (''estimated_wait_seconds'', JNum (wr_estimate a (qs_position st)))]), False))"

definition send :: "wr_api \<Rightarrow> queue_status \<Rightarrow> (stream_world, bool res) prog" where
  "send a st = (case sse_of a st of (ev, ended) \<Rightarrow>
     bindp (write_sse ev) (\<lambda>x. Ret (case x of Inl e \<Rightarrow> Inl e | Inr _ \<Rightarrow> Inr ended)))"

text \<open>\<open>others n\<close> is what the rest of the system does while the stream waits for a tick with \<open>n\<close> more to come.\<close>

primrec stream_loop :: "wr_api \<Rightarrow> (nat \<Rightarrow> world \<Rightarrow> world) \<Rightarrow> int \<Rightarrow> uuid \<Rightarrow> nat \<Rightarrow> queue_status \<Rightarrow> (stream_world, unit) prog" where
  "stream_loop a others eid qid 0 st = bindp (send a st) (\<lambda>_. Ret ())"
| "stream_loop a others eid qid (Suc ticks) st = bindp (send a st) (\<lambda>x. case x of
     Inl e \<Rightarrow> Ret ()
   | Inr ended \<Rightarrow>
       if ended then Ret ()
       else bindp (local_step (\<lambda>s. (s\<lparr>sw_world := others ticks (sw_world s)\<rparr>, ()))) (\<lambda>_.
         bindp (in_stream (queue_Status eid qid)) (\<lambda>y. case y of
         Inl e \<Rightarrow>
           if errors_is e ErrNotQueued then bindp (write_sse (SSE ''expired'' (JObj []))) (\<lambda>_. Ret ())
           else stream_loop a others eid qid ticks \<lparr>qs_position = -1, qs_token = '''', qs_expires_in = 0\<rparr>
       | Inr st \<Rightarrow> stream_loop a others eid qid ticks st)))"

definition handleStream :: "wr_api \<Rightarrow> (string \<Rightarrow> uuid option) \<Rightarrow> (nat \<Rightarrow> world \<Rightarrow> world) \<Rightarrow> nat \<Rightarrow> stream_world handler_func" where
  "handleStream a uuid_parse others ticks c r = (case (wr_pathEventID r, uuid_parse (hr_query r ''queue_id'')) of
     ((eid, True), Some qid) \<Rightarrow> bindp (in_stream (queue_Status eid qid)) (\<lambda>x. case x of
       Inl e \<Rightarrow> Ret (WriteErr e)
     | Inr st \<Rightarrow> bindp (stream_loop a others eid qid ticks st) (\<lambda>_. Ret \<lparr>rs_status = 200,
         rs_headers = [(''Content-Type'', ''text/event-stream''), (''Cache-Control'', ''no-cache''), (''X-Accel-Buffering'', ''no'')],
         rs_body = NoBody\<rparr>))
   | _ \<Rightarrow> Ret (WriteErr [ErrNotQueued]))"

definition wr_routes ::
  "wr_api \<Rightarrow> jwt_parse \<Rightarrow> Tokens \<Rightarrow> time \<Rightarrow> (string \<Rightarrow> uuid option) \<Rightarrow> uuid option \<Rightarrow> (nat \<Rightarrow> world \<Rightarrow> world) \<Rightarrow> nat
    \<Rightarrow> (string \<times> string \<times> stream_world handler_func) list" where
  "wr_routes a parse tokens now uuid_parse new others ticks =
    [(''POST'', ''/v1/queue/{eventID}/join'', RequireUser parse tokens now (handleJoin a uuid_parse new)),
     (''GET'', ''/v1/queue/{eventID}/stream'', handleStream a uuid_parse others ticks)]"

section \<open>What a stream sends\<close>

fun last_event :: "sse \<Rightarrow> bool" where
  "last_event (SSE name data) \<longleftrightarrow> name \<noteq> ''position''"
| "last_event Waiting \<longleftrightarrow> False"

text \<open>Positions and comments, then at most one last event, which is \<open>expired\<close> or an admission with the token \<open>t\<close>.\<close>

fun stream_ok :: "(string \<Rightarrow> bool) \<Rightarrow> sse list \<Rightarrow> bool" where
  "stream_ok t [] \<longleftrightarrow> True"
| "stream_ok t [ev] \<longleftrightarrow> (\<not> last_event ev \<or> ev = SSE ''expired'' (JObj [])
     \<or> (\<exists>tok left. t tok \<and> ev = SSE ''admitted'' (JObj [(''admission_token'', JStr tok), (''expires_in'', JNum left)])))"
| "stream_ok t (ev # evs) \<longleftrightarrow> \<not> last_event ev \<and> stream_ok t evs"

definition stored :: "uuid \<Rightarrow> stream_world \<Rightarrow> string \<Rightarrow> bool" where
  "stored qid s t \<longleftrightarrow> redis_get (rd (sw_world s)) (AdmittedKey qid) = Some t"

lemma Status_yields:
  "yields (queue_Status e q) w (\<lambda>w' r. w' = w \<and> (\<forall>st. r = Inr st \<longrightarrow> qs_token st \<noteq> [] \<longrightarrow> redis_get (rd w) (AdmittedKey q) = Some (qs_token st)))"
  unfolding yields_def by (auto simp: read_status_def dest!: run_queue_Status split: option.splits fault.splits if_splits)

lemma run_in_stream:
  "run fs s (in_stream p) = map_option (\<lambda>(w, a). (s\<lparr>sw_world := w\<rparr>, a)) (run fs (sw_world s) p)"
  by (rule run_zoom) simp_all

lemma in_stream_Status:
  "yields (in_stream (queue_Status e q)) s (\<lambda>s' r. s' = s \<and> (\<forall>st. r = Inr st \<longrightarrow> qs_token st \<noteq> [] \<longrightarrow> stored q s (qs_token st)))"
  using Status_yields[of e q "sw_world s"] by (fastforce simp: yields_def stored_def run_in_stream)

lemma send_yields:
  "yields (send a st) s (\<lambda>s' r. (s' = s \<and> r \<in> range Inl \<or> s' = s\<lparr>sw_sent := sw_sent s @ [fst (sse_of a st)]\<rparr>)
     \<and> (r = Inr True \<longrightarrow> snd (sse_of a st)) \<and> (r = Inr False \<longrightarrow> \<not> snd (sse_of a st)))"
  unfolding send_def write_sse_def by (auto simp: split_beta intro!: yields_bind[OF yields_call] split: sum.split)

lemma stream_ok_Cons: "\<not> last_event ev \<Longrightarrow> stream_ok t evs \<Longrightarrow> stream_ok t (ev # evs)"
  by (cases evs) auto

lemma not_ended: "\<not> snd (sse_of a st) \<Longrightarrow> \<not> last_event (fst (sse_of a st))"
  by (auto simp: sse_of_def split: if_splits)

lemma sse_of_ok: "(qs_token st \<noteq> [] \<longrightarrow> t (qs_token st)) \<Longrightarrow> stream_ok t [fst (sse_of a st)]"
  by (auto simp: sse_of_def)

lemma stream_yields:
  "(qs_token st \<noteq> [] \<longrightarrow> stored qid s (qs_token st)) \<Longrightarrow> yields (stream_loop a others eid qid n st) s
    (\<lambda>s' _. \<exists>new. sw_sent s' = sw_sent s @ new \<and> stream_ok (stored qid s') new)"
proof (induction n arbitrary: st s)
  case 0
  have "stream_ok (stored qid (s\<lparr>sw_sent := x\<rparr>)) [fst (sse_of a st)]" for x
    using 0 by (intro sse_of_ok) (simp add: stored_def)
  then show ?case unfolding stream_loop.simps
    by (intro yields_bind[OF send_yields]) (auto simp del: stream_ok.simps(2))
next
  case (Suc n)
  have first: "stream_ok (stored qid (s\<lparr>sw_sent := x\<rparr>)) [fst (sse_of a st)]" for x
    using Suc.prems by (intro sse_of_ok) (simp add: stored_def)
  have rest: "yields (stream_loop a others eid qid n st') s1 (\<lambda>s' _. \<exists>new. sw_sent s' = sw_sent s @ new \<and> stream_ok (stored qid s') new)"
    if "qs_token st' \<noteq> [] \<longrightarrow> stored qid s1 (qs_token st')" "sw_sent s1 = sw_sent s @ [fst (sse_of a st)]" "\<not> snd (sse_of a st)" for st' s1
    by (rule yields_mono[OF Suc.IH[OF that(1)]]) (use that(2,3) not_ended stream_ok_Cons in \<open>fastforce\<close>)
  show ?case unfolding stream_loop.simps
  proof (rule yields_bind[OF send_yields], goal_cases)
    case (1 s1 r)
    show ?case
    proof (cases "r = Inr False")
      case True
      then have s1: "sw_sent s1 = sw_sent s @ [fst (sse_of a st)]" "\<not> snd (sse_of a st)" using 1 by auto
      show ?thesis unfolding True sum.case if_False
        by (rule yields_bind[OF yields_local], rule yields_bind[OF in_stream_Status])
          (use s1 not_ended[OF s1(2)] in \<open>auto simp: write_sse_def intro!: rest yields_bind[OF yields_call] split: sum.split\<close>)
    next
      case False
      then show ?thesis using 1 first by (cases r) (auto intro: exI[of _ "[]"])
    qed
  qed
qed

text \<open>
  C32. A stream sends positions and keep-alive comments and then at most one last event, after which
  nothing follows. The last event is \<open>expired\<close>, or \<open>admitted\<close> with the token that Redis holds for this
  queue entry when the stream ends. Anything the rest of the system does between two ticks, and every
  failed read of the queue or write to the client, is allowed.
\<close>

theorem stream_ends_with_token:
  assumes "uuid_parse (hr_query r ''queue_id'') = Some qid" "sw_sent s = []"
    and "run fs s (handleStream a uuid_parse others ticks c r) = Some (s', resp)"
  shows "stream_ok (stored qid s') (sw_sent s') \<and> (sw_sent s' = [] \<or> rs_status resp = 200)"
proof -
  have loop: "yields (bindp (stream_loop a others eid qid ticks st) (\<lambda>_. Ret ok)) s
      (\<lambda>s' resp. stream_ok (stored qid s') (sw_sent s') \<and> (sw_sent s' = [] \<or> rs_status resp = 200))"
    if "qs_token st \<noteq> [] \<longrightarrow> stored qid s (qs_token st)" "rs_status ok = 200" for eid st ok
    by (rule yields_bind[OF stream_yields[OF that(1)]]) (use assms(2) that(2) in auto)
  have "yields (handleStream a uuid_parse others ticks c r) s
      (\<lambda>s' resp. stream_ok (stored qid s') (sw_sent s') \<and> (sw_sent s' = [] \<or> rs_status resp = 200))"
    unfolding handleStream_def using assms(1,2)
    by (auto intro!: yields_bind[OF in_stream_Status] loop split: prod.split bool.split sum.split)
  then show ?thesis using assms(3) by (rule yieldsD)
qed

definition waiting_buyer :: stream_world where
  "waiting_buyer = \<lparr>sw_world = (empty_world 0)\<lparr>rd := (empty_redis 0)\<lparr>zsets := (\<lambda>_. [(1, ''q1'')])\<rparr>\<rparr>, sw_sent = []\<rparr>"

definition admits :: "nat \<Rightarrow> world \<Rightarrow> world" where
  "admits n w = w\<lparr>rd := (rd w)\<lparr>kv := (kv (rd w))(AdmittedKey ''q1'' := Some (''tok'', Some 60000000000))\<rparr>\<rparr>"

definition stream_request :: request where
  "stream_request = \<lparr>hr_header = (\<lambda>_. []), hr_param = (\<lambda>_. ''7''), hr_query = (\<lambda>_. ''q1''), hr_body = []\<rparr>"

lemma stream_status_step:
  "run (Reply # Reply # Reply # xs) s (bindp (in_stream (queue_Status e q)) k) = run xs s (k (status_answer e q (rd (sw_world s))))"
  by (simp add: queue_Status_def piped_read_def)

lemma stream_send_step:
  "run (Reply # xs) s (bindp (send a st) k) = run xs (s\<lparr>sw_sent := sw_sent s @ [fst (sse_of a st)]\<rparr>) (k (Inr (snd (sse_of a st))))"
  by (simp add: send_def write_sse_def split_beta call_when_def)

text \<open>A buyer who waits, is first, and is admitted during the first tick.\<close>

lemma admitted_stream:
  "run [Reply, Reply, Reply, Reply, Reply, Reply, Reply, Reply, Reply] waiting_buyer
     (handleStream \<lparr>wr_process = 0, wr_estimate = (\<lambda>n. n)\<rparr> Some admits (Suc (Suc 0)) \<lparr>ctx_user = None, ctx_admission = None\<rparr> stream_request)
   = Some (waiting_buyer\<lparr>sw_world := admits (Suc 0) (sw_world waiting_buyer),
       sw_sent := [SSE ''position'' (JObj [(''position'', JNum 1), (''estimated_wait_seconds'', JNum 1)]),
         SSE ''admitted'' (JObj [(''admission_token'', JStr ''tok''), (''expires_in'', JNum 60)])]\<rparr>,
     \<lparr>rs_status = 200, rs_headers = [(''Content-Type'', ''text/event-stream''), (''Cache-Control'', ''no-cache''),
        (''X-Accel-Buffering'', ''no'')], rs_body = NoBody\<rparr>)"
proof -
  have [simp]: "parse_int ''7'' = Some 7" by code_simp
  show ?thesis
    by (simp add: waiting_buyer_def admits_def stream_request_def handleStream_def wr_pathEventID_def
      stream_status_step stream_send_step status_answer_def sse_of_def redis_get_def pttl_def empty_world_def empty_redis_def go_div_def second_def)
qed

theorem stream_ends_with_token_witness:
  "stream_ok (stored ''q1'' (waiting_buyer\<lparr>sw_world := admits (Suc 0) (sw_world waiting_buyer)\<rparr>))
    [SSE ''position'' (JObj [(''position'', JNum 1), (''estimated_wait_seconds'', JNum 1)]),
     SSE ''admitted'' (JObj [(''admission_token'', JStr ''tok''), (''expires_in'', JNum 60)])]"
proof -
  have "Some (hr_query stream_request ''queue_id'') = Some ''q1''" "sw_sent waiting_buyer = []"
    by (simp_all add: stream_request_def waiting_buyer_def)
  from stream_ends_with_token[OF this admitted_stream] show ?thesis by (simp add: stored_def)
qed

section \<open>Status and the worker at once\<close>

text \<open>
  \<open>Status\<close> sends its three commands as a pipeline, which Redis does not run as one transaction.
  \<open>run_after_first\<close> runs a program where others do \<open>f\<close> after its first step.
\<close>

fun run_after_first :: "('w \<Rightarrow> 'w) \<Rightarrow> fault list \<Rightarrow> 'w \<Rightarrow> ('w, 'a) prog \<Rightarrow> ('w \<times> 'a) option" where
  "run_after_first f xs w (Ret a) = Some (w, a)"
| "run_after_first f [] w (Step g e c) = None"
| "run_after_first f (x # xs) w (Step g e c) = (if g w then run xs (f (e x w)) (c x w) else None)"

definition worker_commands :: "world \<Rightarrow> world" where
  "worker_commands w = w\<lparr>rd := fold (\<lambda>cmd r. cmd r) (admit_cmds 7 60000 [''q1''] [(''q1'', ''tok'')]) (rd w)\<rparr>"

text \<open>
  A buyer who is admitted between the first and the last command is reported as not queued,
  although the token is stored: the first command was too early to see the token and the last
  too late to see the place in the queue.
\<close>

lemma admitted_but_not_queued:
  "\<exists>w. run_after_first worker_commands [Reply, Reply, Reply] (sw_world waiting_buyer) (queue_Status 7 ''q1'') = Some (w, Inl [ErrNotQueued])
     \<and> redis_get (rd w) (AdmittedKey ''q1'') = Some ''tok'' \<and> status_answer 7 ''q1'' (rd (sw_world waiting_buyer)) = Inr \<lparr>qs_position = 1, qs_token = [], qs_expires_in = 0\<rparr>"
  by (simp add: waiting_buyer_def worker_commands_def queue_Status_def piped_read_def read_status_def
      empty_world_def empty_redis_def redis_get_def pttl_def admit_cmds_def redis_setnx_def zrem_def hdel_def status_answer_def)

end
