(* ===== verification/Consumer.thy ===== *)
theory Consumer
  imports Books Refinement
begin

text \<open>
  The Kafka consumers: the loop of \<open>internal/platform/kafka/consume.go\<close>, the decoding handler
  of \<open>internal/events/handler.go\<close>, and the handlers of the ticket and refund workers. The
  context is given by the time left until it is cancelled; only the pauses between attempts
  take time. A batch that a poll returned is an argument, the commit of offsets a parameter.
  The lemmas show that a batch is committed only after its records were, in their order, handled or
  skipped as permanent, how long the pauses are, that handling a paid order issues its
  tickets however often the database fails first, and that handling a record twice changes
  nothing.
\<close>

section \<open>The loop\<close>

type_synonym 'w record_handler = "kafka_record \<Rightarrow> ('w, unit res) prog"

definition retryMin :: duration where "retryMin = 100 * 1000000"
definition retryMax :: duration where "retryMax = 5 * 1000000000"

definition IsPermanent :: "goerror \<Rightarrow> bool" where
  "IsPermanent e \<longleftrightarrow> Permanent \<in> set e"

text \<open>
  \<open>process\<close>: the answer is the time left, or \<open>None\<close> when the context ended first. Pauses are
  positive; the test for it makes the recursion well-founded.
\<close>

function process :: "duration \<Rightarrow> duration \<Rightarrow> 'w record_handler \<Rightarrow> kafka_record \<Rightarrow> ('w, duration option) prog" where
  "process left wait handle r = bindp (handle r) (\<lambda>x.
     case x of
       Inr _ \<Rightarrow> Ret (Some left)
     | Inl e \<Rightarrow>
         if IsPermanent e then Ret (Some left)
         else if left < wait \<or> wait \<le> 0 then Ret None
         else process (left - wait) (min (wait * 2) retryMax) handle r)"
  by pat_completeness auto
termination by (relation "measure (\<lambda>(left, _). nat left)") auto

declare process.simps [simp del]

fun consume_records :: "duration \<Rightarrow> 'w record_handler \<Rightarrow> kafka_record list \<Rightarrow> ('w, duration option) prog" where
  "consume_records left handle [] = Ret (Some left)"
| "consume_records left handle (r # rs) = bindp (process left retryMin handle r) (\<lambda>x.
     case x of None \<Rightarrow> Ret None | Some left \<Rightarrow> consume_records left handle rs)"

text \<open>One round of \<open>Consume\<close>: the answer tells whether the offsets of the batch were committed.\<close>

definition consume_round ::
  "('w, unit res) prog \<Rightarrow> duration \<Rightarrow> 'w record_handler \<Rightarrow> kafka_record list \<Rightarrow> ('w, (duration \<times> bool) option) prog" where
  "consume_round commit left handle rs = bindp (consume_records left handle rs) (\<lambda>x.
     case x of
       None \<Rightarrow> Ret None
     | Some left \<Rightarrow> bindp commit (\<lambda>y. Ret (Some (left, y = Inr ()))))"

section \<open>Handlers\<close>

fun Header :: "(string \<times> string) list \<Rightarrow> string \<Rightarrow> string" where
  "Header [] key = ''''"
| "Header ((k, v) # hs) key = (if k = key then v else Header hs key)"

definition events_Handler :: "(order_event \<Rightarrow> ('w, unit res) prog) \<Rightarrow> string list \<Rightarrow> 'w record_handler" where
  "events_Handler fn types r =
    (let t = Header (k_headers r) HeaderEventType in
     if t \<noteq> '''' \<and> t \<notin> set types then Ret (Inr ())
     else case k_value r of
       None \<Rightarrow> Ret (Inl [Permanent, Opaque ''decode event''])
     | Some ev \<Rightarrow> if ev_event_type ev \<notin> set types then Ret (Inr ()) else fn ev)"

definition ticket_Handler :: "string \<Rightarrow> world record_handler" where
  "ticket_Handler secret = events_Handler (\<lambda>ev.
     bindp (Issue secret (ev_order_id ev)) (\<lambda>x.
       case x of
         Inl e \<Rightarrow> if errors_is e ErrNotFound then Ret (Inl (Permanent # e)) else Ret (Inl e)
       | Inr status \<Rightarrow> Ret (Inr ()))) [OrderPaid]"

definition refund_Handler :: "gateway \<Rightarrow> world record_handler" where
  "refund_Handler gw = events_Handler (\<lambda>ev.
     if ev_provider_txn_id ev = '''' then Ret (Inl [Permanent, Opaque ''order.refund_requested without provider_txn_id''])
     else bindp (Process gw (ev_provider_txn_id ev)) (\<lambda>x.
       case x of
         Inl e \<Rightarrow> if errors_is e ErrRefundNotFound then Ret (Inl (Permanent # e)) else Ret (Inl e)
       | Inr _ \<Rightarrow> Ret (Inr ()))) [OrderRefundRequested]"

section \<open>What a committed batch means\<close>

text \<open>
  The states a batch goes through: attempts at one record that fail and are tried again, and the
  records of a batch in turn, each after some such attempts handled or given up for good.
\<close>

inductive failed_attempts :: "'w record_handler \<Rightarrow> kafka_record \<Rightarrow> 'w \<Rightarrow> 'w \<Rightarrow> bool" for handle r where
  no_attempt: "failed_attempts handle r w w"
| failed_attempt: "run fs w (handle r) = Some (w1, Inl e) \<Longrightarrow> \<not> IsPermanent e \<Longrightarrow> failed_attempts handle r w1 w'
    \<Longrightarrow> failed_attempts handle r w w'"

definition final :: "unit res \<Rightarrow> bool" where
  "final x = (case x of Inr _ \<Rightarrow> True | Inl e \<Rightarrow> IsPermanent e)"

inductive handled_in_turn :: "'w record_handler \<Rightarrow> kafka_record list \<Rightarrow> 'w \<Rightarrow> 'w \<Rightarrow> bool" for handle where
  none_left: "handled_in_turn handle [] w w"
| next_record: "failed_attempts handle r w w1 \<Longrightarrow> run fs w1 (handle r) = Some (w2, x) \<Longrightarrow> final x
    \<Longrightarrow> handled_in_turn handle rs w2 w' \<Longrightarrow> handled_in_turn handle (r # rs) w w'"

lemma process_attempts:
  "run fs w (process left wait handle r) = Some (w', y) \<Longrightarrow>
    (case y of None \<Rightarrow> failed_attempts handle r w w'
     | Some _ \<Rightarrow> \<exists>w1 gs x. failed_attempts handle r w w1 \<and> run gs w1 (handle r) = Some (w', x) \<and> final x)"
proof (induction left wait handle r arbitrary: fs w rule: process.induct)
  case (1 left wait handle r)
  obtain fs1 fs2 w1 x where x: "run fs1 w (handle r) = Some (w1, x)"
    and k: "run fs2 w1 (case x of Inr _ \<Rightarrow> Ret (Some left) | Inl e \<Rightarrow> if IsPermanent e then Ret (Some left)
         else if left < wait \<or> wait \<le> 0 then Ret None
         else process (left - wait) (min (wait * 2) retryMax) handle r) = Some (w', y)"
    using 1(2) unfolding process.simps[of left] by (rule run_bindE)
  show ?case
  proof (cases "final x")
    case True
    then have "w1 = w'" "\<exists>l. y = Some l" using k by (auto simp: final_def split: sum.splits)
    then show ?thesis using True x no_attempt by fastforce
  next
    case False
    then obtain e where e: "x = Inl e" "\<not> IsPermanent e" by (auto simp: final_def split: sum.splits)
    show ?thesis
    proof (cases "left < wait \<or> wait \<le> 0")
      case True
      then show ?thesis using k e x by (auto intro: failed_attempt no_attempt)
    next
      case False
      then have "run fs2 w1 (process (left - wait) (min (wait * 2) retryMax) handle r) = Some (w', y)" using k e by simp
      from 1(1)[OF e(2) False this] show ?thesis using x e by (cases y) (auto intro: failed_attempt)
    qed
  qed
qed

lemma consume_in_turn:
  "run fs w (consume_records left handle rs) = Some (w', y) \<Longrightarrow>
    (case y of Some _ \<Rightarrow> handled_in_turn handle rs w w'
     | None \<Rightarrow> \<exists>rs1 r rs2 w1. rs = rs1 @ r # rs2 \<and> handled_in_turn handle rs1 w w1 \<and> failed_attempts handle r w1 w')"
proof (induction rs arbitrary: fs w left)
  case Nil
  then show ?case by (auto intro: none_left)
next
  case (Cons a rs)
  obtain fs1 fs2 w1 x where x: "run fs1 w (process left retryMin handle a) = Some (w1, x)"
    and k: "run fs2 w1 (case x of None \<Rightarrow> Ret None | Some left \<Rightarrow> consume_records left handle rs) = Some (w', y)"
    using Cons.prems(1) unfolding consume_records.simps by (rule run_bindE)
  show ?case
  proof (cases x)
    case None
    then have "y = None" "failed_attempts handle a w w'" using k process_attempts[OF x] by auto
    then show ?thesis using none_left by fastforce
  next
    case (Some l)
    then have r: "run fs2 w1 (consume_records l handle rs) = Some (w', y)" using k by simp
    have a: "handled_in_turn handle (a # zs) w w''" if "handled_in_turn handle zs w1 w''" for zs w''
      using process_attempts[OF x] Some that by (auto intro: next_record)
    show ?thesis
    proof (cases y)
      case None
      then obtain rs1 r rs2 w2 where "rs = rs1 @ r # rs2" "handled_in_turn handle rs1 w1 w2" "failed_attempts handle r w2 w'"
        using Cons.IH[OF r] by auto
      then show ?thesis using None a[of rs1 w2] by (simp, intro exI[of _ "a # rs1"]) auto
    qed (use Cons.IH[OF r] a in simp)
  qed
qed

text \<open>The pauses double from 100 ms and stay at 5 s.\<close>

fun pause :: "nat \<Rightarrow> duration" where
  "pause 0 = retryMin"
| "pause (Suc n) = min (pause n * 2) retryMax"

lemma pause_eq: "pause n = min (retryMin * 2 ^ n) retryMax"
  by (induction n) (auto simp: retryMin_def retryMax_def)

lemma pause_bounds: "0 < pause n" "pause n \<le> retryMax"
  by (simp_all add: pause_eq) (simp_all add: retryMin_def retryMax_def)

text \<open>An attempt that fails without an effect is one pause.\<close>

lemma process_fail:
  assumes "handle r = bindp (call_when g op) h" "g w" "h (Inl infra_error) = Ret (Inl infra_error)" "pause n \<le> left"
  shows "run (Fail # fs) w (process left (pause n) handle r)
    = run fs w (process (left - pause n) (pause (Suc n)) handle r)"
  unfolding process.simps[of left] assms(1) using assms(2-4) pause_bounds(1)[of n]
  by (simp add: not_less not_le IsPermanent_def)

lemma process_fails:
  assumes "handle r = bindp (call_when g op) h" "g w" "h (Inl infra_error) = Ret (Inl infra_error)"
    and "int k * retryMax \<le> left"
  shows "\<exists>left' n'. 0 \<le> left' \<and> run (replicate k Fail @ fs) w (process left (pause n) handle r)
    = run fs w (process left' (pause n') handle r)"
  using assms(4)
proof (induction k arbitrary: left n)
  case (Suc k)
  have "int k * retryMax \<le> left - pause n" using Suc.prems pause_bounds(2)[of n] by (simp add: algebra_simps)
  moreover have "pause n \<le> left"
    using Suc.prems pause_bounds(2)[of n] by (simp add: algebra_simps retryMax_def)
  ultimately show ?case using Suc.IH[of "left - pause n" "Suc n"] process_fail[where handle = handle and r = r, OF assms(1-3)]
    by (simp del: pause.simps)
qed (auto intro: exI[of _ left])

section \<open>A paid order gets its tickets\<close>

lemma each_set_qr_total: "\<exists>d'. tx_each (set_qr secret now) ts d = Inr (d', ()) \<and> orders d' = orders d"
proof (induction ts arbitrary: d)
  case (Cons t ts)
  obtain d1 where d1: "set_qr secret now t d = Inr (d1, ())" "orders d1 = orders d" by (simp add: set_qr_eq)
  show ?case using Cons.IH[of d1] d1 by simp
qed simp

lemma issue_tx_paid:
  assumes "ledger d" "row_by o_id i (orders d) = Some q" "o_status q = StatusPaid"
  shows "\<exists>d'. issue_tx secret i now d = Inr (d', StatusTicketed)
    \<and> row_by o_id i (orders d') = Some (q\<lparr>o_status := StatusTicketed, o_updated_at := now\<rparr>)"
proof -
  have q: "q \<in> set (orders d)" "o_id q = i" using row_by_SomeD[OF assms(2)] by auto
  then have "order_seats_ok q (seats_of d i)" "order_tickets_ok q (seats_of d i) (tickets_of d i)"
    using assms(1) by (auto simp: ledger_def orders_ok_def)
  then have "tickets_of d i \<noteq> []"
    using assms(3) by (auto simp: order_tickets_ok_def order_seats_ok_def sold_def)
  then have ts: "sort_key t_seat_id (tickets_of d i) \<noteq> []" by (metis length_0_conv length_sort)
  obtain d1 where d1: "tx_each (set_qr secret now) (sort_key t_seat_id (tickets_of d i)) d = Inr (d1, ())" "orders d1 = orders d"
    using each_set_qr_total by blast
  let ?os = "update_where (\<lambda>x. o_id x = i \<and> o_status x = StatusPaid)
     (\<lambda>q. q\<lparr>o_status := StatusTicketed, o_updated_at := now\<rparr>) (orders d)"
  have row: "row_by o_id i ?os = Some (q\<lparr>o_status := StatusTicketed, o_updated_at := now\<rparr>)"
    using assms(2,3) q(2) by (simp add: row_by_update_where)
  have "transition now i StatusPaid StatusTicketed d1
      = Inr (d1\<lparr>orders := ?os\<rparr>, q\<lparr>o_status := StatusTicketed, o_updated_at := now\<rparr>)"
    using q assms(3) row by (auto simp: transition_def TransitionOrder_def d1(2) one_row_def CanTransition_def Let_def)
  then show ?thesis using assms(2,3) d1(1) ts row
    by (auto simp: issue_tx_def tx_try_def one_row_def GetOrderForUpdate_def ListOrderTickets_def ListOrderSeats_def
        writeEvent_eq tickets_of_def tx_bind_def tx_return_def tx_read_def)
qed

lemma header_event_record [simp]: "Header (k_headers (event_record topic ty ev)) HeaderEventType = ty"
  by (simp add: event_record_def)

lemma events_Handler_record:
  "ev_event_type ev \<in> set types \<Longrightarrow> ev_event_type ev = ty
    \<Longrightarrow> events_Handler fn types (event_record topic ty ev) = fn ev"
  by (simp add: events_Handler_def event_record_def)

lemma ticket_Handler_paid:
  assumes "announces_status StatusPaid i r"
  shows "ticket_Handler secret r = bindp (Issue secret i) (\<lambda>x.
       case x of
         Inl e \<Rightarrow> if errors_is e ErrNotFound then Ret (Inl (Permanent # e)) else Ret (Inl e)
       | Inr status \<Rightarrow> Ret (Inr ()))"
proof -
  obtain ev where ev: "r = event_record TopicOrders OrderPaid ev" "ev_event_type ev = OrderPaid" "ev_order_id ev = i"
    using assms by (auto simp: announces_status_def)
  show ?thesis unfolding ticket_Handler_def ev(1) by (subst events_Handler_record) (simp_all only: ev list.set insertI1)
qed

lemma issue_books:
  assumes "books (Payload secret) K d" "issue_tx secret i now d = Inr (d', x)"
  shows "books (Payload secret) K d'"
  using assms keepsD[OF refines_issue assms(2)] refines_books by blast

lemma books_ticketed:
  assumes "books qr K d" "row_by o_id i (orders d) = Some q" "o_status q = StatusTicketed" "t \<in> set (tickets_of d i)"
  shows "t_qr_payload t = Some (qr (t_id t))"
proof -
  have "order_tickets_ok q (seats_of d i) (tickets_of d i)"
    using assms(1) row_by_SomeD[OF assms(2)] by (auto simp: books_def ledger_def orders_ok_def)
  then have "t_qr_payload t \<noteq> None" using assms(3,4) by (auto simp: order_tickets_ok_def sold_def)
  then show ?thesis using assms(1,4) by (auto simp: books_def qr_ok_def tickets_of_def)
qed

text \<open>C8: However often the database fails before, within the time the consumer has, handling the
  order.paid record of a PAID order makes the order TICKETED, and every ticket of it then carries
  its signed code.\<close>

theorem paid_order_ticketed:
  assumes "books (Payload secret) K (pg w)" "row_by o_id i (orders (pg w)) = Some q" "o_status q = StatusPaid"
    and "order_unlocked i w" "announces_status StatusPaid i r" "int k * retryMax \<le> left"
  shows "\<exists>w' l q'. run (replicate k Fail @ [Reply]) w (process left retryMin (ticket_Handler secret) r) = Some (w', Some l)
    \<and> row_by o_id i (orders (pg w')) = Some q' \<and> o_status q' = StatusTicketed
    \<and> (\<forall>t\<in>set (tickets_of (pg w') i). t_qr_payload t = Some (Payload secret (t_id t)))"
proof -
  let ?h = "\<lambda>x. case x of Inl e \<Rightarrow> if errors_is e ErrNotFound then Ret (Inl (Permanent # e)) else Ret (Inl e)
       | Inr status \<Rightarrow> Ret (Inr ())"
  let ?q = "q\<lparr>o_status := StatusTicketed, o_updated_at := pg_now w\<rparr>"
  have h: "ticket_Handler secret r = bindp (call_when (order_unlocked i) (run_tx (issue_tx secret i))) ?h"
    unfolding ticket_Handler_paid[OF assms(5)] Issue_def begin_func_def ..
  obtain d' where d': "issue_tx secret i (pg_now w) (pg w) = Inr (d', StatusTicketed)" "row_by o_id i (orders d') = Some ?q"
    using issue_tx_paid[OF _ assms(2,3)] assms(1) by (auto simp: books_def)
  obtain left' n' where "run (replicate k Fail @ [Reply]) w (process left (pause 0) (ticket_Handler secret) r)
      = run [Reply] w (process left' (pause n') (ticket_Handler secret) r)"
    using process_fails[where handle = "ticket_Handler secret" and n = 0 and fs = "[Reply]", OF h assms(4) _ assms(6)] by auto
  also have "\<dots> = Some (w\<lparr>pg := d'\<rparr>, Some left')"
    unfolding process.simps[of left'] h using assms(4) d'(1) by simp
  finally have "run (replicate k Fail @ [Reply]) w (process left retryMin (ticket_Handler secret) r) = Some (w\<lparr>pg := d'\<rparr>, Some left')"
    by simp
  moreover have "\<forall>t\<in>set (tickets_of d' i). t_qr_payload t = Some (Payload secret (t_id t))"
    using books_ticketed[OF issue_books[OF assms(1) d'(1)] d'(2)] by simp
  ultimately show ?thesis using d'(2) by (intro exI[of _ "w\<lparr>pg := d'\<rparr>"] exI[of _ left'] exI[of _ ?q]) simp
qed

section \<open>A requested refund is paid back\<close>

lemma refund_Handler_requested:
  assumes "announces_refund i txn r" "txn \<noteq> ''''"
  shows "refund_Handler gw r = bindp (Process gw txn) (\<lambda>x.
       case x of
         Inl e \<Rightarrow> if errors_is e ErrRefundNotFound then Ret (Inl (Permanent # e)) else Ret (Inl e)
       | Inr _ \<Rightarrow> Ret (Inr ()))"
proof -
  obtain ev where ev: "r = event_record TopicOrders OrderRefundRequested ev" "ev_event_type ev = OrderRefundRequested"
      "ev_provider_txn_id ev = txn"
    using assms(1) by (auto simp: announces_refund_def)
  show ?thesis unfolding refund_Handler_def ev(1)
    by (subst events_Handler_record) (simp_all only: ev assms(2) list.set insertI1 if_False)
qed

lemma complete_tx_pending:
  assumes "schema d" "row_by r_provider_txn_id txn (refunds d) = Some f" "r_status f = RefundPending"
    and "row_by o_id (r_order_id f) (orders d) = Some q"
  shows "\<exists>d' q'. complete_tx txn now d = Inr (d', ())
    \<and> row_by r_provider_txn_id txn (refunds d') = Some (f\<lparr>r_status := RefundSucceeded, r_completed_at := Some now\<rparr>)
    \<and> row_by o_id (r_order_id f) (orders d') = Some q'
    \<and> o_status q' = (if r_reason f \<noteq> ReasonDoublePayment \<and> o_status q = StatusRefunding then StatusRefunded else o_status q)"
proof -
  let ?f = "f\<lparr>r_status := RefundSucceeded, r_completed_at := Some now\<rparr>"
  let ?d = "d\<lparr>refunds := update_where (\<lambda>x. r_provider_txn_id x = txn \<and> r_status x = RefundPending)
     (\<lambda>r. r\<lparr>r_status := RefundSucceeded, r_completed_at := Some now\<rparr>) (refunds d)\<rparr>"
  have f: "f \<in> set (refunds d)" "r_provider_txn_id f = txn" using row_by_SomeD[OF assms(2)] by auto
  have q: "q \<in> set (orders d)" "o_id q = r_order_id f" using row_by_SomeD[OF assms(4)] by auto
  have row: "row_by r_provider_txn_id txn (refunds ?d) = Some ?f"
    using assms(2,3) f(2) by (simp add: row_by_update_where)
  have c: "CompleteRefund now txn d = Inr (?d, ?f)"
    using f assms(3) row by (auto simp: CompleteRefund_def Let_def one_row_def RefundPending_def RefundSucceeded_def)
  show ?thesis
  proof (cases "r_reason f \<noteq> ReasonDoublePayment \<and> o_status q = StatusRefunding")
    case True
    let ?q = "q\<lparr>o_status := StatusRefunded, o_updated_at := now\<rparr>"
    let ?os = "update_where (\<lambda>x. o_id x = r_order_id f \<and> o_status x = StatusRefunding)
       (\<lambda>q. q\<lparr>o_status := StatusRefunded, o_updated_at := now\<rparr>) (orders d)"
    have os: "row_by o_id (r_order_id f) ?os = Some ?q" using assms(4) True q(2) by (simp add: row_by_update_where)
    have "transition now (r_order_id f) StatusRefunding StatusRefunded ?d = Inr (?d\<lparr>orders := ?os\<rparr>, ?q)"
      using q True os by (auto simp: transition_def TransitionOrder_def one_row_def CanTransition_def Let_def)
    then show ?thesis using True c row os assms(4)
      by (simp add: complete_tx_def tx_try_def GetOrderForUpdate_def one_row_def ListOrderSeats_def tx_read_def tx_bind_def)
  next
    case False
    then show ?thesis using c row assms(4)
      by (auto simp: complete_tx_def tx_try_def GetOrderForUpdate_def one_row_def ListOrderSeats_def tx_read_def tx_bind_def tx_return_def)
  qed
qed

lemma pending_refunding:
  assumes "ledger d" "f \<in> set (refunds d)" "r_status f = RefundPending" "r_reason f \<noteq> ReasonDoublePayment"
    and "row_by o_id (r_order_id f) (orders d) = Some q"
  shows "o_status q = StatusRefunding"
proof -
  have "order_refunds_ok q (refunds_of d (r_order_id f))"
    using assms(1) row_by_SomeD[OF assms(5)] by (auto simp: ledger_def orders_ok_def)
  moreover have "f \<in> set (filter (\<lambda>r. r_reason r \<noteq> ReasonDoublePayment) (refunds_of d (r_order_id f)))"
    using assms(2,4) by (simp add: refunds_of_def)
  ultimately have "RefundPending \<in> set (refund_states (o_status q))"
    using assms(3) unfolding order_refunds_ok_def by (metis image_eqI list.set_map)
  then show ?thesis by (cases "o_status q") (simp_all add: RefundPending_def RefundSucceeded_def)
qed

lemma run_bind_ret: "run fs w p = Some (w', a) \<Longrightarrow> k a = Ret b \<Longrightarrow> \<exists>hs. run hs w (bindp p k) = Some (w', b)"
proof -
  assume a: "run fs w p = Some (w', a)" and b: "k a = Ret b"
  obtain n where "run (take n fs @ []) w (bindp p k) = run [] w' (k a)" using run_bindI[OF a, of k] by blast
  then show ?thesis using b by auto
qed

lemma Process_pending:
  assumes "row_by r_provider_txn_id txn (refunds (pg w)) = Some f" "r_status f = RefundPending" "refund_unlocked txn w"
    and "run gs w (gw (r_order_id f) txn (r_amount_vnd f)) = Some (w, Inr ())"
    and "complete_tx txn (pg_now w) (pg w) = Inr (d', ())"
  shows "\<exists>fs. run fs w (Process gw txn) = Some (w\<lparr>pg := d'\<rparr>, Inr ())"
proof -
  define k :: "unit res \<Rightarrow> (world, unit res) prog" where
    "k = (\<lambda>x. case x of Inl e \<Rightarrow> Ret (Inl e) | Inr _ \<Rightarrow> begin_func (refund_unlocked txn) (complete_tx txn))"
  obtain n where n: "run (take n gs @ [Reply]) w (bindp (gw (r_order_id f) txn (r_amount_vnd f)) k) = run [Reply] w (k (Inr ()))"
    using run_bindI[OF assms(4)] by fast
  have "run [Reply] w (k (Inr ())) = Some (w\<lparr>pg := d'\<rparr>, Inr ())"
    using assms(3,5) by (simp add: k_def begin_func_def)
  then have "run (Reply # take n gs @ [Reply]) w (Process gw txn) = Some (w\<lparr>pg := d'\<rparr>, Inr ())"
    unfolding Process_def k_def[symmetric] begin_func_def[of "\<lambda>_. True"] using n assms(1,2)
    by (simp add: run_tx_def GetRefund_def one_row_def RefundSucceeded_def RefundPending_def)
  then show ?thesis by blast
qed

text \<open>C9: When the gateway accepts, handling the order.refund_requested record of a pending refund
  marks the refund as succeeded, and an order that was waiting for its money moves from REFUNDING
  to REFUNDED; a double payment leaves its order as it is.\<close>

theorem pending_refund_paid_back:
  assumes "ledger (pg w)" "row_by r_provider_txn_id txn (refunds (pg w)) = Some f" "r_status f = RefundPending" "txn \<noteq> ''''"
    and "order_unlocked (r_order_id f) w" "announces_refund i txn r"
    and "run gs w (gw (r_order_id f) txn (r_amount_vnd f)) = Some (w, Inr ())"
  shows "\<exists>fs w' q q'. run fs w (refund_Handler gw r) = Some (w', Inr ())
    \<and> row_by o_id (r_order_id f) (orders (pg w)) = Some q \<and> row_by o_id (r_order_id f) (orders (pg w')) = Some q'
    \<and> map_option r_status (row_by r_provider_txn_id txn (refunds (pg w'))) = Some RefundSucceeded
    \<and> o_status q' = (if r_reason f \<noteq> ReasonDoublePayment then StatusRefunded else o_status q)"
proof -
  have s: "schema (pg w)" using assms(1) by (simp add: ledger_def)
  have f: "f \<in> set (refunds (pg w))" "r_provider_txn_id f = txn" using row_by_SomeD[OF assms(2)] by auto
  then have "r_order_id f \<in> order_ids (pg w)" using s by (auto simp: schema_def schema_money_def)
  then obtain q where q: "row_by o_id (r_order_id f) (orders (pg w)) = Some q"
    using row_by_None_iff[of o_id "r_order_id f" "orders (pg w)"] by (auto simp: order_ids_def)
  have st: "o_status q = StatusRefunding" if "r_reason f \<noteq> ReasonDoublePayment"
    using pending_refunding[OF assms(1) f(1) assms(3) that q] .
  obtain d' q' where d': "complete_tx txn (pg_now w) (pg w) = Inr (d', ())"
     "row_by r_provider_txn_id txn (refunds d') = Some (f\<lparr>r_status := RefundSucceeded, r_completed_at := Some (pg_now w)\<rparr>)"
     "row_by o_id (r_order_id f) (orders d') = Some q'"
     "o_status q' = (if r_reason f \<noteq> ReasonDoublePayment \<and> o_status q = StatusRefunding then StatusRefunded else o_status q)"
    using complete_tx_pending[OF s assms(2,3) q] by blast
  have "refund_unlocked txn w" using assms(2,5) by (simp add: refund_unlocked_def)
  then obtain fs where "run fs w (Process gw txn) = Some (w\<lparr>pg := d'\<rparr>, Inr ())"
    using Process_pending[where gw = gw, OF assms(2,3) _ assms(7) d'(1)] by blast
  then obtain fs' where "run fs' w (refund_Handler gw r) = Some (w\<lparr>pg := d'\<rparr>, Inr ())"
    unfolding refund_Handler_requested[OF assms(6,4)] using run_bind_ret[where k = "case_sum f (\<lambda>x. Ret (Inr ()))" for f] by fastforce
  then show ?thesis using q d' st by (intro exI[of _ fs'] exI[of _ "w\<lparr>pg := d'\<rparr>"]) auto
qed

section \<open>Handling a record again\<close>

lemma issue_tx_again:
  assumes "row_by o_id i (orders d) = Some q" "o_status q \<noteq> StatusPaid" "issue_tx secret i now d = Inr (d', x)"
  shows "d' = d \<and> x = o_status q"
  using assms by (simp add: issue_tx_def tx_try_def GetOrderForUpdate_def one_row_def tx_return_def)

lemma ticket_again:
  assumes "row_by o_id i (orders (pg w)) = Some q" "o_status q \<noteq> StatusPaid" "announces_status StatusPaid i r"
    and "run fs w (ticket_Handler secret r) = Some (w', x)"
  shows "w' = w"
proof -
  obtain y where "run_tx (issue_tx secret i) w = (w, y)"
    using issue_tx_again[OF assms(1,2)] by (cases "issue_tx secret i (pg_now w) (pg w)") (auto simp: run_tx_def)
  then show ?thesis using assms(4) unfolding ticket_Handler_paid[OF assms(3)] Issue_def
    by (cases y) (auto simp: run_bind_begin_func tx_outcome_eq split: if_splits)
qed

lemma refund_again:
  assumes "row_by r_provider_txn_id txn (refunds (pg w)) = Some f" "r_status f = RefundSucceeded" "announces_refund j txn r"
    and "txn \<noteq> ''''" "run fs w (refund_Handler gw r) = Some (w', x)"
  shows "w' = w"
proof -
  have "run_tx (\<lambda>now. GetRefund txn) w = (w, Inr f)" using assms(1) by (simp add: run_tx_def GetRefund_def one_row_def)
  then show ?thesis using assms(5,2) unfolding refund_Handler_requested[OF assms(3,4)] Process_def bindp_assoc
    by (auto simp: run_bind_begin_func tx_outcome_eq split: if_splits)
qed

text \<open>C14: Each of the two handlers is idempotent. Handling the order.paid record of an order that is
  no longer PAID leaves the world as it is, whatever faults occur; so does, whatever state its order is in,
  handling the refund record of a refund that succeeded, and the gateway is not asked again.\<close>

theorem handled_again:
  "(row_by o_id i (orders (pg w)) = Some q \<and> o_status q \<noteq> StatusPaid \<and> announces_status StatusPaid i r
      \<longrightarrow> (\<forall>fs w' x. run fs w (ticket_Handler secret r) = Some (w', x) \<longrightarrow> w' = w))
    \<and> (row_by r_provider_txn_id txn (refunds (pg w)) = Some f \<and> r_status f = RefundSucceeded \<and> announces_refund j txn r' \<and> txn \<noteq> ''''
      \<longrightarrow> (\<forall>fs w' x. run fs w (refund_Handler gw r') = Some (w', x) \<longrightarrow> w' = w))"
  by (auto dest: ticket_again refund_again)

text \<open>C15: The offsets of a batch are committed only after every record of it was handled or failed for
  good. A round that commits went, from the state it started in, through the records in their order, each
  handled by a last attempt that ended without an error or with a permanent one, and started the commit in
  the state after the last of them. A round whose context ends is stopped at some record, after
  the earlier ones were handled, and commits nothing.\<close>

theorem committed_batch_settled:
  assumes "run fs w (consume_round commit left handle rs) = Some (w', res)"
  shows "case res of
      Some (l, b) \<Rightarrow> \<exists>w1 gs y. handled_in_turn handle rs w w1 \<and> run gs w1 commit = Some (w', y) \<and> b = (y = Inr ())
    | None \<Rightarrow> \<exists>rs1 r rs2 w1. rs = rs1 @ r # rs2 \<and> handled_in_turn handle rs1 w w1 \<and> failed_attempts handle r w1 w'"
proof -
  obtain fs1 fs2 w1 x where x: "run fs1 w (consume_records left handle rs) = Some (w1, x)"
    and k: "run fs2 w1 (case x of None \<Rightarrow> Ret None | Some left \<Rightarrow> bindp commit (\<lambda>y. Ret (Some (left, y = Inr ()))))
      = Some (w', res)"
    using assms(1) unfolding consume_round_def by (rule run_bindE)
  show ?thesis
  proof (cases x)
    case None
    then show ?thesis using k consume_in_turn[OF x] by auto
  next
    case (Some l)
    then obtain gs hs w2 y where "run gs w1 commit = Some (w2, y)" "run hs w2 (Ret (Some (l, y = Inr ()))) = Some (w', res)"
      using k by (auto elim: run_bindE)
    then show ?thesis using Some consume_in_turn[OF x] by (auto intro!: exI[of _ w1] exI[of _ gs] exI[of _ y])
  qed
qed

end
