(* ===== verification/Notifier.thy ===== *)
theory Notifier
  imports Consumer Money
begin

text \<open>
  The notifier, \<open>internal/notifier/notifier.go\<close>: a consumer of \<open>ticket.issued\<close> and
  \<open>order.refunded\<close> that tells the buyer and remembers in Redis what it told. Texts are the
  UTF-8 bytes of the source. The HTTP client of the Telegram sender is a parameter that maps
  the URL and body of a request to what came of it. The state is Redis and the messages that
  were delivered.

  The lemmas show that an event counts as told only after its message was delivered, that a
  record handled without an error was delivered now or marked before, and that
  what is marked is not told again.
\<close>

record notifier_world =
  nt_rd :: redis
  nt_sent :: "string list"

definition n_redis :: "(redis \<Rightarrow> redis \<times> 'a res) \<Rightarrow> (notifier_world, 'a res) prog" where
  "n_redis f = call (\<lambda>s. (s\<lparr>nt_rd := fst (f (nt_rd s))\<rparr>, snd (f (nt_rd s))))"

section \<open>What is remembered\<close>

definition seenTTL :: duration where
  "seenTTL = 7 * 24 * 3600 * 1000000000"

definition seenKey :: "string \<Rightarrow> string" where
  "seenKey key = ''notified:'' @ key"

definition Seen :: "string \<Rightarrow> (notifier_world, bool res) prog" where
  "Seen key = n_redis (\<lambda>r. (r, Inr (redis_get r (seenKey key) \<noteq> None)))"

definition Mark :: "string \<Rightarrow> (notifier_world, unit res) prog" where
  "Mark key = n_redis (\<lambda>r. (redis_set_px (seenKey key) ''1'' (go_div seenTTL 1000000) r, Inr ()))"

definition DedupeKey :: "order_event \<Rightarrow> string" where
  "DedupeKey ev =
    (let key = ev_event_type ev @ '':'' @ ev_order_id ev in
     if ev_provider_txn_id ev \<noteq> '''' then key @ '':'' @ ev_provider_txn_id ev else key)"

section \<open>Messages\<close>

fun join :: "string list \<Rightarrow> string \<Rightarrow> string" where
  "join [] sep = ''''"
| "join [s] sep = s"
| "join (s # t # ss) sep = s @ sep @ join (t # ss) sep"

definition money_FormatVND :: "int \<Rightarrow> string" where
  "money_FormatVND n = FormatVND (word_of_int n)"

definition Message :: "order_event \<Rightarrow> string" where
  "Message ev =
    (if ev_event_type ev = TicketIssued
     then [CHR 0xC4, CHR 0x90, CHR 0xC3, CHR 0xA3] @ '' xu'' @ [CHR 0xE1, CHR 0xBA, CHR 0xA5] @ ''t ''
       @ format_int (int (length (ev_seat_ids ev)))
       @ '' v'' @ [CHR 0xC3, CHR 0xA9] @ '' cho '' @ [CHR 0xC4, CHR 0x91, CHR 0xC6, CHR 0xA1] @ ''n '' @ ev_order_id ev
       @ '' (s'' @ [CHR 0xE1, CHR 0xBB, CHR 0xB1] @ '' ki'' @ [CHR 0xE1, CHR 0xBB, CHR 0x87] @ ''n '' @ format_int (ev_event ev)
       @ ''): '' @ join (ev_seat_ids ev) '', ''
       @ ''. T'' @ [CHR 0xE1, CHR 0xBB, CHR 0x95] @ ''ng '' @ money_FormatVND (ev_total_vnd ev)
       @ '' '' @ [CHR 0xC4, CHR 0x91] @ ''.''
     else if ev_event_type ev = OrderRefunded
     then [CHR 0xC4, CHR 0x90, CHR 0xC3, CHR 0xA3] @ '' ho'' @ [CHR 0xC3, CHR 0xA0] @ ''n '' @ money_FormatVND (ev_amount_vnd ev)
       @ '' '' @ [CHR 0xC4, CHR 0x91] @ '' cho '' @ [CHR 0xC4, CHR 0x91, CHR 0xC6, CHR 0xA1] @ ''n '' @ ev_order_id ev
       @ '' (giao d'' @ [CHR 0xE1, CHR 0xBB, CHR 0x8B] @ ''ch '' @ ev_provider_txn_id ev
       @ '', l'' @ [CHR 0xC3, CHR 0xBD] @ '' do '' @ ev_reason ev @ '').''
     else '''')"

section \<open>Senders\<close>

text \<open>What comes of a request: it cannot be built, the transport fails, or a status is answered.\<close>

datatype transport_error = UrlError string string | OtherError string
datatype http_result = BuildError | TransportError transport_error | Answered int

record Telegram =
  tg_baseURL :: string
  tg_token :: string
  tg_chatID :: string

text \<open>\<open>url.QueryEscape\<close> and the encoding of the form, whose keys are sorted.\<close>

definition unreserved :: "char \<Rightarrow> bool" where
  "unreserved c \<longleftrightarrow> (let n = (of_char c :: nat) in 48 \<le> n \<and> n \<le> 57 \<or> 65 \<le> n \<and> n \<le> 90 \<or> 97 \<le> n \<and> n \<le> 122
     \<or> c \<in> {CHR ''-'', CHR ''_'', CHR ''.'', CHR ''~''})"

definition upper_hex :: "nat \<Rightarrow> char" where
  "upper_hex n = (if n < 10 then char_of (48 + n) else char_of (55 + n))"

definition QueryEscape :: "string \<Rightarrow> string" where
  "QueryEscape s = concat (map (\<lambda>c. if unreserved c then [c] else if c = CHR '' '' then ''+''
     else [CHR ''%'', upper_hex (of_char c div 16), upper_hex (of_char c mod 16)]) s)"

definition Telegram_Send :: "(string \<Rightarrow> string \<Rightarrow> http_result) \<Rightarrow> Telegram \<Rightarrow> string \<Rightarrow> unit res" where
  "Telegram_Send do tg msg =
    (case do (tg_baseURL tg @ ''/bot'' @ tg_token tg @ ''/sendMessage'')
            (''chat_id='' @ QueryEscape (tg_chatID tg) @ ''&text='' @ QueryEscape msg) of
       BuildError \<Rightarrow> Inl [Opaque ''telegram: build request failed'']
     | TransportError (UrlError u e) \<Rightarrow> Inl [Opaque (''telegram send: '' @ e)]
     | TransportError (OtherError e) \<Rightarrow> Inl [Opaque (''telegram send: '' @ e)]
     | Answered status \<Rightarrow>
         if status \<noteq> 200 then Inl [Opaque (''telegram send: status '' @ format_int status)] else Inr ())"

datatype Sender = LogSender | TelegramSender "string \<Rightarrow> string \<Rightarrow> http_result" Telegram

fun Send :: "Sender \<Rightarrow> string \<Rightarrow> (notifier_world, unit res) prog" where
  "Send LogSender msg = local_step (\<lambda>s. (s\<lparr>nt_sent := nt_sent s @ [msg]\<rparr>, Inr ()))"
| "Send (TelegramSender do tg) msg = call (\<lambda>s. case Telegram_Send do tg msg of
     Inl e \<Rightarrow> (s, Inl e)
   | Inr _ \<Rightarrow> (s\<lparr>nt_sent := nt_sent s @ [msg]\<rparr>, Inr ()))"

section \<open>The notifier\<close>

definition Notify :: "Sender \<Rightarrow> order_event \<Rightarrow> (notifier_world, unit res) prog" where
  "Notify sender ev =
    (let key = DedupeKey ev in
     bindp (Seen key) (\<lambda>a. case a of
       Inl e \<Rightarrow> Ret (Inl e)
     | Inr seen \<Rightarrow>
         if seen then Ret (Inr ())
         else let msg = Message ev in
           if msg = '''' then Ret (Inr ())
           else bindp (Send sender msg) (\<lambda>b. case b of
               Inl e \<Rightarrow> Ret (Inl e)
             | Inr _ \<Rightarrow> bindp (Mark key) (\<lambda>_. Ret (Inr ())))))"

definition notifier_Handler :: "Sender \<Rightarrow> notifier_world record_handler" where
  "notifier_Handler sender = events_Handler (Notify sender) [TicketIssued, OrderRefunded]"

section \<open>Told and remembered\<close>

definition seen :: "string \<Rightarrow> notifier_world \<Rightarrow> bool" where
  "seen key s \<longleftrightarrow> redis_get (nt_rd s) (seenKey key) \<noteq> None"

lemma Message_empty: "Message ev = [] \<longleftrightarrow> ev_event_type ev \<notin> {TicketIssued, OrderRefunded}"
  by (auto simp: Message_def)

lemma yields_Seen: "yields (Seen key) s (\<lambda>s' r. s' = s \<and> (r = Inl infra_error \<or> r = Inr (seen key s)))"
  unfolding Seen_def n_redis_def by (rule yields_mono[OF yields_call]) (auto simp: seen_def)

lemma yields_Mark:
  "yields (Mark key) s (\<lambda>s' r. nt_sent s' = nt_sent s \<and> (\<forall>k. seen k s' \<longrightarrow> seen k s \<or> k = key)
    \<and> (r = Inr () \<longrightarrow> seen key s'))"
  unfolding Mark_def n_redis_def
  by (rule yields_mono[OF yields_call])
    (auto simp: seen_def seenKey_def seenTTL_def go_div_nonneg split: if_splits)

lemma yields_Send:
  "yields (Send sender msg) s (\<lambda>s' r. nt_rd s' = nt_rd s
    \<and> (if r = Inr () then nt_sent s' = nt_sent s @ [msg] else nt_sent s' \<in> {nt_sent s, nt_sent s @ [msg]}))"
proof (cases sender)
  case LogSender
  then show ?thesis unfolding LogSender Send.simps by (intro yields_mono[OF yields_local]) auto
next
  case (TelegramSender do tg)
  then show ?thesis unfolding TelegramSender Send.simps
    by (intro yields_mono[OF yields_call]) (auto split: sum.splits)
qed

text \<open>
  What a notification leaves behind, by its outcome: told now, told before, or not known to be
  told and then not marked.
\<close>

definition notified :: "order_event \<Rightarrow> notifier_world \<Rightarrow> notifier_world \<Rightarrow> unit res \<Rightarrow> bool" where
  "notified ev s s' x \<longleftrightarrow>
    (if x = Inr () then (if seen (DedupeKey ev) s then s' = s else nt_sent s' = nt_sent s @ [Message ev])
     else nt_rd s' = nt_rd s \<and> nt_sent s' \<in> {nt_sent s, nt_sent s @ [Message ev]})
    \<and> (\<forall>k. seen k s' \<longrightarrow> seen k s \<or> k = DedupeKey ev \<and> nt_sent s' = nt_sent s @ [Message ev])"

lemma Notify_told:
  assumes "Message ev \<noteq> []"
  shows "yields (Notify sender ev) s (notified ev s)"
  unfolding Notify_def Let_def
proof (rule yields_bind[OF yields_Seen], goal_cases)
  case (1 s1 a)
  then have s1: "s1 = s" by simp
  show ?case
  proof (cases "a = Inr False")
    case False
    then show ?thesis using 1 by (auto simp: notified_def split: sum.split)
  next
    case True
    then have new: "\<not> seen (DedupeKey ev) s" using 1 by simp
    have "yields (bindp (Mark (DedupeKey ev)) (\<lambda>_. Ret (Inr ()))) s2 (notified ev s)"
      if "nt_rd s2 = nt_rd s" "nt_sent s2 = nt_sent s @ [Message ev]" for s2
      by (rule yields_bind[OF yields_Mark]) (use that new in \<open>auto simp: notified_def seen_def\<close>)
    then show ?thesis unfolding True s1 using assms
      by (auto intro!: yields_bind[OF yields_Send] simp: notified_def seen_def split: sum.split if_splits)
  qed
qed

text \<open>
  C40. Buyers are told: when the handler of a \<open>ticket.issued\<close> or \<open>order.refunded\<close> record
  returns without an error, whatever faults it met, then either the event was marked as told
  before and nothing changes, or its message has now been delivered. When it
  returns an error nothing has been marked, so that the record is tried again. No mark is ever set
  for an event whose message was not delivered.
\<close>

theorem buyer_told:
  assumes "k_value r = Some ev" "ev_event_type ev \<in> {TicketIssued, OrderRefunded}"
    and "Header (k_headers r) HeaderEventType \<in> {[], ev_event_type ev}"
    and "run fs s (notifier_Handler sender r) = Some (s', x)"
  shows "(if x = Inr () then (if seen (DedupeKey ev) s then s' = s else nt_sent s' = nt_sent s @ [Message ev])
      else nt_rd s' = nt_rd s \<and> nt_sent s' \<in> {nt_sent s, nt_sent s @ [Message ev]})
    \<and> (\<forall>k. seen k s' \<longrightarrow> seen k s \<or> k = DedupeKey ev \<and> nt_sent s' = nt_sent s @ [Message ev])"
proof -
  have "run fs s (Notify sender ev) = Some (s', x)"
    using assms by (auto simp: notifier_Handler_def events_Handler_def Let_def)
  then show ?thesis using yieldsD[OF Notify_told[of ev sender]] Message_empty[of ev] assms(2) unfolding notified_def by blast
qed

definition issued_event :: order_event where
  "issued_event = \<lparr>ev_event_id = 3, ev_event_type = TicketIssued, ev_occurred_at = 0, ev_order_id = ''q'', ev_event = 1,
     ev_user_id = 7, ev_seat_ids = [''A1'', ''A2''], ev_total_vnd = 7000000, ev_provider_txn_id = [], ev_amount_vnd = 0,
     ev_reason = []\<rparr>"

definition nobody_told :: notifier_world where
  "nobody_told = \<lparr>nt_rd = empty_redis 0, nt_sent = []\<rparr>"

lemma issued_message: "Message issued_event \<noteq> []"
  by (simp add: Message_empty issued_event_def)

lemma nobody_seen: "\<not> seen key nobody_told"
  by (simp add: seen_def nobody_told_def empty_redis_def redis_get_def)

lemma issued_run: "\<exists>s'. run [Reply, Reply, Reply] nobody_told (Notify LogSender issued_event) = Some (s', Inr ())"
  using nobody_seen[of "DedupeKey issued_event"] issued_message
  by (simp add: Notify_def Seen_def Mark_def n_redis_def seen_def Let_def)

abbreviation issued_record :: kafka_record where
  "issued_record \<equiv> \<lparr>k_topic = TopicTickets, k_key = ''q'', k_value = Some issued_event, k_headers = [(HeaderEventType, TicketIssued)]\<rparr>"

theorem buyer_told_witness:
  "\<exists>s'. run [Reply, Reply, Reply] nobody_told (notifier_Handler LogSender issued_record) = Some (s', Inr ())
    \<and> nt_sent s' = [Message issued_event]"
proof -
  obtain s' where "run [Reply, Reply, Reply] nobody_told (Notify LogSender issued_event) = Some (s', Inr ())"
    using issued_run by blast
  then have r: "run [Reply, Reply, Reply] nobody_told (notifier_Handler LogSender issued_record) = Some (s', Inr ())"
    by (simp add: notifier_Handler_def events_Handler_def issued_event_def Let_def)
  from buyer_told[OF _ _ _ r, of issued_event] have "nt_sent s' = nt_sent nobody_told @ [Message issued_event]"
    using nobody_seen by (simp add: issued_event_def)
  then show ?thesis using r by (simp add: nobody_told_def)
qed

section \<open>Not told twice\<close>

text \<open>The key determines the event type, the order and the payment: neither type nor order id has a colon.\<close>

lemma suffix_eq:
  assumes "c \<notin> set x" "c \<notin> set y"
    and "x @ (if u = [] then [] else c # u) = y @ (if v = [] then [] else c # v)"
  shows "x = y \<and> u = v"
proof -
  have cut: "takeWhile (\<lambda>z. z \<noteq> c) (x @ (if u = [] then [] else c # u)) = x" if "c \<notin> set x" for x u
    using that by (subst takeWhile_append2) auto
  have "x = y" using arg_cong[OF assms(3), of "takeWhile (\<lambda>z. z \<noteq> c)"] unfolding cut[OF assms(1)] cut[OF assms(2)] .
  then show ?thesis using assms(3) by (cases "u = []"; cases "v = []") simp_all
qed

lemma DedupeKey_eq:
  assumes "CHR '':'' \<notin> set (ev_event_type a @ ev_order_id a @ ev_event_type b @ ev_order_id b)"
  shows "DedupeKey a = DedupeKey b \<longleftrightarrow> (ev_event_type a, ev_order_id a, ev_provider_txn_id a)
    = (ev_event_type b, ev_order_id b, ev_provider_txn_id b)"
proof
  have key: "DedupeKey ev = ev_event_type ev @ CHR '':''
      # (ev_order_id ev @ (if ev_provider_txn_id ev = [] then [] else CHR '':'' # ev_provider_txn_id ev))" for ev
    by (simp add: DedupeKey_def Let_def)
  assume "DedupeKey a = DedupeKey b"
  from append_sep_inject[OF _ _ this[unfolded key]] assms
  have t: "ev_event_type a = ev_event_type b" and "ev_order_id a @ (if ev_provider_txn_id a = [] then [] else CHR '':'' # ev_provider_txn_id a)
    = ev_order_id b @ (if ev_provider_txn_id b = [] then [] else CHR '':'' # ev_provider_txn_id b)" by simp_all
  from t suffix_eq[OF _ _ this(2)] assms
  show "(ev_event_type a, ev_order_id a, ev_provider_txn_id a) = (ev_event_type b, ev_order_id b, ev_provider_txn_id b)" by simp
qed (simp add: DedupeKey_def Let_def)

lemma Notify_seen:
  assumes "seen (DedupeKey ev) s"
  shows "yields (Notify sender ev) s (\<lambda>s' r. s' = s)"
  unfolding Notify_def Let_def by (rule yields_bind[OF yields_Seen]) (use assms in \<open>auto split: sum.split\<close>)

lemma run_Send_Reply:
  "run (Reply # fs) s (bindp (Send sender msg) k) = Some (s', x) \<Longrightarrow>
    (\<exists>e. run fs s (k (Inl e)) = Some (s', x)) \<or> run fs (s\<lparr>nt_sent := nt_sent s @ [msg]\<rparr>) (k (Inr ())) = Some (s', x)"
  by (cases sender) (auto split: sum.splits)

text \<open>
  Buyers are told once: after a notification whose three commands were answered, one
  message was delivered, and every redelivery of an event about the same tickets or the same
  refunded payment changes nothing, whatever faults it meets. Events about anything else
  count as told only if they did before.
\<close>

theorem told_once:
  assumes "\<not> seen (DedupeKey ev) s" "Message ev \<noteq> []"
    and "run [Reply, Reply, Reply] s (Notify sender ev) = Some (s1, Inr ())"
    and "CHR '':'' \<notin> set (ev_event_type ev @ ev_order_id ev @ ev_event_type ev' @ ev_order_id ev')"
    and "run fs s1 (Notify sender' ev') = Some (s2, x)"
  shows "nt_sent s1 = nt_sent s @ [Message ev]
    \<and> (if (ev_event_type ev, ev_order_id ev, ev_provider_txn_id ev) = (ev_event_type ev', ev_order_id ev', ev_provider_txn_id ev')
       then s2 = s1 else seen (DedupeKey ev') s1 = seen (DedupeKey ev') s)"
proof -
  have "run [Reply, Reply] s (bindp (Send sender (Message ev)) (\<lambda>b. case b of
      Inl e \<Rightarrow> Ret (Inl e) | Inr _ \<Rightarrow> bindp (Mark (DedupeKey ev)) (\<lambda>_. Ret (Inr ())))) = Some (s1, Inr ())"
    using assms(1-3) by (simp add: Notify_def Seen_def n_redis_def seen_def Let_def)
  from run_Send_Reply[OF this]
  have s1: "s1 = s\<lparr>nt_sent := nt_sent s @ [Message ev],
      nt_rd := redis_set_px (seenKey (DedupeKey ev)) ''1'' (go_div seenTTL 1000000) (nt_rd s)\<rparr>"
    by (auto simp: Mark_def n_redis_def)
  then have k: "seen key s1 \<longleftrightarrow> key = DedupeKey ev \<or> seen key s" for key
    by (auto simp: seen_def seenKey_def seenTTL_def go_div_nonneg)
  have sent: "nt_sent s1 = nt_sent s @ [Message ev]" by (simp add: s1)
  show ?thesis
  proof (cases "DedupeKey ev = DedupeKey ev'")
    case True
    then have "seen (DedupeKey ev') s1" using k by simp
    from yieldsD[OF Notify_seen[OF this] assms(5)] show ?thesis using sent True DedupeKey_eq[OF assms(4)] by simp
  next
    case False
    then show ?thesis using sent k[of "DedupeKey ev'"] DedupeKey_eq[OF assms(4)] by (simp only: if_False) simp
  qed
qed

theorem told_once_witness:
  "\<exists>s1. nt_sent s1 = [Message issued_event]
    \<and> (\<exists>x. run [Reply, Reply, Reply] s1 (Notify LogSender (issued_event\<lparr>ev_event_id := 9\<rparr>)) = Some (s1, x))"
proof -
  obtain s1 where r: "run [Reply, Reply, Reply] nobody_told (Notify LogSender issued_event) = Some (s1, Inr ())"
    using issued_run by blast
  have c: "CHR '':'' \<notin> set (ev_event_type issued_event @ ev_order_id issued_event
      @ ev_event_type (issued_event\<lparr>ev_event_id := 9\<rparr>) @ ev_order_id (issued_event\<lparr>ev_event_id := 9\<rparr>))"
    by (simp add: issued_event_def TicketIssued_def)
  have "\<exists>s2 x. run [Reply, Reply, Reply] s1 (Notify LogSender (issued_event\<lparr>ev_event_id := 9\<rparr>)) = Some (s2, x)"
    by (simp add: Notify_def Seen_def Mark_def n_redis_def Let_def)
  then obtain s2 x where r2: "run [Reply, Reply, Reply] s1 (Notify LogSender (issued_event\<lparr>ev_event_id := 9\<rparr>)) = Some (s2, x)" by blast
  have "nt_sent s1 = [Message issued_event]" "s2 = s1"
    using told_once[OF nobody_seen issued_message r c r2] by (simp_all add: nobody_told_def issued_event_def)
  then show ?thesis using r2 by blast
qed

end
