(* ===== verification/Deployment.thy ===== *)
theory Deployment
  imports Scenario Booking_API Waiting_Room Notifier
begin

text \<open>
  The processes of a deployment, wired from the configuration as the \<open>run\<close> functions under \<open>cmd/\<close>
  do it: booking, the waiting room and its admission worker, the expirer, the relay, the
  consumers that issue tickets, pay refunds back and notify buyers, the fake gateway and the
  command that seeds an event. A deployment runs any number of them at once on one PostgreSQL,
  Redis and Kafka; each booking process has its own caches and each stream what it has sent.

  The lemmas lift the guarantees of the handlers to the HTTP routes and the consumers: whatever
  requests arrive and whatever fails, the books of the sale stay in order. They also show that
  processes configured from one environment agree on the secrets and URLs they share.
\<close>

section \<open>Wiring (cmd/*/main.go)\<close>

definition inventory_New :: "string \<Rightarrow> inventory res" where
  "inventory_New backend =
    (if backend = ''pg'' then Inr NewPG
     else if backend = ''redis'' then Inr NewRedis
     else Inl [Opaque ''unknown inventory backend''])"

text \<open>Booking; \<open>n\<close> names the process, \<open>http\<close> is the transport to the gateway.\<close>

definition booking_deps ::
  "api_world http_post \<Rightarrow> (string \<Rightarrow> string option) \<Rightarrow> nat \<Rightarrow> Config \<Rightarrow> apiDeps res" where
  "booking_deps http dec n c = (case inventory_New (InventoryBackend c) of
     Inl e \<Rightarrow> Inl e
   | Inr iv \<Rightarrow> Inr
      \<lparr>ad_tokens = \<lparr>tk_secret = JWTSecret c, tk_ttl = AccessTokenTTL\<rparr>,
       ad_orders = \<lparr>svc_process = n, svc_inv = iv, svc_holdTTL = HoldTTL c, svc_holdGrace = HoldGrace c,
         svc_admissions = (if RequireAdmissionSet c then Some (AdmissionTTL c) else None)\<rparr>,
       ad_payments = Some (Client_CreatePayment http dec (FakepayURL c)),
       ad_webhookSecret = WebhookSecret c,
       ad_callbackURL = PublicBaseURL c @ ''/v1/webhooks/fakepay'',
       ad_devLogin = IsDev c,
       ad_admissions = (if RequireAdmissionSet c then Some \<lparr>at_secret = AdmissionSecret c, at_ttl = AdmissionTTL c\<rparr> else None)\<rparr>)"

text \<open>The admission worker: \<open>jti\<close> gives the token ids of a tick. A failed tick is logged.\<close>

definition worker_tick ::
  "jwt_sign \<Rightarrow> (nat \<Rightarrow> uuid option) \<Rightarrow> time \<Rightarrow> (string \<Rightarrow> uuid option) \<Rightarrow> string \<Rightarrow> Config
    \<Rightarrow> (world, int \<times> goerror option) prog" where
  "worker_tick sign jti now uuid_parse inst c =
    (let admissions = \<lparr>at_secret = AdmissionSecret c, at_ttl = AdmissionTTL c\<rparr> in
     Tick (\<lambda>i uid eid qid. map_sum (\<lambda>e. e) fst (Admission_Issue sign admissions now (jti i) uid eid qid))
      (at_ttl admissions) uuid_parse (AdmitBatch c) inst)"

primrec worker_Run :: "(nat \<Rightarrow> (world, int \<times> goerror option) prog) \<Rightarrow> nat \<Rightarrow> (world, unit) prog" where
  "worker_Run tick 0 = bindp (tick 0) (\<lambda>_. Ret ())"
| "worker_Run tick (Suc ticks) = bindp (tick (Suc ticks)) (\<lambda>_. worker_Run tick ticks)"

text \<open>The refunder's gateway and the notifier's sender.\<close>

definition refund_gateway :: "world http_post \<Rightarrow> (string \<Rightarrow> string option) \<Rightarrow> Config \<Rightarrow> gateway" where
  "refund_gateway http dec c oid txn amount =
    Client_Refund http dec (FakepayURL c) \<lparr>rr_order_id = oid, rr_provider_txn_id = txn, rr_amount_vnd = amount\<rparr>"

definition TelegramAPI :: string where "TelegramAPI = ''https://api.telegram.org''"

definition notifier_sender :: "(string \<Rightarrow> string \<Rightarrow> http_result) \<Rightarrow> Config \<Rightarrow> Sender" where
  "notifier_sender client c =
    (if TelegramBotToken c \<noteq> ''''
     then TelegramSender client \<lparr>tg_baseURL = TelegramAPI, tg_token = TelegramBotToken c, tg_chatID = TelegramChatID c\<rparr>
     else LogSender)"

definition fakepay_config :: "Fakepay \<Rightarrow> gateway_config" where
  "fakepay_config f = \<lparr>gc_WebhookSecret = fk_WebhookSecret f, gc_PublicURL = fk_PublicURL f, gc_DelayMin = fk_DelayMin f,
     gc_DelayMax = fk_DelayMax f, gc_DuplicateRate = fk_DuplicateRate f, gc_LateRate = fk_LateRate f,
     gc_LateExtra = fk_LateExtra f, gc_FailRate = fk_FailRate f, gc_MaxResends = 0, gc_RetryBase = 0,
     gc_CallbackPrefix = fk_CallbackPrefix f\<rparr>"

section \<open>Seeding (cmd/seed, seed.go)\<close>

definition DemoEvent :: EventSpec where
  "DemoEvent = \<lparr>sp_name = ''TicketRush Live 2026'',
     sp_venue = ''S'' @ [CHR 0xC3, CHR 0xA2] @ ''n v'' @ [CHR 0xE1, CHR 0xBA, CHR 0xAD] @ ''n ''
       @ [CHR 0xC4, CHR 0x91, CHR 0xE1, CHR 0xBB, CHR 0x99] @ ''ng M'' @ [CHR 0xE1, CHR 0xBB, CHR 0xB9] @ '' ''
       @ [CHR 0xC4, CHR 0x90, CHR 0xC3, CHR 0xAC] @ ''nh'',
     sp_starts_in = 30 * 24 * 3600 * second, sp_sale_opens_in = 0, sp_max_seats_per_order = 4,
     sp_zones = [\<lparr>zl_zone = ''VIP'', zl_rows = 10, zl_seats_per_row = 50, zl_price_vnd = 3500000\<rparr>,
       \<lparr>zl_zone = ''CAT1'', zl_rows = 15, zl_seats_per_row = 100, zl_price_vnd = 2000000\<rparr>,
       \<lparr>zl_zone = ''CAT2'', zl_rows = 20, zl_seats_per_row = 150, zl_price_vnd = 1000000\<rparr>]\<rparr>"

text \<open>
  The command: \<open>flags\<close> is the parser of the command line, which overrides fields of the demo
  event; \<open>new\<close> is the id the sequence gives.
\<close>

definition seed_command ::
  "(EventSpec \<Rightarrow> EventSpec res) \<Rightarrow> (string \<Rightarrow> string option) \<Rightarrow> int \<Rightarrow> (world, unit res) prog" where
  "seed_command flags look new = (case flags DemoEvent of
     Inl e \<Rightarrow> Ret (Inl e)
   | Inr spec \<Rightarrow>
       if sp_sale_opens_in spec < 0 \<or> sp_starts_in spec \<le> sp_sale_opens_in spec
       then Ret (Inl [Opaque ''need 0 <= -sale-opens-in < -starts-in''])
       else if look ''DATABASE_URL'' \<in> {None, Some ''''} then Ret (Inl [Opaque ''DATABASE_URL is required''])
       else bindp (Seed new spec) (\<lambda>x. Ret (map_sum (\<lambda>e. e) (\<lambda>_. ()) x)))"

text \<open>The demo event has the 5,000 seats its comment promises.\<close>

lemma demo_event_seats: "length (Seats DemoEvent) = 5000"
  by (simp add: Seats_def DemoEvent_def zone_layout_seats_def length_concat comp_def sum_list_triv)

section \<open>What the routes guarantee\<close>

text \<open>
  On the state of a process a step is safe when it is safe on the world. The calls to the gateway
  do not touch the state of the sale.
\<close>

definition on_api :: "(uuid \<Rightarrow> string) \<Rightarrow> api_world \<Rightarrow> api_world \<Rightarrow> bool" where
  "on_api qr s s' \<longleftrightarrow> on_pg (safe qr) (aw_world s) (aw_world s')"

definition outside :: "'w http_post \<Rightarrow> bool" where
  "outside http \<longleftrightarrow> (\<forall>url body. guar (\<lambda>w w'. w' = w) (http url body))"

lemma guar_zoom:
  "guar R p \<Longrightarrow> (\<And>w s. part (set_part w s) = w) \<Longrightarrow> guar (\<lambda>s s'. R (part s) (part s')) (zoom part set_part p)"
  by (induction p) auto

lemma on_pg_same [simp]: "on_pg (safe qr) w w"
  by (simp add: on_pg_def reflpD[OF reflp_safe])

lemma on_api_world: "guar (on_pg (safe qr)) p \<Longrightarrow> guar (on_api qr) (in_world p)"
  unfolding on_api_def[abs_def] by (erule guar_zoom) simp

lemma on_api_same: "guar (\<lambda>w w'. w' = w) p \<Longrightarrow> guar (on_api qr) p"
  by (erule guar_mono) (simp add: on_api_def)

lemma on_api_local: "(\<And>s. aw_world (fst (op s)) = aw_world s) \<Longrightarrow> guar (on_api qr) (local_step op)"
  by (rule guar_local) (simp add: on_api_def)

text \<open>The handlers that use the inventory, on either backend.\<close>

lemma safe_clients:
  assumes "svc_inv s \<in> {NewPG, NewRedis}"
  shows "guar (on_pg (safe qr)) (Create s uid key req token new)"
    and "guar (on_pg (safe qr)) (CreateAdmitted s uid key req adm token new)"
    and "guar (on_pg (safe qr)) (Cancel s uid oid)" and "guar (on_pg (safe qr)) (ApplyPayment s gen p)"
    and "guar (on_pg (safe qr)) (SeatMap (svc_inv s) n eid)" and "guar (on_pg (safe qr)) (expiry_RunOnce (svc_inv s))"
proof -
  consider "svc_inv s = NewPG" | "svc_inv s = NewRedis" using assms by blast
  note c = this
  show "guar (on_pg (safe qr)) (Create s uid key req token new)"
    by (cases rule: c) (rule pg_inv.safe_Create redis_inv.safe_Create, assumption)+
  show "guar (on_pg (safe qr)) (CreateAdmitted s uid key req adm token new)"
    by (cases rule: c) (rule pg_inv.safe_CreateAdmitted redis_inv.safe_CreateAdmitted, assumption)+
  show "guar (on_pg (safe qr)) (Cancel s uid oid)"
    by (cases rule: c) (rule pg_inv.safe_Cancel redis_inv.safe_Cancel, assumption)+
  show "guar (on_pg (safe qr)) (ApplyPayment s gen p)"
    by (cases rule: c) (rule pg_inv.safe_ApplyPayment redis_inv.safe_ApplyPayment, assumption)+
  show "guar (on_pg (safe qr)) (SeatMap (svc_inv s) n eid)"
    using assms pg_inv.safe_SeatMap[of qr n eid] redis_inv.safe_SeatMap[of qr n eid] safe_SeatMapVersion
    by (auto simp: NewPG_def NewRedis_def)
  show "guar (on_pg (safe qr)) (expiry_RunOnce (svc_inv s))"
    using assms pg_inv.safe_expiry redis_inv.safe_expiry by auto
qed

lemma guar_RequireUser: "(\<And>c. guar R (h c r)) \<Longrightarrow> guar R (RequireUser parse tokens now h c r)"
  unfolding RequireUser_def Let_def by (intro guar_intros)

lemma guar_RequireAdmission: "(\<And>c. guar R (h c r)) \<Longrightarrow> guar R (RequireAdmission parse uuid_parse tokens now h c r)"
  unfolding RequireAdmission_def Let_def by (intro guar_intros)

lemma route_login: "guar (on_api qr) (handleDevLogin lib d c r)"
  unfolding handleDevLogin_def EnsureUser_def clock_def
  by (intro guar_intros on_api_local guar_call) (auto simp: on_api_def reflp_def)

lemma route_event: "guar (on_api qr) (handleGetEvent d c r)"
  unfolding handleGetEvent_def by (intro guar_intros on_api_world guar_Event reflp_safe)

lemma route_seats:
  assumes "svc_inv (ad_orders d) \<in> {NewPG, NewRedis}"
  shows "guar (on_api qr) (handleGetSeats lib d c r)"
  unfolding handleGetSeats_def seatMaps_get_def renderSeatMap_def
  by (intro guar_intros on_api_world on_api_local safe_clients(5)[OF assms]) (simp_all add: Let_def)

lemma route_webhook:
  assumes "svc_inv (ad_orders d) \<in> {NewPG, NewRedis}"
  shows "guar (on_api qr) (handleWebhook lib d c r)"
  unfolding handleWebhook_def Let_def by (intro guar_intros on_api_world safe_clients(4)[OF assms])

definition links_outside :: "apiDeps \<Rightarrow> bool" where
  "links_outside d \<longleftrightarrow> (\<forall>gw req. ad_payments d = Some gw \<longrightarrow> guar (\<lambda>w w'. w' = w) (gw req))"

lemma route_paymentURL: "links_outside d \<Longrightarrow> guar (on_api qr) (paymentURL lib d q)"
  unfolding paymentURL_def links_outside_def by (auto intro!: guar_intros on_api_local intro: on_api_same)

lemma route_create:
  assumes "svc_inv (ad_orders d) \<in> {NewPG, NewRedis}" "links_outside d"
  shows "guar (on_api qr) (handleCreateOrder lib d c r)"
  unfolding handleCreateOrder_def Let_def
  by (intro guar_intros on_api_world safe_clients(1,2)[OF assms(1)] route_paymentURL[OF assms(2)])

lemma route_issuedTickets: "guar (on_api qr) (issuedTickets lib uid oid png)"
proof -
  have "guar (on_api qr) (ticket_loop lib png ts)" for ts
    by (induction lib png ts rule: ticket_loop.induct)
      (auto simp: ticket_png_def intro!: guar_intros on_api_local)
  then show ?thesis unfolding issuedTickets_def by (intro guar_intros on_api_world safe_reads)
qed

lemma route_withOrder:
  "links_outside d \<Longrightarrow> (\<And>uid oid. guar (on_pg (safe qr)) (op uid oid)) \<Longrightarrow> guar (on_api qr) (withOrder lib d op c r)"
  unfolding withOrder_def by (intro guar_intros on_api_world route_paymentURL route_issuedTickets)

lemma route_tickets: "guar (on_api qr) (handleTickets lib d c r)"
  unfolding handleTickets_def by (intro guar_intros route_issuedTickets)

lemma routes_safe:
  assumes "svc_inv (ad_orders d) \<in> {NewPG, NewRedis}" "links_outside d" "(m, path, h) \<in> set (routes lib d now)"
  shows "guar (on_api qr) (h c r)"
proof -
  have o: "guar (on_api qr) (handleGetOrder lib d c r)" "guar (on_api qr) (handleCancelOrder lib d c r)" for c
    unfolding handleGetOrder_def handleCancelOrder_def
    by (intro route_withOrder assms(2) safe_reads safe_clients(3)[OF assms(1)])+
  show ?thesis using assms(3) unfolding routes_def Let_def
    by (auto intro!: guar_RequireUser guar_RequireAdmission route_login route_event route_seats[OF assms(1)]
        route_webhook[OF assms(1)] route_create[OF assms(1,2)] o route_tickets split: if_splits option.splits)
qed

text \<open>The waiting room: between the steps of a stream the rest of the deployment runs by itself.\<close>

definition on_stream :: "(uuid \<Rightarrow> string) \<Rightarrow> stream_world \<Rightarrow> stream_world \<Rightarrow> bool" where
  "on_stream qr s s' \<longleftrightarrow> on_pg (safe qr) (sw_world s) (sw_world s')"

lemma on_stream_world: "guar (on_pg (safe qr)) p \<Longrightarrow> guar (on_stream qr) (in_stream p)"
  unfolding on_stream_def[abs_def] by (erule guar_zoom) simp

lemma stream_write: "guar (on_stream qr) (write_sse ev)" "guar (on_stream qr) (send a st)"
  unfolding send_def write_sse_def by (intro guar_intros guar_call; simp add: on_stream_def reflp_def)+

lemma stream_safe: "guar (on_stream qr) (stream_loop a (\<lambda>_ w. w) eid qid n st)"
proof (induction n arbitrary: st)
  case (Suc n)
  have "guar (on_stream qr) (local_step (\<lambda>s. (s\<lparr>sw_world := sw_world s\<rparr>, ())))"
    by (rule guar_local) (simp add: on_stream_def)
  then show ?case unfolding stream_loop.simps
    by (intro guar_intros stream_write on_stream_world guar_queue_Status reflp_safe Suc)
qed (auto intro!: guar_intros stream_write)

lemma wr_routes_safe:
  assumes "(m, path, h) \<in> set (wr_routes a parse tokens now uuid_parse new (\<lambda>_ w. w) ticks)"
  shows "guar (on_stream qr) (h c r)"
proof -
  have "guar (on_stream qr) (handleJoin a uuid_parse new c r)" for c
    unfolding handleJoin_def by (intro guar_intros on_stream_world guar_Event guar_Join reflp_safe)
  moreover have "guar (on_stream qr) (handleStream a uuid_parse (\<lambda>_ w. w) ticks c r)"
    unfolding handleStream_def
    by (auto intro!: guar_intros on_stream_world guar_queue_Status reflp_safe stream_safe split: bool.split)
  ultimately show ?thesis using assms unfolding wr_routes_def by (auto intro!: guar_RequireUser)
qed

text \<open>The consumers.\<close>

lemma guar_process: "(\<And>r. guar R (handle r)) \<Longrightarrow> guar R (process left wait handle r)"
proof (induction left wait handle r rule: process.induct)
  case (1 left wait handle r)
  then show ?case by (subst process.simps) (intro guar_intros; simp)
qed

lemma guar_consume: "guar R commit \<Longrightarrow> (\<And>r. guar R (handle r)) \<Longrightarrow> guar R (consume_round commit left handle rs)"
proof -
  assume a: "guar R commit" "\<And>r. guar R (handle r)"
  have "guar R (consume_records left handle rs)" for left
    by (induction rs arbitrary: left) (auto intro!: guar_intros guar_process a(2))
  then show ?thesis unfolding consume_round_def by (intro guar_intros a(1))
qed

lemma guar_events: "(\<And>ev. guar R (fn ev)) \<Longrightarrow> guar R (events_Handler fn types r)"
  unfolding events_Handler_def Let_def by (intro guar_intros)

lemma consumers_safe:
  "guar (on_pg (safe (Payload secret))) (ticket_Handler secret r)"
  "external gw \<Longrightarrow> guar (on_pg (safe qr)) (refund_Handler gw r)"
  unfolding ticket_Handler_def refund_Handler_def by (intro guar_events guar_intros safe_reads safe_Process; assumption)+

lemma refund_gateway_external: "outside http \<Longrightarrow> external (refund_gateway http dec c)"
  unfolding external_def refund_gateway_def Client_Refund_def Client_post_def outside_def by (auto intro!: guar_intros)

lemma booking_deps_safe:
  assumes "booking_deps http dec n c = Inr d" "outside http"
  shows "svc_inv (ad_orders d) \<in> {NewPG, NewRedis} \<and> links_outside d"
  using assms unfolding booking_deps_def inventory_New_def links_outside_def Client_CreatePayment_def Client_post_def outside_def
  by (auto intro!: guar_intros split: if_splits)

section \<open>The deployment\<close>

text \<open>
  The shared stores, the table of users, the state of each booking process, what each stream has
  sent and what the notifier has sent.
\<close>

record deployment =
  dp_world :: world
  dp_users :: "int list"
  dp_apis :: "nat \<Rightarrow> api_world"
  dp_streams :: "nat \<Rightarrow> sse list"
  dp_told :: "string list"

definition api_part :: "nat \<Rightarrow> deployment \<Rightarrow> api_world" where
  "api_part n d = (dp_apis d n)\<lparr>aw_world := dp_world d, aw_users := dp_users d\<rparr>"

definition set_api :: "nat \<Rightarrow> api_world \<Rightarrow> deployment \<Rightarrow> deployment" where
  "set_api n a d = d\<lparr>dp_world := aw_world a, dp_users := aw_users a, dp_apis := (dp_apis d)(n := a)\<rparr>"

definition stream_part :: "nat \<Rightarrow> deployment \<Rightarrow> stream_world" where
  "stream_part n d = \<lparr>sw_world = dp_world d, sw_sent = dp_streams d n\<rparr>"

definition set_stream :: "nat \<Rightarrow> stream_world \<Rightarrow> deployment \<Rightarrow> deployment" where
  "set_stream n s d = d\<lparr>dp_world := sw_world s, dp_streams := (dp_streams d)(n := sw_sent s)\<rparr>"

definition notifier_part :: "deployment \<Rightarrow> notifier_world" where
  "notifier_part d = \<lparr>nt_rd = rd (dp_world d), nt_sent = dp_told d\<rparr>"

definition set_notifier :: "notifier_world \<Rightarrow> deployment \<Rightarrow> deployment" where
  "set_notifier s d = d\<lparr>dp_world := (dp_world d)\<lparr>rd := nt_rd s\<rparr>, dp_told := nt_sent s\<rparr>"

abbreviation in_shared :: "(world, 'a) prog \<Rightarrow> (deployment, 'a) prog" where
  "in_shared \<equiv> zoom dp_world (\<lambda>w d. d\<lparr>dp_world := w\<rparr>)"

definition no_user :: request_context where
  "no_user = \<lparr>ctx_user = None, ctx_admission = None\<rparr>"

text \<open>
  What the processes run: any route for any request, a worker's loop, a round of a consumer for any
  records with a commit that only touches Kafka's offsets, one pass of the expirer or the relay,
  the command that seeds.
\<close>

inductive process_of :: "Config \<Rightarrow> (deployment, unit) prog \<Rightarrow> bool" for c where
  p_booking: "booking_deps http dec n c = Inr d \<Longrightarrow> outside http \<Longrightarrow> (m, path, h) \<in> set (routes lib d now)
    \<Longrightarrow> process_of c (handled (zoom (api_part n) (set_api n) (h no_user r)))"
| p_waiting_room: "(m, path, h) \<in> set (wr_routes a parse \<lparr>tk_secret = JWTSecret c, tk_ttl = AccessTokenTTL\<rparr> now uuid_parse new
      (\<lambda>_ w. w) ticks)
    \<Longrightarrow> process_of c (handled (zoom (stream_part n) (set_stream n) (h no_user r)))"
| p_worker: "process_of c (in_shared (worker_Run (\<lambda>i. worker_tick sign (jti i) (now i) uuid_parse inst c) ticks))"
| p_tickets: "guar (\<lambda>w w'. w' = w) commit
    \<Longrightarrow> process_of c (handled (in_shared (consume_round commit left (ticket_Handler (TicketSecret c)) rs)))"
| p_refunds: "guar (\<lambda>w w'. w' = w) commit \<Longrightarrow> outside http
    \<Longrightarrow> process_of c (handled (in_shared (consume_round commit left (refund_Handler (refund_gateway http dec c)) rs)))"
| p_notifier: "guar (\<lambda>w w'. w' = w) commit
    \<Longrightarrow> process_of c (handled (zoom notifier_part set_notifier (consume_round commit left (notifier_Handler (notifier_sender client c)) rs)))"
| p_expiry: "inventory_New (InventoryBackend c) = Inr iv \<Longrightarrow> process_of c (handled (in_shared (expiry_RunOnce iv)))"
| p_relay: "process_of c (handled (in_shared (relay_turn due n)))"
| p_seed: "process_of c (handled (in_shared (seed_command flags look new)))"

inductive deployment_env :: "deployment \<Rightarrow> deployment \<Rightarrow> bool" where
  shared_env: "env (dp_world d) w \<Longrightarrow> deployment_env d (d\<lparr>dp_world := w\<rparr>)"
| api_clock: "aw_now (dp_apis d n) \<le> t \<Longrightarrow> deployment_env d (d\<lparr>dp_apis := (dp_apis d)(n := (dp_apis d n)\<lparr>aw_now := t\<rparr>)\<rparr>)"

definition fresh_deployment :: "deployment \<Rightarrow> bool" where
  "fresh_deployment d \<longleftrightarrow> fresh_world (dp_world d)"

definition on_shared :: "(uuid \<Rightarrow> string) \<Rightarrow> deployment \<Rightarrow> deployment \<Rightarrow> bool" where
  "on_shared qr d d' \<longleftrightarrow> sys qr (dp_world d) (dp_world d')"

lemma rg_zoom:
  assumes "\<And>w s. part (set_part w s) = w" "rg I G T p Q"
  shows "rg (\<lambda>s. I (part s)) (\<lambda>s s'. G (part s) (part s')) (\<lambda>a s. T a (part s)) (zoom part set_part p) (\<lambda>s. Q (part s))"
  using assms(2)
proof (induction p arbitrary: Q)
  case (Step g e c)
  show ?case unfolding zoom.simps
  proof (rule rg_step)
    fix x s assume s: "I (part s)" "Q (part s)" "g (part s)"
    then have "G (part s) (e x (part s))" using Step.prems by simp
    then show "G (part s) (part (set_part (e x (part s)) s))" by (simp add: assms(1))
    obtain Q' where q: "stable_under I G Q'" "Q' (e x (part s))" "rg I G T (c x (part s)) Q'" using Step.prems s by auto
    show "\<exists>Q'. stable_under (\<lambda>s. I (part s)) (\<lambda>s s'. G (part s) (part s')) Q' \<and> Q' (set_part (e x (part s)) s)
      \<and> rg (\<lambda>s. I (part s)) (\<lambda>s s'. G (part s) (part s')) (\<lambda>a s. T a (part s)) (zoom part set_part (c x (part s))) Q'"
      using q Step.IH[OF q(3)] by (intro exI[of _ "\<lambda>s. Q' (part s)"]) (auto simp: stable_under_def assms(1))
  qed
qed simp

lemma parts [simp]:
  "api_part n (set_api n a d) = a" "stream_part n (set_stream n s d) = s" "notifier_part (set_notifier t d) = t"
  by (simp_all add: api_part_def set_api_def stream_part_def set_stream_def notifier_part_def set_notifier_def)

text \<open>A program on a part, lifted to the deployment.\<close>

lemma shared_rg:
  "rg (sound qr) (sys qr) (\<lambda>_ _. True) p (\<lambda>_. True)
    \<Longrightarrow> rg (\<lambda>d. sound qr (dp_world d)) (on_shared qr) (\<lambda>_ _. True) (in_shared p) (\<lambda>_. True)"
  unfolding on_shared_def[abs_def] by (erule rg_zoom[where T = "\<lambda>_ _. True" and Q = "\<lambda>_. True", rotated]) simp

lemma shared_safe: "guar (on_pg (safe qr)) p \<Longrightarrow> guar (on_shared qr) (in_shared p)"
  unfolding on_shared_def[abs_def] by (rule guar_zoom[OF guar_sys]) simp_all

lemma part_safe:
  assumes "guar R p" "\<And>w s. part (set_part w s) = w" "\<And>d d'. R (part d) (part d') \<Longrightarrow> on_pg (safe qr) (dp_world d) (dp_world d')"
  shows "guar (on_shared qr) (zoom part set_part p)"
  using guar_zoom[where part = part and set_part = set_part, OF assms(1,2)] by (rule guar_mono) (auto simp: on_shared_def intro: safe_sys assms(3))

lemma api_safe: "guar (on_api qr) p \<Longrightarrow> guar (on_shared qr) (zoom (api_part n) (set_api n) p)"
  by (erule part_safe) (simp, simp add: on_api_def api_part_def)

lemma stream_part_safe: "guar (on_stream qr) p \<Longrightarrow> guar (on_shared qr) (zoom (stream_part n) (set_stream n) p)"
  by (erule part_safe) (simp, simp add: on_stream_def stream_part_def)

lemma notifier_safe: "guar (on_shared qr) (zoom notifier_part set_notifier p)"
proof (induction p)
  case (Step g e c)
  have "on_shared qr d (set_notifier s d)" for s d
    unfolding on_shared_def by (rule safe_sys) (simp add: on_pg_def set_notifier_def reflpD[OF reflp_safe])
  then show ?case using Step by auto
qed simp

lemma worker_safe: "guar (on_pg (safe qr)) (worker_Run (\<lambda>i. worker_tick sign (jti i) (now i) uuid_parse inst c) n)"
  by (induction n) (auto simp: worker_tick_def intro!: guar_intros guar_Tick)

lemma commit_safe: "guar (\<lambda>w w'. w' = w) p \<Longrightarrow> guar (on_pg (safe qr)) p"
  by (erule guar_mono) simp

lemma process_guar:
  assumes "process_of c p"
  shows "rg (\<lambda>d. sound (Payload (TicketSecret c)) (dp_world d)) (on_shared (Payload (TicketSecret c))) (\<lambda>_ _. True) p (\<lambda>_. True)"
  using assms
proof cases
  case (p_relay due n)
  have "rg (\<lambda>d. sound (Payload (TicketSecret c)) (dp_world d)) (on_shared (Payload (TicketSecret c))) (\<lambda>_ _. True)
      (in_shared (relay_turn due n)) (\<lambda>_. True)" by (rule shared_rg[OF rg_relay_turn])
  then show ?thesis unfolding p_relay handled_def by (rule rg_bind) simp
next
  case (p_booking http dec n d m path h lib now r)
  then show ?thesis using booking_deps_safe routes_safe by (blast intro: guar_rg safe_handled api_safe)
next
  case (p_waiting_room m path h a parse now uuid_parse new ticks n r)
  then show ?thesis using wr_routes_safe by (blast intro: guar_rg safe_handled stream_part_safe)
next
  case (p_expiry iv)
  then have "guar (on_pg (safe (Payload (TicketSecret c)))) (expiry_RunOnce iv)"
    using pg_inv.safe_expiry redis_inv.safe_expiry by (auto simp: inventory_New_def split: if_splits)
  then show ?thesis using p_expiry by (blast intro: guar_rg safe_handled shared_safe)
next
  case (p_seed flags look new)
  have "guar (on_pg (safe (Payload (TicketSecret c)))) (seed_command flags look new)"
    unfolding seed_command_def by (intro guar_intros safe_reads)
  then show ?thesis using p_seed by (blast intro: guar_rg safe_handled shared_safe)
qed (auto intro!: guar_rg safe_handled shared_safe notifier_safe worker_safe guar_consume consumers_safe
    refund_gateway_external intro: commit_safe)

interpretation deployed: rely_guarantee "{p. process_of c p}" deployment_env fresh_deployment
  "on_shared (Payload (TicketSecret c))" "\<lambda>d. sound (Payload (TicketSecret c)) (dp_world d)" for c
proof unfold_locales
  fix d d' assume s: "sound (Payload (TicketSecret c)) (dp_world d)" and e: "deployment_env d d'"
  from e show "on_shared (Payload (TicketSecret c)) d d'"
    by cases (auto simp: on_shared_def intro: ticketrush.environment[OF s] sys_same)
qed (auto simp: process_guar fresh_deployment_def on_shared_def ticketrush.start intro: sys_sound)

text \<open>The states a deployment with this configuration gets to.\<close>

definition runs_to :: "Config \<Rightarrow> deployment \<Rightarrow> bool" where
  "runs_to c d \<longleftrightarrow> (\<exists>ps. reach {p. process_of c p} deployment_env fresh_deployment d ps)"

lemma runs_to_books: "runs_to c d \<Longrightarrow> books (Payload (TicketSecret c)) (set (kafka (dp_world d))) (pg (dp_world d))"
  using deployed.reach_inv by (auto simp: runs_to_def sound_def)

text \<open>
  C5. The sale is sound behind its HTTP interface. Whatever requests arrive at any number of
  booking and waiting-room processes, with the worker, the expirer, the relay and the consumers
  running at the same time, and with calls that fail or whose replies are lost at any point: no
  seat of an event has two tickets, the money paid adds up to the orders that are paid for and
  the refunds, every status of an order has been announced, and every code on a ticket is
  signed with the configured secret.
\<close>

theorem deployment_sound:
  assumes "runs_to c d"
  shows "distinct (map (\<lambda>t. (t_event_id t, t_seat_id t)) (tickets (pg (dp_world d))))
    \<and> sum_list (map p_amount_vnd (filter (\<lambda>p. p_status p = StatusSucceeded) (payments (pg (dp_world d)))))
      = sum_list (map o_total_vnd (filter (\<lambda>q. o_status q = StatusPaid \<or> o_status q = StatusTicketed) (orders (pg (dp_world d)))))
        + sum_list (map r_amount_vnd (refunds (pg (dp_world d))))
    \<and> (\<forall>q\<in>set (orders (pg (dp_world d))). \<exists>r \<in> record_of ` set (outbox (pg (dp_world d))) \<union> set (kafka (dp_world d)).
        announces_status (o_status q) (o_id q) r)
    \<and> (\<forall>t\<in>set (tickets (pg (dp_world d))). t_qr_payload t \<in> {None, Some (Payload (TicketSecret c) (t_id t))})"
proof -
  have b: "books (Payload (TicketSecret c)) (set (kafka (dp_world d))) (pg (dp_world d))" by (rule runs_to_books[OF assms])
  then have l: "schema (pg (dp_world d))" "balance (pg (dp_world d))" by (auto simp: books_def ledger_def)
  have "t_key = (\<lambda>t. (t_event_id t, t_seat_id t))" by (simp add: fun_eq_iff t_key_def)
  then have 1: "distinct (map (\<lambda>t. (t_event_id t, t_seat_id t)) (tickets (pg (dp_world d))))"
    using l(1) unfolding schema_def schema_tickets_def by simp
  show ?thesis using b l(2) 1 by (auto simp: books_def announced_def records_def qr_ok_def balance_def sum_by_def sold_def)
qed

section \<open>Reading one environment\<close>

text \<open>What a parser returns in an environment, whether or not it reports problems.\<close>

definition reads :: "'a parsing \<Rightarrow> (string \<Rightarrow> string option) \<Rightarrow> ('a \<Rightarrow> bool) \<Rightarrow> bool" where
  "reads m look P \<longleftrightarrow> (\<forall>p a p'. run_state m p = (a, p') \<and> pa_lookup p = look \<longrightarrow> pa_lookup p' = look \<and> P a)"

definition setting :: "(string \<Rightarrow> string option) \<Rightarrow> string \<Rightarrow> string" where
  "setting look key = TrimSpace (case look key of None \<Rightarrow> [] | Some v \<Rightarrow> v)"

definition url_setting :: "(string \<Rightarrow> string option) \<Rightarrow> string \<Rightarrow> string \<Rightarrow> string" where
  "url_setting look key dflt = trim_right (\<lambda>c. c = CHR ''/'') (if setting look key = [] then dflt else setting look key)"

lemma reads_return: "P a \<Longrightarrow> reads (State_Monad.return a) look P"
  by (simp add: reads_def State_Monad.return_def)

lemma reads_keep: "reads m look Q \<Longrightarrow> (\<And>a. Q a \<Longrightarrow> reads (k a) look P) \<Longrightarrow> reads (State_Monad.bind m k) look P"
  unfolding reads_def
proof (intro allI impI, elim conjE)
  fix p b p2
  assume m: "\<forall>p a p'. run_state m p = (a, p') \<and> pa_lookup p = look \<longrightarrow> pa_lookup p' = look \<and> Q a"
    and k: "\<And>a. Q a \<Longrightarrow> \<forall>p b p'. run_state (k a) p = (b, p') \<and> pa_lookup p = look \<longrightarrow> pa_lookup p' = look \<and> P b"
    and r: "run_state (State_Monad.bind m k) p = (b, p2)" "pa_lookup p = look"
  obtain a p1 where 1: "run_state m p = (a, p1)" "run_state (k a) p1 = (b, p2)"
    using r(1) by (auto simp: State_Monad.bind_def split: prod.splits)
  then have "pa_lookup p1 = look" "Q a" using m r(2) by blast+
  then show "pa_lookup p2 = look \<and> P b" using k 1(2) by blast
qed

lemma reads_skip: "accepts m Q \<Longrightarrow> (\<And>a. reads (k a) look P) \<Longrightarrow> reads (State_Monad.bind m k) look P"
  by (rule reads_keep[where Q = "\<lambda>_. True"]) (auto simp: reads_def accepts_def)

lemma accepts_check: "accepts (if b then p_fail m else State_Monad.return ()) (\<lambda>_. True)"
  by (auto intro: accept_intros)

lemma reads_secret: "reads (p_secret key) look (\<lambda>v. v = setting look key)"
  by (auto simp: reads_def p_secret_def p_get_def p_fail_def setting_def State_Monad.bind_def State_Monad.return_def Let_def)

lemma reads_httpURL: "reads (p_httpURL go key dflt) look (\<lambda>v. v = url_setting look key dflt)"
proof -
  have "TrimSpace [] = []" by code_simp
  then show ?thesis
    by (auto simp: reads_def p_httpURL_def p_str_def p_get_def p_fail_def url_setting_def setting_def State_Monad.bind_def
        State_Monad.return_def Let_def split: option.splits)
qed

lemmas reads_steps = reads_keep[OF reads_secret] reads_keep[OF reads_httpURL] reads_return
    reads_skip[OF accepts_oneOf] reads_skip[OF accepts_required] reads_skip[OF accepts_str] reads_skip[OF accepts_list]
    reads_skip[OF accepts_boolean] reads_skip[OF accepts_distinctSecrets] reads_skip[OF accepts_positiveInt]
    reads_skip[OF accepts_duration] reads_skip[OF accepts_millis] reads_skip[OF accepts_rate] reads_skip[OF accepts_check]

lemma reads_config:
  "reads (read_config go) look (\<lambda>c. WebhookSecret c = setting look ''WEBHOOK_SECRET''
    \<and> FakepayURL c = url_setting look ''FAKEPAY_URL'' ''http://localhost:8090''
    \<and> PublicBaseURL c = url_setting look ''PUBLIC_BASE_URL'' ''http://localhost:8080'')"
  unfolding read_config_def by (rule reads_steps | simp add: cfg_second_def MaxInt32_def)+

lemma reads_fakepay:
  "reads (read_fakepay go) look (\<lambda>f. fk_WebhookSecret f = setting look ''WEBHOOK_SECRET''
    \<and> fk_PublicURL f = url_setting look ''FAKEPAY_URL'' ''http://localhost:8090''
    \<and> fk_CallbackPrefix f = url_setting look ''PUBLIC_BASE_URL'' ''http://localhost:8080'')"
  unfolding read_fakepay_def by (rule reads_steps | simp)+

lemma parsed_reads: "reads m look P \<Longrightarrow> parsed m look = Inr c \<Longrightarrow> P c"
  by (fastforce simp: reads_def parsed_def split: prod.splits if_splits)

text \<open>
  What is documented of the libraries: a path put behind a URL with a host leaves scheme and host as
  they are, and the text of a UUID parses to that UUID.
\<close>

definition url_library :: "golib \<Rightarrow> bool" where
  "url_library go \<longleftrightarrow> (\<forall>u scheme host path. url_Parse go u = Some (scheme, host) \<and> host \<noteq> ''''
     \<and> list_all (\<lambda>c. unreserved c \<or> c = CHR ''/'') path \<longrightarrow> url_Parse go (u @ ''/'' @ path) = Some (scheme, host))"

definition uuid_library :: "(string \<Rightarrow> uuid option) \<Rightarrow> (nat \<Rightarrow> uuid option) \<Rightarrow> bool" where
  "uuid_library uuid_parse gen \<longleftrightarrow> (\<forall>s u. uuid_parse s = Some u \<longrightarrow> uuid_parse u = Some u)
     \<and> (\<forall>i u. gen i = Some u \<longrightarrow> uuid_parse u = Some u)"

lemma loaded_callback:
  assumes "Load go look = Inr c" "url_library go"
  shows "is_http_url go (PublicBaseURL c @ ''/v1/webhooks/fakepay'')"
proof -
  have "is_http_url go (PublicBaseURL c)"
    using parsed_accepts[OF accepts_config] assms(1) by (auto simp: Load_def valid_config_def)
  moreover have "list_all (\<lambda>c. unreserved c \<or> c = CHR ''/'') ''v1/webhooks/fakepay''" by code_simp
  ultimately show ?thesis using assms(2) unfolding is_http_url_def url_library_def
    by (fastforce split: option.splits)
qed

text \<open>A token that a tick of the worker has stored is one booking accepts, in its lifetime.\<close>

lemma stored_token_verifies:
  assumes "jwt_library sign parse" "uuid_library uuid_parse jti" "owners_ok (rd w)" "\<forall>e\<in>set (events (pg w)). 0 < e_id e"
    and "run fs w (worker_tick sign jti now uuid_parse inst c) = Some (w', x)"
    and "redis_get (rd w) (AdmittedKey q) = None" "redis_get (rd w') (AdmittedKey q) = Some tok"
    and "later < (now + AdmissionTTL c) div second * second"
  shows "\<exists>a. Admission_Verify parse uuid_parse \<lparr>at_secret = AdmissionSecret c, at_ttl = AdmissionTTL c\<rparr> later tok = Inr a
    \<and> adm_queue_id a = q"
proof -
  let ?t = "\<lparr>at_secret = AdmissionSecret c, at_ttl = AdmissionTTL c\<rparr>"
  let ?issue = "\<lambda>i uid eid qid. map_sum (\<lambda>e. e) fst (Admission_Issue sign ?t now (jti i) uid eid qid)"
  define issue where "issue = ?issue"
  have "issued_from issue uuid_parse (e_id ` set (events (pg w))) (rd w) (rd w')"
    using yieldsD[OF Tick_issued[OF assms(3)] assms(5)[unfolded worker_tick_def Let_def select_convs]] unfolding issue_def .
  then have "redis_get (rd w) (AdmittedKey q) = Some tok
      \<or> (\<exists>i u e m. issue i u e q = Inr tok \<and> 0 < u \<and> in_int64 u \<and> e \<in> e_id ` set (events (pg w)) \<and> uuid_parse m = Some q)"
    using assms(3,7) unfolding issued_from_def by blast
  then obtain i u e m where i: "issue i u e q = Inr tok" "0 < u" "in_int64 u" "0 < e" "uuid_parse m = Some q"
    using assms(4,6) by auto
  then obtain adm where a: "Admission_Issue sign ?t now (jti i) u e q = Inr (tok, adm)"
    unfolding issue_def by (cases "Admission_Issue sign ?t now (jti i) u e q") auto
  then obtain j where j: "jti i = Some j" by (cases "jti i") (auto simp: Admission_Issue_def)
  have "uuid_parse q = Some q" "uuid_parse j = Some j" using assms(2) i(5) j by (auto simp: uuid_library_def)
  from admission_verifies[OF assms(1) i(2-4) this a[unfolded j]] show ?thesis using assms(8) by auto
qed

text \<open>
  C34. Processes started from one environment fit together: booking accepts the signature of every
  webhook of the gateway, the gateway accepts every payment booking registers (its callback URL
  is under the configured prefix), and the links point to the gateway booking calls. Where
  booking asks for admissions, it accepts every token that a tick of the waiting room's worker
  has stored for a waiting buyer, until the token expires, as the admission of that buyer's queue entry; and
  its order service checks admissions exactly when its router does.
\<close>

theorem services_agree:
  assumes "Load go look = Inr c" "LoadFakepay go look = Inr f" "booking_deps http dec n c = Inr d"
    and "oid \<noteq> uuid_nil" "0 < amount" "url_library go" "jwt_library sign parse" "uuid_library uuid_parse jti"
    and "owners_ok (rd w)" "\<forall>e\<in>set (events (pg w)). 0 < e_id e"
    and "run fs w (worker_tick sign jti now uuid_parse inst c) = Some (w', x)"
    and "redis_get (rd w) (AdmittedKey q) = None" "redis_get (rd w') (AdmittedKey q) = Some tok"
    and "later < (now + AdmissionTTL c) div second * second"
  shows "Verify (ad_webhookSecret d) body (Sign (gc_WebhookSecret (gw_cfg (New (fakepay_config f)))) body)
    \<and> validCreate go (gw_cfg (New (fakepay_config f)))
        \<lparr>cp_order_id = oid, cp_amount_vnd = amount, cp_callback_url = ad_callbackURL d\<rparr> = Inr ()
    \<and> gw_paymentURL (New (fakepay_config f)) oid = FakepayURL c @ ''/pay/'' @ oid
    \<and> (\<forall>t. ad_admissions d = Some t \<longrightarrow> (\<exists>a. Admission_Verify parse uuid_parse t later tok = Inr a \<and> adm_queue_id a = q))
    \<and> (ad_admissions d = None \<longleftrightarrow> svc_admissions (ad_orders d) = None)"
proof -
  have c: "WebhookSecret c = fk_WebhookSecret f" "FakepayURL c = fk_PublicURL f" "PublicBaseURL c = fk_CallbackPrefix f"
    using parsed_reads[OF reads_config] parsed_reads[OF reads_fakepay] assms(1,2) by (auto simp: Load_def LoadFakepay_def)
  have d: "ad_webhookSecret d = WebhookSecret c" "ad_callbackURL d = PublicBaseURL c @ ''/v1/webhooks/fakepay''"
      "ad_admissions d \<in> {None, Some \<lparr>at_secret = AdmissionSecret c, at_ttl = AdmissionTTL c\<rparr>}"
      "ad_admissions d = None \<longleftrightarrow> svc_admissions (ad_orders d) = None"
    using assms(3) by (auto simp: booking_deps_def split: sum.splits)
  have u: "is_http_url go (PublicBaseURL c @ ''/v1/webhooks/fakepay'')" by (rule loaded_callback[OF assms(1,6)])
  have "gw_cfg (New (fakepay_config f)) = (fakepay_config f)\<lparr>gc_MaxResends := 8, gc_RetryBase := 1000000000\<rparr>"
    by (simp add: New_def fakepay_config_def)
  then show ?thesis using assms(4,5) c d u stored_token_verifies[OF assms(7-14)]
    by (auto simp: validCreate_def gw_paymentURL_def fakepay_config_def Verify_Sign has_prefix_iff)
qed

lemma small_env_loads_all:
  "\<exists>c f d t. Load small_go small_env = Inr c \<and> LoadFakepay small_go small_env = Inr f
    \<and> booking_deps (\<lambda>_ _. Ret (Inl infra_error)) (\<lambda>_. None) 0 c = Inr d \<and> ad_admissions d = Some t
    \<and> AdmissionTTL c = 300 * second \<and> AdmitBatch c = 200"
proof -
  have "map_sum (\<lambda>x. x) (\<lambda>c. (InventoryBackend c, RequireAdmissionSet c, AdmissionTTL c, AdmitBatch c)) (Load small_go small_env)
      = Inr (''redis'', True, 300000000000, 200)"
    by code_simp
  then obtain c where c: "Load small_go small_env = Inr c" "InventoryBackend c = ''redis''" "RequireAdmissionSet c"
      "AdmissionTTL c = 300 * second" "AdmitBatch c = 200"
    by (cases "Load small_go small_env") (auto simp: second_def)
  have "map_sum (\<lambda>x. x) fk_DelayMin (LoadFakepay small_go small_env) = Inr 100000000" by code_simp
  then obtain f where "LoadFakepay small_go small_env = Inr f" by (cases "LoadFakepay small_go small_env") auto
  with c show ?thesis by (simp add: booking_deps_def inventory_New_def)
qed

lemma small_url: "url_library small_go"
proof -
  have "takeWhile (\<lambda>c. c \<noteq> CHR ''/'') (h @ CHR ''/'' # p) = takeWhile (\<lambda>c. c \<noteq> CHR ''/'') h" for h p
    by (induction h) auto
  then show ?thesis by (auto simp: url_library_def small_go_def has_prefix_iff split: if_splits)
qed

text \<open>One buyer waits for an event that is on sale.\<close>

definition one_waiting :: world where
  "one_waiting = (empty_world 0)\<lparr>
     pg := (pg (empty_world 0))\<lparr>events := [\<lparr>e_id = 1, e_name = ''Gala'', e_venue = ''Hall'', e_starts_at = 6000, e_sale_opens_at = 0,
       e_max_seats_per_order = 4\<rparr>]\<rparr>,
     rd := (empty_redis 0)\<lparr>zsets := (\<lambda>_. [])(queueKey 1 := [(1, ''q'')]), hashes := (\<lambda>_ _. None)(ownerKey 1 := [''q'' \<mapsto> ''7''])\<rparr>\<rparr>"

lemma one_waiting_facts:
  "owners_ok (rd one_waiting)" "\<forall>e\<in>set (events (pg one_waiting)). 0 < e_id e" "redis_get (rd one_waiting) (AdmittedKey ''q'') = None"
proof -
  have "parse_int ''7'' = Some 7" by code_simp
  then show "owners_ok (rd one_waiting)" by (auto simp: owners_ok_def one_waiting_def split: if_splits)
qed (simp_all add: one_waiting_def empty_redis_def redis_get_def)

lemma one_waiting_admitted:
  assumes "AdmissionTTL c = 300 * second" "AdmitBatch c = 200"
  shows "\<exists>w'. run [Reply, Reply, Reply, Reply, Reply, Reply, Reply] one_waiting (worker_tick some_sign (\<lambda>_. Some ''j'') 5 Some ''i'' c) = Some (w', (1, None))
    \<and> redis_get (rd w') (AdmittedKey ''q'') = Some ''A''"
proof -
  have 7: "parse_int ''7'' = Some 7" by code_simp
  have "Admission_Issue some_sign \<lparr>at_secret = AdmissionSecret c, at_ttl = AdmissionTTL c\<rparr> 5 (Some ''j'') 7 1 ''q''
      = Inr (''A'', \<lparr>adm_user_id = 7, adm_event_id = 1, adm_queue_id = ''q'', adm_jti = ''j'', adm_expires_at = 300 * second\<rparr>)"
    using assms(1) by (simp add: Admission_Issue_def some_sign_def some_claims_def NewNumericDate_def second_def)
  moreover have "0 < second" by (simp add: second_def)
  ultimately show ?thesis using assms 7
    by (simp add: worker_tick_def Tick_def OpenEventIDs_def begin_func_def run_tx_def ListOpenEventIDs_def tx_read_def one_waiting_def
        empty_world_def empty_redis_def Admit_def admit_head_def redis_read_def store_admissions_def admit_cmds_def zrange_def
        lease_lua_def tx_defs redis_get_def redis_set_px_def redis_setnx_def zrem_def hdel_def)
qed

theorem services_agree_witness:
  "\<exists>c f d t a. Load small_go small_env = Inr c \<and> LoadFakepay small_go small_env = Inr f
    \<and> booking_deps (\<lambda>_ _. Ret (Inl infra_error)) (\<lambda>_. None) 0 c = Inr d
    \<and> validCreate small_go (gw_cfg (New (fakepay_config f)))
        \<lparr>cp_order_id = ''q'', cp_amount_vnd = 500, cp_callback_url = ad_callbackURL d\<rparr> = Inr ()
    \<and> Verify (ad_webhookSecret d) ''x'' (Sign (gc_WebhookSecret (gw_cfg (New (fakepay_config f)))) ''x'')
    \<and> ad_admissions d = Some t \<and> Admission_Verify some_parse Some t (299 * second) ''A'' = Inr a \<and> adm_queue_id a = ''q''"
proof -
  obtain c f d t where l: "Load small_go small_env = Inr c" "LoadFakepay small_go small_env = Inr f"
      "booking_deps (\<lambda>_ _. Ret (Inl infra_error)) (\<lambda>_. None) 0 c = Inr d"
    and t: "ad_admissions d = Some t" and c: "AdmissionTTL c = 300 * second" "AdmitBatch c = 200"
    using small_env_loads_all by blast
  obtain w' where w': "run [Reply, Reply, Reply, Reply, Reply, Reply, Reply] one_waiting (worker_tick some_sign (\<lambda>_. Some ''j'') 5 Some ''i'' c) = Some (w', (1, None))"
      "redis_get (rd w') (AdmittedKey ''q'') = Some ''A''"
    using one_waiting_admitted[OF c] by blast
  have h: "''q'' \<noteq> uuid_nil" "(0::int) < 500" "uuid_library Some (\<lambda>_. Some ''j'')" "299 * second < (5 + AdmissionTTL c) div second * second"
    by (simp_all add: uuid_nil_def uuid_library_def c second_def)
  from services_agree[OF l h(1,2) small_url some_jwt h(3) one_waiting_facts(1,2) w'(1) one_waiting_facts(3) w'(2) h(4), of "''x''"] l t
  show ?thesis by (intro exI[of _ c] exI[of _ f] exI[of _ d]) auto
qed

section \<open>The sale of theory Scenario over HTTP\<close>

lemma run_zoom_part:
  assumes "\<And>w s. part (set_part w s) = w" "run fs (part s) p = Some (w, a)"
  shows "\<exists>s'. run fs s (zoom part set_part p) = Some (s', a) \<and> part s' = w"
  using assms(2)
proof (induction p arbitrary: fs s)
  case (Step g e c)
  then obtain x xs where fs: "fs = x # xs" "g (part s)" "run xs (e x (part s)) (c x (part s)) = Some (w, a)"
    by (cases fs) (auto split: if_splits)
  have "run xs (part (set_part (e x (part s)) s)) (c x (part s)) = Some (w, a)" using fs(3) by (simp add: assms(1))
  from Step.IH[OF this] show ?case using fs by simp
qed simp

lemma runs_to_run:
  assumes "runs_to c d" "process_of c (handled p)" "run fs d p = Some (d', a)"
  shows "runs_to c d'"
proof -
  obtain ps where "reach {p. process_of c p} deployment_env fresh_deployment d ([] @ handled p # ps)"
    using assms(1,2) reach_start[where p = "handled p"] by (fastforce simp: runs_to_def)
  from reach_run[OF this run_handled[OF assms(3)]] show ?thesis by (auto simp: runs_to_def)
qed

lemma runs_to_request:
  assumes "runs_to c d" "booking_deps (\<lambda>_ _. Ret (Inl infra_error)) dec n c = Inr deps"
    and "(m, path, h) \<in> set (routes lib deps now)" "run fs (api_part n d) (h no_user r) = Some (s, res)"
  shows "\<exists>d'. runs_to c d' \<and> dp_world d' = aw_world s"
proof -
  have p: "process_of c (handled (zoom (api_part n) (set_api n) (h no_user r)))"
    by (rule p_booking[OF assms(2) _ assms(3)]) (simp add: outside_def)
  obtain d' where d': "run fs d (zoom (api_part n) (set_api n) (h no_user r)) = Some (d', res)" "api_part n d' = s"
    using run_zoom_part[where part = "api_part n" and set_part = "set_api n", OF parts(1) assms(4)] by blast
  have "runs_to c d'" by (rule runs_to_run[OF assms(1) p d'(1)])
  moreover have "dp_world d' = aw_world s" using d'(2) by (auto simp: api_part_def)
  ultimately show ?thesis by blast
qed

definition sale_config :: Config where
  "sale_config = \<lparr>AppEnv = ''dev'', DatabaseURL = ''postgres:'', DBMaxConns = 20, RedisAddr = ''localhost:6379'',
     KafkaBrokers = [''localhost:19092''], InventoryBackend = ''pg'', HoldTTL = 600, HoldGrace = 60, AdmissionTTL = 300,
     AdmitInterval = 1, AdmitBatch = 200, ExpiryInterval = 5, RequireAdmissionSet = False, JWTSecret = ''jwt'',
     AdmissionSecret = ''adm'', WebhookSecret = ''hook'', TicketSecret = ''ticket'', FakepayURL = ''http://pay'',
     PublicBaseURL = ''http://shop'', OTLPEndpoint = '''', TelegramBotToken = '''', TelegramChatID = ''''\<rparr>"

definition sale_deps :: apiDeps where
  "sale_deps = \<lparr>ad_tokens = \<lparr>tk_secret = ''jwt'', tk_ttl = AccessTokenTTL\<rparr>, ad_orders = booking,
     ad_payments = Some (Client_CreatePayment (\<lambda>_ _. Ret (Inl infra_error)) (\<lambda>_. None) ''http://pay''),
     ad_webhookSecret = ''hook'', ad_callbackURL = ''http://shop/v1/webhooks/fakepay'', ad_devLogin = True, ad_admissions = None\<rparr>"

lemma sale_wired: "booking_deps (\<lambda>_ _. Ret (Inl infra_error)) (\<lambda>_. None) 0 sale_config = Inr sale_deps"
  by (simp add: booking_deps_def sale_config_def sale_deps_def inventory_New_def booking_def IsDev_def EnvDev_def)

definition sale_lib :: api_lib where
  "sale_lib = (some_lib gala_webhook)\<lparr>al_uuid_parse := Some, al_create := (\<lambda>_. Some gala_request), al_lock_token := ''token'',
     al_order_id := Some order_id, al_ticket_ids := (\<lambda>_. Some ticket_id),
     al_parse := (\<lambda>_ _ _. Some \<lparr>cl_subject = ''7'', cl_id = '''', cl_issued_at = None, cl_expires_at = None, cl_eid = 0, cl_qid = ''''\<rparr>)\<rparr>"

definition order_request :: request where
  "order_request = \<lparr>hr_header = (\<lambda>k. if k = ''Authorization'' then ''Bearer t'' else ''k''), hr_param = (\<lambda>_. []),
     hr_query = (\<lambda>_. []), hr_body = ''x''\<rparr>"

definition paid_webhook :: request where
  "paid_webhook = \<lparr>hr_header = (\<lambda>_. Sign ''hook'' ''x''), hr_param = (\<lambda>_. []), hr_query = (\<lambda>_. []), hr_body = ''x''\<rparr>"

lemma sale_fields [simp]:
  "ad_admissions sale_deps = None" "ad_orders sale_deps = booking"
  "al_uuid_parse sale_lib = Some" "al_create sale_lib = (\<lambda>_. Some gala_request)" "al_lock_token sale_lib = ''token''"
  "al_order_id sale_lib = Some order_id"
  "al_parse sale_lib = (\<lambda>_ _ _. Some \<lparr>cl_subject = ''7'', cl_id = [], cl_issued_at = None, cl_expires_at = None, cl_eid = 0, cl_qid = []\<rparr>)"
  by (simp_all add: sale_deps_def sale_lib_def)

lemma sale_routes:
  "(''POST'', ''/v1/orders'', RequireUser (al_parse sale_lib) (ad_tokens sale_deps) 0 (handleCreateOrder sale_lib sale_deps))
    \<in> set (routes sale_lib sale_deps 0)"
  "(''POST'', ''/v1/webhooks/fakepay'', handleWebhook sale_lib sale_deps) \<in> set (routes sale_lib sale_deps 0)"
  by (simp_all add: routes_def Let_def)

lemma run_in_world_bind:
  assumes "run fs (aw_world s) p = Some (w, a)" "run gs (s\<lparr>aw_world := w\<rparr>) (k a) = Some (s', b)"
  shows "\<exists>fs. run fs s (bindp (in_world p) k) = Some (s', b)"
proof -
  have "run fs s (in_world p) = Some (s\<lparr>aw_world := w\<rparr>, a)" using assms(1) by (simp add: run_in_world)
  from run_bindI[OF this, of k]
  obtain n where "\<forall>gs. run (take n fs @ gs) s (bindp (in_world p) k) = run gs (s\<lparr>aw_world := w\<rparr>) (k a)" by blast
  then have "run (take n fs @ gs) s (bindp (in_world p) k) = Some (s', b)" using assms(2) by simp
  then show ?thesis by blast
qed

lemma order_over_http:
  assumes "aw_world s = shop\<lparr>pg := gala_db\<rparr>"
  shows "\<exists>fs s' res. run fs s (RequireUser (al_parse sale_lib) (ad_tokens sale_deps) 0 (handleCreateOrder sale_lib sale_deps)
      no_user order_request) = Some (s', res) \<and> at_sale ordered_db (aw_world s')"
proof -
  obtain fs w a where c: "run fs (aw_world s) (Create booking 7 ''k'' gala_request ''token'' (Some order_id)) = Some (w, a)"
      and w: "at_sale ordered_db w" using order_run assms by metis
  let ?k = "\<lambda>x. case x of Inl e \<Rightarrow> Ret (WriteErr e) | Inr (q, created) \<Rightarrow> bindp (paymentURL sale_lib sale_deps q) (\<lambda>url.
      Ret (WriteJSON (if created then 201 else 200) (order_json q url [])))"
  have "\<exists>s' b. run [Reply] (s\<lparr>aw_world := w\<rparr>) (?k a) = Some (s', b) \<and> aw_world s' = w"
    by (auto simp: paymentURL_def sale_deps_def Client_CreatePayment_def Client_post_def local_step_def split: sum.split option.split)
  then obtain s' b fs' where r: "run fs' s (bindp (in_world (Create booking 7 ''k'' gala_request ''token'' (Some order_id))) ?k) = Some (s', b)"
      and s': "aw_world s' = w" using run_in_world_bind[OF c, where k = ?k] by blast
  have p: "parse_int ''7'' = Some 7" by code_simp
  have eq: "RequireUser (al_parse sale_lib) (ad_tokens sale_deps) 0 (handleCreateOrder sale_lib sale_deps) no_user order_request
      = bindp (in_world (Create booking 7 ''k'' gala_request ''token'' (Some order_id))) ?k"
    by (simp add: RequireUser_def Let_def order_request_def has_prefix_iff Tokens_Verify_def p handleCreateOrder_def
        parseIdempotencyKey_def uuid_nil_def DecodeJSON_def maxBodyBytes_def UserIDFrom_def no_user_def trim_prefix_def)
  show ?thesis unfolding eq using r s' w by blast
qed

lemma webhook_over_http:
  assumes "run fs (aw_world s) (ApplyPayment booking (\<lambda>_. Some ticket_id) gala_webhook) = Some (w, Inr res)"
    and "d = sale_deps\<lparr>ad_webhookSecret := key\<rparr>" "hr_body r = ''x''" "hr_header r SignatureHeader = Sign key ''x''"
  shows "\<exists>fs. run fs s (handleWebhook sale_lib d c r)
    = Some (s\<lparr>aw_world := w\<rparr>, WriteJSON 200 (JObj [(''outcome'', JStr (outcome_text (pr_outcome res)))]))"
proof -
  have "Validate gala_webhook = Inr ()"
    by (simp add: Validate_def gala_webhook_def StatusSucceeded_def order_id_def uuid_nil_def)
  then have eq: "handleWebhook sale_lib d c r
      = bindp (in_world (ApplyPayment booking (\<lambda>_. Some ticket_id) gala_webhook)) (\<lambda>x. Ret (case x of
          Inl e \<Rightarrow> WriteErr e | Inr res \<Rightarrow> WriteJSON 200 (JObj [(''outcome'', JStr (outcome_text (pr_outcome res)))])))"
    by (simp add: handleWebhook_def assms(2-4) Let_def maxWebhookBytes_def sale_deps_def sale_lib_def some_lib_def Verify_Sign)
  show ?thesis unfolding eq by (rule run_in_world_bind[OF assms(1)]) simp
qed

lemma paid_webhook_signed:
  "sale_deps = sale_deps\<lparr>ad_webhookSecret := ''hook''\<rparr>" "hr_body paid_webhook = ''x''" "hr_header paid_webhook SignatureHeader = Sign ''hook'' ''x''"
  by (simp_all add: sale_deps_def paid_webhook_def)

lemma payment_over_http:
  assumes "at_sale ordered_db (aw_world s)"
  shows "\<exists>fs s' res. run fs s (handleWebhook sale_lib sale_deps no_user paid_webhook) = Some (s', res)
    \<and> rs_status res = 200 \<and> at_sale paid_db (aw_world s')"
proof -
  obtain fs w a where c: "run fs (aw_world s) (ApplyPayment booking (\<lambda>_. Some ticket_id) gala_webhook) = Some (w, Inr a)"
      and w: "at_sale paid_db w" using payment_run[OF assms] by blast
  then show ?thesis using webhook_over_http[OF c paid_webhook_signed] by fastforce
qed

text \<open>The gateway reports the payment: its first request is lost, the second is answered.\<close>

lemma payment_delivered:
  assumes "at_sale ordered_db (aw_world s)"
  shows "\<exists>fs s' n waits. run fs s (sendWithRetry (gw_cfg (New small_gateway))
      (post_webhook sale_lib (sale_deps\<lparr>ad_webhookSecret := ''secret''\<rparr>) u ''x'' (Sign ''secret'' ''x'')) (\<lambda>_. 1) (\<lambda>_. (True, True)) 1
      (gc_RetryBase (gw_cfg (New small_gateway)))) = Some (s', Delivered, n, waits) \<and> at_sale paid_db (aw_world s')"
proof -
  let ?d = "sale_deps\<lparr>ad_webhookSecret := ''secret''\<rparr>" and ?cfg = "gw_cfg (New small_gateway)"
  let ?r = "\<lparr>hr_header = (\<lambda>h. if h = SignatureHeader then Sign ''secret'' ''x'' else if h = ''Content-Type'' then ''application/json'' else []),
         hr_param = (\<lambda>_. []), hr_query = (\<lambda>_. []), hr_body = ''x''\<rparr>"
  let ?post = "post_webhook sale_lib ?d u ''x'' (Sign ''secret'' ''x'')"
  let ?send = "sendWithRetry ?cfg ?post (\<lambda>_. 1) (\<lambda>_. (True, True))"
  obtain fs w a where c: "run fs (aw_world s) (ApplyPayment booking (\<lambda>_. Some ticket_id) gala_webhook) = Some (w, Inr a)"
      and w: "at_sale paid_db w" using payment_run[OF assms] by blast
  obtain gs res where h: "run gs s (handleWebhook sale_lib ?d no_user ?r) = Some (s\<lparr>aw_world := w\<rparr>, res)" "rs_status res = 200"
    using webhook_over_http[OF c refl, where c = no_user and r = ?r] by fastforce
  obtain hs where "run hs s (bindp (handleWebhook sale_lib ?d no_user ?r) (\<lambda>res. Ret (Inr (rs_status res) :: int res))) = Some (s\<lparr>aw_world := w\<rparr>, Inr 200)"
    using run_bind_ret[OF h(1), where b = "Inr 200" and k = "\<lambda>res. Ret (Inr (rs_status res))"] h(2) by auto
  then have p: "run (Reply # hs) s ?post = Some (s\<lparr>aw_world := w\<rparr>, Inr 200)" by (simp add: post_webhook_def no_user_def)
  have "\<exists>ks. run ks s (?send (Suc 1) wait) = Some (s\<lparr>aw_world := w\<rparr>, Delivered, Suc 1, [])" for wait
    unfolding send_step[of _ _ _ _ "Suc 1"] by (rule run_bind_ret[OF p]) (simp add: small_gateway_cfg)
  then obtain ls where l: "run ls s (?send (1 + 1) (int64 (gc_RetryBase ?cfg * 2))) = Some (s\<lparr>aw_world := w\<rparr>, Delivered, Suc 1, [])"
    by (metis Suc_eq_plus1)
  obtain ks where "run ks s (bindp (?send (1 + 1) (int64 (gc_RetryBase ?cfg * 2))) (\<lambda>(d, n, waits). Ret (d, n, gc_RetryBase ?cfg # waits)))
      = Some (s\<lparr>aw_world := w\<rparr>, Delivered, Suc 1, [gc_RetryBase ?cfg])"
    using run_bind_ret[OF l, where k = "\<lambda>(d, n, waits). Ret (d, n, gc_RetryBase ?cfg # waits)"
        and b = "(Delivered, Suc 1, [gc_RetryBase ?cfg])"] unfolding prod.case by blast
  then have "run (Fail # ks) s (?send 1 (gc_RetryBase ?cfg)) = Some (s\<lparr>aw_world := w\<rparr>, Delivered, Suc 1, [gc_RetryBase ?cfg])"
    unfolding send_step[of _ _ _ _ 1] by (simp add: post_webhook_def small_gateway_cfg sleep_def)
  then show ?thesis using w by fastforce
qed

definition opened_deployment :: deployment where
  "opened_deployment = \<lparr>dp_world = shop, dp_users = [7], dp_apis = (\<lambda>_. newAPI shop [7] 0), dp_streams = (\<lambda>_. []), dp_told = []\<rparr>"

text \<open>The event is seeded, an order placed and its payment reported, all through the interfaces.\<close>

lemma ordered_deployment: "\<exists>d. runs_to sale_config d \<and> at_sale ordered_db (dp_world d)"
proof -
  have 0: "runs_to sale_config opened_deployment"
    using reach_init[of fresh_deployment opened_deployment]
    by (auto simp: runs_to_def fresh_deployment_def opened_deployment_def fresh_world_def shop_def empty_world_def empty_db_def)
  let ?look = "\<lambda>_. Some ''dsn''" and ?flags = "\<lambda>_. Inr gala"
  have s: "run [Reply] (dp_world opened_deployment) (seed_command ?flags ?look 1) = Some (shop\<lparr>pg := gala_db\<rparr>, Inr ())"
    using gala_seeded by (simp add: seed_command_def opened_deployment_def gala_def Seed_def run_bind_begin_func run_begin_func)
  obtain d1 where d1: "runs_to sale_config d1" "dp_world d1 = shop\<lparr>pg := gala_db\<rparr>"
    using run_zoom_part[where part = dp_world and set_part = "\<lambda>w d. d\<lparr>dp_world := w\<rparr>", OF _ s] runs_to_run[OF 0 p_seed] by fastforce
  have "aw_world (api_part 0 d1) = shop\<lparr>pg := gala_db\<rparr>" using d1(2) by (simp add: api_part_def)
  then show ?thesis
    using order_over_http[of "api_part 0 d1"] runs_to_request[OF d1(1) sale_wired sale_routes(1)] by (fastforce simp del: sale_fields)
qed

lemma paid_deployment: "\<exists>d. runs_to sale_config d \<and> at_sale paid_db (dp_world d)"
proof -
  obtain d2 where d2: "runs_to sale_config d2" "at_sale ordered_db (dp_world d2)" using ordered_deployment by blast
  have "at_sale ordered_db (aw_world (api_part 0 d2))" using d2(2) by (simp add: api_part_def)
  then show ?thesis
    using payment_over_http[of "api_part 0 d2"] runs_to_request[OF d2(1) sale_wired sale_routes(2)] by fastforce
qed

theorem deployment_sound_witness:
  "\<exists>d. runs_to sale_config d \<and> length (tickets (pg (dp_world d))) = 1
    \<and> distinct (map (\<lambda>t. (t_event_id t, t_seat_id t)) (tickets (pg (dp_world d))))
    \<and> sum_list (map p_amount_vnd (filter (\<lambda>p. p_status p = StatusSucceeded) (payments (pg (dp_world d))))) = 500
    \<and> sum_list (map o_total_vnd (filter (\<lambda>q. o_status q = StatusPaid \<or> o_status q = StatusTicketed) (orders (pg (dp_world d)))))
        + sum_list (map r_amount_vnd (refunds (pg (dp_world d)))) = 500"
proof -
  obtain d where d: "runs_to sale_config d" "at_sale paid_db (dp_world d)" using paid_deployment by blast
  then have p: "payments (pg (dp_world d)) = payments paid_db" "tickets (pg (dp_world d)) = tickets paid_db" by (simp_all add: at_sale_def)
  have "sum_list (map p_amount_vnd (filter (\<lambda>p. p_status p = StatusSucceeded) (payments paid_db))) = 500" "length (tickets paid_db) = 1"
    by (simp_all add: paid_db_def StatusSucceeded_def)
  then show ?thesis using deployment_sound[OF d(1)] d(1) p by (intro exI[of _ d]) simp
qed

text \<open>The webhook of that payment is answered when the payment is in the database.\<close>

theorem webhook_answers_witness:
  "\<exists>d fs s' res. runs_to sale_config d \<and> payments (pg (dp_world d)) = []
    \<and> run fs (api_part 0 d) (handleWebhook sale_lib sale_deps no_user paid_webhook) = Some (s', res) \<and> rs_status res = 200
    \<and> webhook_accepted sale_lib sale_deps (hr_body paid_webhook) s' \<and> map p_provider_txn_id (payments (pg (aw_world s'))) = [''fp_1'']"
proof -
  obtain d where d: "runs_to sale_config d" "at_sale ordered_db (dp_world d)" using ordered_deployment by blast
  then have "at_sale ordered_db (aw_world (api_part 0 d))" by (simp add: api_part_def)
  then obtain fs s' res where r: "run fs (api_part 0 d) (handleWebhook sale_lib sale_deps no_user paid_webhook) = Some (s', res)"
      "rs_status res = 200" "at_sale paid_db (aw_world s')" using payment_over_http by blast
  have "svc_inv (ad_orders sale_deps) \<in> {NewPG, NewRedis}" by (simp add: booking_def)
  moreover have "Verify (ad_webhookSecret sale_deps) (hr_body paid_webhook) (hr_header paid_webhook SignatureHeader)"
    by (simp add: sale_deps_def paid_webhook_def Verify_Sign)
  ultimately have "webhook_accepted sale_lib sale_deps (hr_body paid_webhook) s'"
    using webhook_answers[of sale_deps fs "api_part 0 d" sale_lib no_user paid_webhook s' res] r by simp
  moreover have "payments (pg (dp_world d)) = []" using d(2) by (simp add: at_sale_def ordered_db_def gala_db_def empty_db_def)
  moreover have "map p_provider_txn_id (payments (pg (aw_world s'))) = [''fp_1'']" using r(3) by (simp add: at_sale_def paid_db_def)
  ultimately show ?thesis using d(1) r(1,2) by (intro exI[of _ d] exI[of _ fs] exI[of _ s'] exI[of _ res] conjI)
qed

text \<open>So is the webhook the gateway sends for it.\<close>

theorem delivered_is_recorded_witness:
  "\<exists>d s'. runs_to sale_config d \<and> payments (pg (dp_world d)) = []
    \<and> webhook_accepted sale_lib (sale_deps\<lparr>ad_webhookSecret := ''secret''\<rparr>) ''x'' s'
    \<and> map p_provider_txn_id (payments (pg (aw_world s'))) = [''fp_1'']"
proof -
  let ?rnd = "\<lparr>dr_Int64N = (\<lambda>_. 0), dr_late = 1, dr_duplicate = 1, dr_IntN3 = 0\<rparr>"
  let ?d = "sale_deps\<lparr>ad_webhookSecret := ''secret''\<rparr>" and ?cfg = "gw_cfg (New small_gateway)"
  let ?copy = "sendWithRetry ?cfg (post_webhook sale_lib ?d ''http://booking/hook'' ''x'' (Sign ''secret'' ''x''))
    (\<lambda>_. 1) (\<lambda>_. (True, True)) 1 (gc_RetryBase ?cfg)"
  obtain d where d: "runs_to sale_config d" "at_sale ordered_db (dp_world d)" using ordered_deployment by blast
  then obtain fs s' n waits where r: "run fs (api_part 0 d) ?copy = Some (s', Delivered, n, waits)" "at_sale paid_db (aw_world s')"
    using payment_delivered[of "api_part 0 d"] by (fastforce simp: api_part_def)
  have "gc_WebhookSecret ?cfg = ''secret''" "delay_of ?cfg ?rnd = 0" "copies_of ?cfg ?rnd = 1"
    by (simp_all add: New_def small_gateway_def delay_of_def copies_of_def int64_def)
  then have m: "?copy \<in> set (deliver ?cfg ?rnd (True, True) (post_webhook sale_lib ?d) (\<lambda>_ _. 1) (\<lambda>_ _. (True, True)) paid_request ''x'')"
    by (simp add: deliver_def sleep_def paid_request_def)
  have i: "svc_inv (ad_orders ?d) \<in> {NewPG, NewRedis}" "in_int64 (gc_RetryBase small_gateway)"
    by (simp_all add: sale_deps_def booking_def small_gateway_def in_int64_def)
  have "payments (pg (dp_world d)) = []" using d(2) by (simp add: at_sale_def ordered_db_def gala_db_def empty_db_def)
  moreover have "map p_provider_txn_id (payments (pg (aw_world s'))) = [''fp_1'']" using r(2) by (simp add: at_sale_def paid_db_def)
  ultimately show ?thesis using delivered_is_recorded[OF i(1) m i(2) r(1)] d(1) by (intro exI[of _ d] exI[of _ s'] conjI)
qed

text \<open>Delivered again, it is a duplicate.\<close>

theorem duplicate_webhook_ignored_witness:
  "\<exists>d fs s' res. runs_to sale_config d \<and> run fs (api_part 0 d) (handleWebhook sale_lib sale_deps no_user paid_webhook) = Some (s', res)
    \<and> res = WriteJSON 200 (JObj [(''outcome'', JStr ''DUPLICATE'')])
    \<and> payments (pg (aw_world s')) = payments (pg (dp_world d)) \<and> length (payments (pg (dp_world d))) = 1"
proof -
  obtain d where d: "runs_to sale_config d" "at_sale paid_db (dp_world d)" using paid_deployment by blast
  then have a: "at_sale paid_db (aw_world (api_part 0 d))" by (simp add: api_part_def)
  obtain fs w a where "run fs (aw_world (api_part 0 d)) (ApplyPayment booking (\<lambda>_. Some ticket_id) gala_webhook) = Some (w, Inr a)"
    using payment_again_run[OF a] by blast
  then obtain gs s' res where r: "run gs (api_part 0 d) (handleWebhook sale_lib sale_deps no_user paid_webhook) = Some (s', res)"
      "rs_status res = 200" using webhook_over_http[OF _ paid_webhook_signed] by fastforce
  have i: "svc_inv (ad_orders sale_deps) \<in> {NewPG, NewRedis}" by (simp add: booking_def)
  have wh: "al_webhook sale_lib (hr_body paid_webhook) = Some gala_webhook" by (simp add: sale_lib_def some_lib_def)
  have pg: "payments (pg (aw_world (api_part 0 d))) = payments paid_db" "orders (pg (aw_world (api_part 0 d))) = [gala_order StatusPaid]"
    using a by (simp_all add: at_sale_def paid_db_def)
  then have "wh_provider_txn_id gala_webhook \<in> p_provider_txn_id ` set (payments (pg (aw_world (api_part 0 d))))"
    by (simp add: gala_webhook_def paid_db_def)
  from duplicate_webhook_ignored[OF i wh this r(1)] r(2)
  have "res = WriteJSON 200 (JObj [(''outcome'', JStr ''DUPLICATE'')])" "payments (pg (aw_world s')) = payments (pg (aw_world (api_part 0 d)))"
    using pg(2) by (auto simp: gala_order_def gala_webhook_def)
  then show ?thesis using d r pg(1) by (intro exI[of _ d] exI[of _ gs] exI[of _ s'] exI[of _ res]) (simp add: api_part_def paid_db_def)
qed

text \<open>To user 8 the order of user 7 does not exist.\<close>

definition order_page :: request where
  "order_page = \<lparr>hr_header = (\<lambda>_. []), hr_param = (\<lambda>_. order_id), hr_query = (\<lambda>_. []), hr_body = []\<rparr>"

theorem orders_private_witness:
  "\<exists>d. runs_to sale_config d \<and> owns 7 order_id (pg (dp_world d))
    \<and> run [Reply] (api_part 0 d) (handleGetOrder sale_lib sale_deps \<lparr>ctx_user = Some 8, ctx_admission = None\<rparr> order_page)
      = Some (api_part 0 d, WriteErr [ErrNotFound])"
proof -
  let ?c = "\<lparr>ctx_user = Some 8, ctx_admission = None\<rparr>"
  obtain d where d: "runs_to sale_config d" "at_sale paid_db (dp_world d)" using paid_deployment by blast
  have o: "orders (pg (aw_world (api_part 0 d))) = [gala_order StatusPaid]"
    using d(2) by (simp add: api_part_def at_sale_def paid_db_def)
  obtain s' res where r: "run [Reply] (api_part 0 d) (handleGetOrder sale_lib sale_deps ?c order_page) = Some (s', res)"
      "res = WriteErr [ErrNotFound]"
    using o by (simp add: handleGetOrder_def withOrder_def order_page_def UserIDFrom_def Get_def begin_func_def call_when_def
      run_tx_def GetOrder_def one_row_def errors_is_def gala_order_def)
  have "al_uuid_parse sale_lib (hr_param order_page ''orderID'') = Some order_id" by (simp add: order_page_def)
  moreover have "\<not> owns (UserIDFrom ?c) order_id (pg (aw_world (api_part 0 d)))" using o by (simp add: owns_def UserIDFrom_def gala_order_def)
  ultimately have "s' = api_part 0 d"
    using orders_private[where handle = "handleGetOrder sale_lib sale_deps" and d = sale_deps and lib = sale_lib, OF _ _ _ r(1)] by simp
  moreover have "owns 7 order_id (pg (dp_world d))" using o by (simp add: owns_def api_part_def gala_order_def)
  ultimately show ?thesis using d(1) r by blast
qed

end
