(* ===== verification/Spec2Isabelle.thy ===== *)
theory Spec2Isabelle
  imports Inventory_Backends Deployment
begin

text \<open>
  A verification of TicketRush, a ticket sale: a buyer waits in a queue, is admitted, holds
  seats for a while, pays through an external gateway and gets tickets with signed QR codes;
  money that cannot be used goes back. This theory holds the properties of the sale as a whole;
  the theories it imports model one part of the program each.

  \<^bold>\<open>The program.\<close> \<open>cmd/booking\<close> serves the HTTP API, \<open>cmd/waitingroom\<close> the queue and its admission
  worker, \<open>cmd/expiry\<close> expires unpaid orders, \<open>cmd/relay\<close> carries the outbox to Kafka, \<open>cmd/ticket\<close>,
  \<open>cmd/refunder\<close> and \<open>cmd/notifier\<close> consume the events, \<open>cmd/fakepay\<close> is the payment gateway, \<open>cmd/seed\<close>
  creates an event. They share PostgreSQL, Redis and Kafka and nothing else. PostgreSQL is the truth;
  the seat inventory is in Redis or PostgreSQL; events leave through the outbox table.

  \<^bold>\<open>How effects are modelled.\<close> \<open>Effects\<close>: a transaction is a function on the tables that commits or
  fails. A handler is a finite tree of atomic steps (\<open>prog\<close>), one for each transaction, script,
  command or call to another service. Each step is answered, fails, or takes effect with its reply
  lost (\<open>fault\<close>), so every error branch of the source is a branch of the model. \<open>run\<close> executes a
  program alone, \<open>reach\<close> interleaves any number of them. \<open>keeps\<close>, \<open>guar\<close>, \<open>yields\<close> and \<open>rg\<close> are the
  judgements on transactions and programs; the locale \<open>rely_guarantee\<close> turns a guarantee of every
  step into an invariant of every interleaving. \<open>Store\<close> has the tables, the Redis key space with
  expiry, Kafka's log, row locks and clocks in one record \<open>world\<close>. Row locks held across a step
  (\<open>FOR UPDATE\<close>, \<open>SKIP LOCKED\<close>) are entries of \<open>locks\<close> that block or hide rows.

  \<^bold>\<open>Which theory models what\<close> (paths under \<open>src/\<close>):
  \<^item> \<open>Prelude\<close>, \<open>Go_Text\<close>, \<open>Json\<close>, \<open>Crypto\<close>: the parts of the Go library the sources use: machine integers,
    error values, numbers and strings, JSON text, SHA-256, HMAC, hexadecimal.
  \<^item> \<open>Order_State\<close>: \<open>internal/order/state.go\<close>. \<open>Order_DB\<close>: \<open>internal/order/orderdb\<close> and the constraints of
    \<open>migrations/00001_init.sql\<close>.
  \<^item> \<open>Inventory\<close>, \<open>Inventory_PG\<close>, \<open>Inventory_Redis\<close>, \<open>Inventory_Backends\<close>: \<open>internal/inventory\<close> with its scripts;
    the locale \<open>inventory_contract\<close> is the Go interface with its promises, interpreted for both backends.
  \<^item> \<open>Catalog\<close>: \<open>internal/catalog\<close>. \<open>Request\<close>, \<open>Admission\<close>, \<open>Orders\<close>: \<open>internal/order/request.go\<close> and \<open>service.go\<close>,
    \<open>internal/platform/redisx/lock.go\<close>, \<open>internal/queue/ledger.go\<close>. \<open>Payments\<close>: \<open>internal/order/payment.go\<close> and
    \<open>internal/payment/payment.go\<close>. \<open>Lifecycle\<close>, \<open>Ticket_QR\<close>: expiry, tickets and refunds of \<open>internal/order\<close>, and
    \<open>internal/ticket\<close>. \<open>Relay\<close>: \<open>internal/outbox\<close>. \<open>Consumer\<close>: \<open>internal/platform/kafka/consume.go\<close> and
    \<open>internal/events\<close>. \<open>Notifier\<close>, \<open>Money\<close>: \<open>internal/notifier\<close>, \<open>internal/money\<close>.
  \<^item> \<open>Queue\<close>: \<open>internal/queue\<close> with its scripts. \<open>Auth\<close>, \<open>Http\<close>: \<open>internal/auth\<close>, \<open>internal/httpx\<close>.
  \<^item> \<open>Config\<close>: \<open>internal/platform/config\<close>. \<open>Gateway\<close>: \<open>internal/payment/client.go\<close> and \<open>internal/fakepay\<close>. \<open>Caches\<close>,
    \<open>Booking_API\<close>: \<open>cmd/booking\<close>. \<open>Waiting_Room\<close>: \<open>cmd/waitingroom/api.go\<close>.
  \<^item> \<open>Ledger\<close>, \<open>Books\<close>, \<open>Refinement\<close>: the abstract order book \<open>ledger_step\<close>, its invariant, and the proof that
    every transaction is a sequence of its steps. \<open>System\<close>: all handlers at once. \<open>Scenario\<close>: a sale
    run step by step, for the witnesses. \<open>Deployment\<close>: the processes wired from a configuration as the
    \<open>run\<close> functions do, with the HTTP routes and consumers as the programs that interleave.

  Functions keep their names; where a name is taken, a prefix or suffix tells the part (\<open>pg_Hold\<close>,
  \<open>redis_Hold\<close>, \<open>links_get\<close>). A loop body or transaction that the source writes inline has a name of
  its own (\<open>insertHeld_tx\<close>, \<open>create_rounds\<close>). Structs are records, named errors constructors of \<open>sentinel\<close>.

  \<^bold>\<open>What is shown.\<close> For every interleaving and every fault: no seat is sold twice, orders have exactly
  their tickets, the money adds up, no event is lost, nothing recorded is undone, orders are unique
  per buyer, codes verify; and the same for the HTTP routes of a deployment. Each handler's step is a
  step of the abstract order book. The consumers finish their work: a paid order gets its tickets
  however often the database fails at first, a refund is paid back, offsets are committed only after
  the records of the batch were handled in turn. Both inventories keep the seats of an order from others and behave alike,
  for as long as no hold expires.
  The queue keeps its order, and a round of admissions that succeeds or whose connection breaks
  loses nobody; what happens when Redis refuses a single command of a pipeline is shown as well
  (\<open>refused_token_loses_buyer\<close>, \<open>refused_rank_rejoins\<close>). A webhook delivered again is recognised. Tokens, signatures, canonical requests and seeded
  events round-trip. The gateway, the booking API, the stream and the configuration have the
  properties stated in their theories.

  \<^bold>\<open>Bounds and fuel.\<close> \<open>create_rounds\<close> makes the two attempts of the source. The consumer's \<open>process\<close> is given
  the time until shutdown and recurses on it, since every pause is positive; liveness is shown for
  any number of failures the time allows. \<open>Cleanup\<close> is bounded by the statements it may need, and it is
  shown that they are enough. A delivery of the gateway recurses on the posts left of \<open>MaxResends\<close>.
  The ticks of a stream and of the worker are the number before the client or the server stops. No
  other definition has fuel.

  \<^bold>\<open>Parameters.\<close> Random values and generated ids; \<open>uuid.Parse\<close>; the JWT library, with the round trip and
  the expiry check as the hypothesis \<open>jwt_library\<close>; that UUIDs print and parse back and that a path
  behind a URL keeps its host, as the hypotheses \<open>uuid_library\<close> and \<open>url_library\<close>; the decoders of JSON bodies; gzip and PNG encoders;
  the HTTP transport; \<open>url.Parse\<close>, \<open>time.ParseDuration\<close>, \<open>strconv.ParseFloat\<close>; iteration orders of Go maps. HMAC
  is computed, nothing is assumed about its strength.

  \<^bold>\<open>Not modelled.\<close> Sockets, servers and shutdown (\<open>internal/platform/httpserver\<close>, \<open>app\<close>), logging, timing and
  tracing, the construction of database, Redis and Kafka clients, partition assignment of Kafka, the
  \<open>AccessLog\<close> and \<open>Recover\<close> middleware: they do not touch the state of the sale. Time limits of contexts
  appear only as failed calls. The estimate of the waiting time is floating point and a parameter.
  A second request that waits for the load of the same seat map loads it itself. The browser code
  in \<open>web\<close>, the load tests, test support and \<open>deploy\<close> are left out.
\<close>

section \<open>The sale as a whole\<close>

lemma seats_distinct:
  assumes "ledger d" "q \<in> set (orders d)"
  shows "distinct (map os_seat_id (seats_of d (o_id q)))" "distinct (map t_seat_id (tickets_of d (o_id q)))"
proof -
  have k: "distinct (map os_key (order_seats d))" "distinct (map t_key (tickets d))"
    using assms(1) by (auto simp: ledger_def schema_def schema_order_seats_def schema_tickets_def)
  show "distinct (map os_seat_id (seats_of d (o_id q)))"
    using k(1) by (auto simp: seats_of_def distinct_map inj_on_def os_key_def)
  have "order_tickets_ok q (seats_of d (o_id q)) (tickets_of d (o_id q))"
    using assms by (auto simp: ledger_def orders_ok_def)
  then have "\<forall>t\<in>set (tickets_of d (o_id q)). t_event_id t = o_event_id q"
    by (auto simp: order_tickets_ok_def split: if_splits)
  then show "distinct (map t_seat_id (tickets_of d (o_id q)))"
    using k(2) by (auto simp: tickets_of_def distinct_map inj_on_def t_key_def)
qed

text \<open>C1: No seat is sold twice. In every world that any interleaving of the handlers leads to, on
  either inventory backend, with calls that fail or whose replies are lost at any point, two tickets
  for the same seat of the same event are the same ticket.\<close>

theorem no_seat_sold_twice:
  assumes "reachable secret w" "t \<in> set (tickets (pg w))" "t' \<in> set (tickets (pg w))"
    and "t_event_id t = t_event_id t'" "t_seat_id t = t_seat_id t'"
  shows "t = t'"
proof -
  have "distinct (map t_key (tickets (pg w)))"
    using reachable_ledger[OF assms(1)] by (simp add: schema_def schema_tickets_def)
  then show ?thesis using assms(2-5) distinct_key_eq[of t_key] by (simp add: t_key_def)
qed

text \<open>C2: Tickets match orders. In every reachable world an order that is PAID or TICKETED has one
  ticket for each of its seats, of its event, and no other; an order in any other status has none;
  and the total of an order is the sum of the prices of its seats.\<close>

theorem orders_have_their_tickets:
  assumes "reachable secret w" "q \<in> set (orders (pg w))"
  shows "o_total_vnd q = sum64 0 (map os_price_vnd (seats_of (pg w) (o_id q))) \<and> seats_of (pg w) (o_id q) \<noteq> []
    \<and> (if o_status q = StatusPaid \<or> o_status q = StatusTicketed
       then mset (map t_seat_id (tickets_of (pg w) (o_id q))) = mset (map os_seat_id (seats_of (pg w) (o_id q)))
         \<and> list_all (\<lambda>t. t_event_id t = o_event_id q) (tickets_of (pg w) (o_id q))
       else tickets_of (pg w) (o_id q) = [])"
proof -
  have l: "ledger (pg w)" using reachable_ledger[OF assms(1)] by simp
  then have "order_seats_ok q (seats_of (pg w) (o_id q))" "order_tickets_ok q (seats_of (pg w) (o_id q)) (tickets_of (pg w) (o_id q))"
    using assms(2) by (auto simp: ledger_def orders_ok_def)
  moreover have "mset (map t_seat_id (tickets_of (pg w) (o_id q))) = mset (map os_seat_id (seats_of (pg w) (o_id q)))"
    if "t_seat_id ` set (tickets_of (pg w) (o_id q)) = os_seat_id ` set (seats_of (pg w) (o_id q))"
    using that seats_distinct[OF l assms(2)] by (metis mset_set_set set_map)
  ultimately show ?thesis by (auto simp: order_seats_ok_def order_tickets_ok_def sold_def list_all_iff)
qed

text \<open>C3: The money is accounted for. In every reachable world the successful payments add up to the
  totals of the orders that are PAID or TICKETED plus the refunds, paid back or pending; and each
  successful payment was applied to its order or has a refund of the same amount.\<close>

theorem money_accounted:
  assumes "reachable secret w"
  shows "sum_list (map p_amount_vnd (filter (\<lambda>p. p_status p = StatusSucceeded) (payments (pg w))))
      = sum_list (map o_total_vnd (filter (\<lambda>q. o_status q = StatusPaid \<or> o_status q = StatusTicketed) (orders (pg w))))
        + sum_list (map r_amount_vnd (refunds (pg w)))
    \<and> (\<forall>p\<in>set (payments (pg w)). p_status p = StatusSucceeded \<longrightarrow> p_outcome p = outcome_text OutcomeApplied
        \<or> (\<exists>r\<in>set (refunds (pg w)). r_provider_txn_id r = p_provider_txn_id p \<and> r_order_id r = p_order_id p
             \<and> r_amount_vnd r = p_amount_vnd p))"
proof -
  have "ledger (pg w)" using reachable_ledger[OF assms] by simp
  then have "balance (pg w)" "\<forall>p\<in>set (payments (pg w)). payment_ok (pg w) p" by (auto simp: ledger_def)
  moreover have "StatusSucceeded \<noteq> StatusFailed" by (simp add: StatusSucceeded_def StatusFailed_def)
  ultimately show ?thesis by (auto simp: balance_def sum_by_def sold_def payment_ok_def)
qed

text \<open>C4: No event is lost. In every reachable world each order's current status and each refund has been
  announced by an event whose record is waiting in the outbox or is in Kafka, and a message marked as
  published is in Kafka.\<close>

theorem no_event_lost:
  assumes "reachable secret w"
  shows "(\<forall>q\<in>set (orders (pg w)). \<exists>r \<in> record_of ` set (outbox (pg w)) \<union> set (kafka w).
        announces_status (o_status q) (o_id q) r)
    \<and> (\<forall>f\<in>set (refunds (pg w)). \<exists>r \<in> record_of ` set (outbox (pg w)) \<union> set (kafka w).
        announces_refund (r_order_id f) (r_provider_txn_id f) r)
    \<and> (\<forall>m\<in>set (outbox (pg w)). ob_published_at m \<noteq> None \<longrightarrow> record_of m \<in> set (kafka w))"
  using reachable_books[OF assms] by (simp add: books_def announced_def delivered_def records_def)

text \<open>C6: The order book is a refinement of its specification. In every configuration an interleaving
  leads to, each step of a handler, whatever its fault, changes the tables by steps of the abstract
  specification \<open>ledger_step\<close>, with Kafka's log only growing.\<close>

theorem handlers_refine_ledger:
  assumes "reach {p. handler secret p} env fresh_world w (ps @ Step g e c # qs)" "g w"
  shows "ledger_steps (Payload secret) (set (kafka w)) (pg w) (pg (e x w)) \<and> set (kafka w) \<subseteq> set (kafka (e x w))"
proof -
  have "sys (Payload secret) w (e x w)" by (rule ticketrush.reach_guarantee[OF assms])
  moreover have "schema (pg w)" using ticketrush.reach_inv[OF assms(1)] sound_ledger by blast
  ultimately show ?thesis by (simp add: sys_def refines_def)
qed

text \<open>C7: Nothing is undone. Each step of a handler keeps every order with its data and its seats and
  moves it only along the state machine, keeps every ticket with its order, seat and code, and keeps
  every payment.\<close>

theorem steps_keep_history:
  assumes "reach {p. handler secret p} env fresh_world w (ps @ Step g e c # qs)" "g w"
  shows "history_kept (pg w) (pg (e x w))"
proof -
  have "sys (Payload secret) w (e x w)" by (rule ticketrush.reach_guarantee[OF assms])
  moreover have "schema (pg w)" using ticketrush.reach_inv[OF assms(1)] sound_ledger by blast
  ultimately show ?thesis using refines_history by (auto simp: sys_def)
qed

text \<open>C12: Orders are unique. In every reachable world a buyer has at most one HELD order per event, and
  an Idempotency-Key of a buyer names at most one order.\<close>

theorem orders_unique:
  assumes "reachable secret w" "q \<in> set (orders (pg w))" "q' \<in> set (orders (pg w))" "o_user_id q = o_user_id q'"
    and "o_idempotency_key q = o_idempotency_key q'
      \<or> o_status q = StatusHeld \<and> o_status q' = StatusHeld \<and> o_event_id q = o_event_id q'"
  shows "q = q'"
proof -
  have "distinct (map (\<lambda>q. (o_user_id q, o_idempotency_key q)) (orders (pg w)))"
    "distinct (map (\<lambda>q. (o_event_id q, o_user_id q)) (filter held (orders (pg w))))"
    using reachable_ledger[OF assms(1)] by (auto simp: schema_def schema_orders_def)
  then show ?thesis using assms(2-5) by (auto simp: distinct_map inj_on_def held_def)
qed

text \<open>C13: Issued tickets verify. In every reachable world the QR payload of a ticket passes \<open>Verify\<close> under
  the secret it was issued with and yields the ticket's id, where the parser accepts canonical ids.\<close>

theorem issued_tickets_verify:
  assumes "reachable secret w" "t \<in> set (tickets (pg w))" "t_qr_payload t = Some p"
    and "uuid_parse (t_id t) = Some (t_id t)" "CHR ''.'' \<notin> set (t_id t)"
  shows "VerifyQR uuid_parse secret p = Some (t_id t)"
proof -
  have "t_qr_payload t = None \<or> t_qr_payload t = Some (Payload secret (t_id t))"
    using reachable_books[OF assms(1)] assms(2) by (simp add: books_def qr_ok_def)
  then show ?thesis using assms(3-5) VerifyQR_Payload by simp
qed

section \<open>The sale of theory Scenario\<close>

theorem no_seat_sold_twice_witness:
  "\<exists>w t t'. reachable ''secret'' w \<and> t \<in> set (tickets (pg w)) \<and> t' = hd (tickets (pg w)) \<and> t_key t' = t_key t \<and> t = t'"
proof -
  obtain w where w: "reachable ''secret'' w" "at_sale (twice_db ''secret'') w" using sale_paid_twice by blast
  then have t: "gala_ticket (Some (Payload ''secret'' ticket_id)) (Some 1000) \<in> set (tickets (pg w))"
    by (simp add: at_sale_def twice_db_def issued_db_def)
  have h: "hd (tickets (pg w)) \<in> set (tickets (pg w))"
    "t_key (hd (tickets (pg w))) = t_key (gala_ticket (Some (Payload ''secret'' ticket_id)) (Some 1000))"
    using w(2) by (simp_all add: at_sale_def twice_db_def issued_db_def)
  show ?thesis using w(1) t h no_seat_sold_twice[OF w(1) t h(1)] by (intro exI[of _ w] exI) (simp add: t_key_def)
qed

theorem orders_have_their_tickets_witness:
  "\<exists>w. reachable ''secret'' w \<and> gala_order StatusTicketed \<in> set (orders (pg w))
    \<and> mset (map t_seat_id (tickets_of (pg w) order_id)) = mset (map os_seat_id (seats_of (pg w) order_id))"
proof -
  obtain w where w: "reachable ''secret'' w" "at_sale (twice_db ''secret'') w" using sale_paid_twice by blast
  then have q: "gala_order StatusTicketed \<in> set (orders (pg w))" by (simp add: at_sale_def twice_db_def issued_db_def)
  show ?thesis using w(1) q orders_have_their_tickets[OF w(1) q] by (intro exI[of _ w]) (simp add: gala_order_def)
qed

theorem money_accounted_witness:
  "\<exists>w. reachable ''secret'' w \<and> map p_amount_vnd (payments (pg w)) = [500, 500]
    \<and> sum_list (map p_amount_vnd (filter (\<lambda>p. p_status p = StatusSucceeded) (payments (pg w))))
      = sum_list (map o_total_vnd (filter (\<lambda>q. o_status q = StatusPaid \<or> o_status q = StatusTicketed) (orders (pg w))))
        + sum_list (map r_amount_vnd (refunds (pg w)))"
proof -
  obtain w where w: "reachable ''secret'' w" "at_sale (twice_db ''secret'') w" using sale_paid_twice by blast
  then have "map p_amount_vnd (payments (pg w)) = [500, 500]" by (simp add: at_sale_def twice_db_def paid_db_def)
  then show ?thesis using w(1) money_accounted[OF w(1)] by (intro exI[of _ w]) simp
qed

theorem no_event_lost_witness:
  "\<exists>w. reachable ''secret'' w \<and> outbox (pg w) \<noteq> []
    \<and> list_all (\<lambda>m. ob_published_at m \<noteq> None \<and> record_of m \<in> set (kafka w)) (outbox (pg w))"
proof -
  obtain w where w: "reachable ''secret'' w" "pg w = delivered_db ''secret''" using sale_delivered by blast
  then have "outbox (pg w) \<noteq> []" "\<forall>m\<in>set (outbox (pg w)). ob_published_at m \<noteq> None"
    by (auto simp: delivered_db_def refunded_db_def)
  then show ?thesis using w(1) no_event_lost[OF w(1)] by (intro exI[of _ w]) (simp add: list_all_iff)
qed

lemma issue_in_progress:
  "\<exists>w ps e c. reach {p. handler ''secret'' p} env fresh_world w ([] @ Step (order_unlocked order_id) e c # ps)
     \<and> order_unlocked order_id w \<and> gala_order StatusPaid \<in> set (orders (pg w)) \<and> pg (e Reply w) = issued_db ''secret''"
proof -
  obtain w ps where w: "reach {p. handler ''secret'' p} env fresh_world w ps" "at_sale paid_db w"
    using sale_paid[of "''secret''"] by (auto simp: reachable_def)
  obtain e c where p: "handled (Issue ''secret'' order_id) = Step (order_unlocked order_id) e c"
    and e: "e = (\<lambda>x w. if x = Fail then w else fst (run_tx (issue_tx ''secret'' order_id) w))"
    by (simp add: handled_def Issue_def begin_func_def call_when_def)
  have "reach {p. handler ''secret'' p} env fresh_world w ([] @ Step (order_unlocked order_id) e c # ps)"
    using reach_start[OF w(1), of "handled (Issue ''secret'' order_id)"] h_issue[of "''secret''" order_id] p by simp
  moreover have "run_tx (issue_tx ''secret'' order_id) w = (w\<lparr>pg := issued_db ''secret''\<rparr>, Inr StatusTicketed)"
    using issue_tx_sale w(2) by (simp add: run_tx_def at_sale_def)
  moreover have "order_unlocked order_id w" "gala_order StatusPaid \<in> set (orders (pg w))"
    using w(2) by (simp_all add: at_sale_def order_unlocked_def paid_db_def)
  ultimately show ?thesis using e by (intro exI[of _ w] exI[of _ ps] exI[of _ e] exI[of _ c]) simp
qed

theorem handlers_refine_ledger_witness:
  "\<exists>(w::world) (w'::world). gala_order StatusPaid \<in> set (orders (pg w)) \<and> gala_order StatusTicketed \<in> set (orders (pg w'))
    \<and> ledger_steps (Payload ''secret'') (set (kafka w)) (pg w) (pg w')"
proof -
  obtain w ps e c where a: "reach {p. handler ''secret'' p} env fresh_world w ([] @ Step (order_unlocked order_id) e c # ps)"
     "order_unlocked order_id w" "gala_order StatusPaid \<in> set (orders (pg w))" "pg (e Reply w) = issued_db ''secret''"
    using issue_in_progress by blast
  have "gala_order StatusTicketed \<in> set (orders (pg (e Reply w)))" by (simp add: a(4) issued_db_def)
  then show ?thesis using a(3) handlers_refine_ledger[OF a(1,2), of Reply]
    by (intro exI[of _ w] exI[of _ "e Reply w"]) simp
qed

theorem steps_keep_history_witness:
  "\<exists>(w::world) (w'::world). gala_order StatusPaid \<in> set (orders (pg w)) \<and> gala_order StatusTicketed \<in> set (orders (pg w'))
    \<and> history_kept (pg w) (pg w')"
proof -
  obtain w ps e c where a: "reach {p. handler ''secret'' p} env fresh_world w ([] @ Step (order_unlocked order_id) e c # ps)"
     "order_unlocked order_id w" "gala_order StatusPaid \<in> set (orders (pg w))" "pg (e Reply w) = issued_db ''secret''"
    using issue_in_progress by blast
  have "gala_order StatusTicketed \<in> set (orders (pg (e Reply w)))" by (simp add: a(4) issued_db_def)
  then show ?thesis using a(3) steps_keep_history[OF a(1,2), of Reply]
    by (intro exI[of _ w] exI[of _ "e Reply w"]) simp
qed

theorem orders_unique_witness:
  "\<exists>w q. reachable ''secret'' w \<and> gala_order StatusHeld \<in> set (orders (pg w)) \<and> q \<in> set (orders (pg w))
    \<and> o_user_id q = 7 \<and> o_status q = StatusHeld \<and> o_event_id q = 1 \<and> q = gala_order StatusHeld"
proof -
  obtain w where w: "reachable ''secret'' w" "at_sale ordered_db w" using sale_begun by blast
  then have q: "gala_order StatusHeld \<in> set (orders (pg w))" by (simp add: at_sale_def ordered_db_def)
  have h: "hd (orders (pg w)) \<in> set (orders (pg w))" "o_user_id (hd (orders (pg w))) = 7"
    "o_status (hd (orders (pg w))) = StatusHeld" "o_event_id (hd (orders (pg w))) = 1"
    using w(2) by (simp_all add: at_sale_def ordered_db_def gala_order_def)
  have "hd (orders (pg w)) = gala_order StatusHeld"
    using h(2-4) by (intro orders_unique[OF w(1) h(1) q]) (simp_all add: gala_order_def)
  then show ?thesis using w(1) q h by (intro exI[of _ w] exI[of _ "hd (orders (pg w))"]) simp
qed

theorem issued_tickets_verify_witness:
  "\<exists>w p. reachable ''secret'' w \<and> gala_ticket (Some p) (Some 1000) \<in> set (tickets (pg w))
    \<and> VerifyQR Some ''secret'' p = Some ticket_id"
proof -
  obtain w where w: "reachable ''secret'' w" "at_sale (twice_db ''secret'') w" using sale_paid_twice by blast
  then have t: "gala_ticket (Some (Payload ''secret'' ticket_id)) (Some 1000) \<in> set (tickets (pg w))"
    by (simp add: at_sale_def twice_db_def issued_db_def)
  show ?thesis using w(1) t issued_tickets_verify[OF w(1) t, of "Payload ''secret'' ticket_id" Some]
    by (intro exI[of _ w] exI[of _ "Payload ''secret'' ticket_id"]) (simp add: gala_ticket_def ticket_id_def)
qed

theorem paid_order_ticketed_witness:
  "\<exists>w w' l. gala_order StatusPaid \<in> set (orders (pg w))
    \<and> run [Fail, Fail, Reply] w (process 10000000000 retryMin (ticket_Handler ''secret'') (record_of (gala_message 2 TopicOrders OrderPaid)))
      = Some (w', Some l)
    \<and> map_option o_status (row_by o_id order_id (orders (pg w'))) = Some StatusTicketed"
proof -
  obtain w where w: "reachable ''secret'' w" "at_sale paid_db w" using sale_paid by blast
  have q: "row_by o_id order_id (orders (pg w)) = Some (gala_order StatusPaid)"
    using w(2) by (simp add: at_sale_def paid_db_def gala_order_def)
  have r: "announces_status StatusPaid order_id (record_of (gala_message 2 TopicOrders OrderPaid))"
    by (auto simp: announces_status_def record_of_def gala_message_def event_record_def)
  have u: "order_unlocked order_id w" using w(2) by (simp add: at_sale_def order_unlocked_def)
  have l: "int 2 * retryMax \<le> 10000000000" by (simp add: retryMax_def)
  obtain w' l q' where "run (replicate 2 Fail @ [Reply]) w (process 10000000000 retryMin (ticket_Handler ''secret'')
      (record_of (gala_message 2 TopicOrders OrderPaid))) = Some (w', Some l)"
    "row_by o_id order_id (orders (pg w')) = Some q'" "o_status q' = StatusTicketed"
    using paid_order_ticketed[OF reachable_books[OF w(1)] q _ u r l] by (auto simp: gala_order_def)
  then show ?thesis using row_by_SomeD[OF q] by (intro exI[of _ w] exI[of _ w'] exI[of _ l]) (simp add: numeral_2_eq_2)
qed

theorem pending_refund_paid_back_witness:
  "\<exists>w fs w'. run fs w (refund_Handler (\<lambda>_ _ _. Ret (Inr ())) (record_of (refund_message 4 OrderRefundRequested))) = Some (w', Inr ())
    \<and> refunds (pg w) = [gala_refund ''PENDING'' None]
    \<and> map_option r_status (row_by r_provider_txn_id ''fp_2'' (refunds (pg w'))) = Some RefundSucceeded"
proof -
  obtain w where w: "reachable ''secret'' w" "at_sale (twice_db ''secret'') w" using sale_paid_twice by blast
  have f: "row_by r_provider_txn_id ''fp_2'' (refunds (pg w)) = Some (gala_refund ''PENDING'' None)"
    using w(2) by (simp add: at_sale_def twice_db_def gala_refund_def)
  have r: "announces_refund order_id ''fp_2'' (record_of (refund_message 4 OrderRefundRequested))"
    by (auto simp: announces_refund_def record_of_def refund_message_def gala_message_def event_record_def)
  have u: "order_unlocked (r_order_id (gala_refund ''PENDING'' None)) w" using w(2) by (simp add: at_sale_def order_unlocked_def)
  have l: "ledger (pg w)" using reachable_ledger[OF w(1)] by simp
  have "refunds (pg w) = [gala_refund ''PENDING'' None]" using w(2) by (simp add: at_sale_def twice_db_def)
  moreover obtain fs w' where "run fs w (refund_Handler (\<lambda>_ _ _. Ret (Inr ())) (record_of (refund_message 4 OrderRefundRequested)))
      = Some (w', Inr ())" "map_option r_status (row_by r_provider_txn_id ''fp_2'' (refunds (pg w'))) = Some RefundSucceeded"
    using pending_refund_paid_back[OF l f _ _ u r, of "[]" "\<lambda>_ _ _. Ret (Inr ())"] by (auto simp: gala_refund_def RefundPending_def)
  ultimately show ?thesis by (intro exI[of _ w] exI[of _ fs] exI[of _ w']) simp
qed

theorem handled_again_witness:
  "\<exists>w. reachable ''secret'' w
    \<and> run [Reply] w (ticket_Handler ''secret'' (record_of (gala_message 2 TopicOrders OrderPaid))) = Some (w, Inr ())
    \<and> run [Reply] w (refund_Handler (\<lambda>_ _ _. Ret (Inr ())) (record_of (refund_message 4 OrderRefundRequested))) = Some (w, Inr ())"
proof -
  obtain w where w: "reachable ''secret'' w" "at_sale (refunded_db ''secret'') w" using sale_refunded by blast
  have q: "row_by o_id order_id (orders (pg w)) = Some (gala_order StatusTicketed)"
    using w(2) by (simp add: at_sale_def refunded_db_def twice_db_def issued_db_def gala_order_def)
  have f: "row_by r_provider_txn_id ''fp_2'' (refunds (pg w)) = Some (gala_refund ''SUCCEEDED'' (Some 1000))"
    using w(2) by (simp add: at_sale_def refunded_db_def gala_refund_def)
  have r: "announces_status StatusPaid order_id (record_of (gala_message 2 TopicOrders OrderPaid))"
    by (auto simp: announces_status_def record_of_def gala_message_def event_record_def)
  have r': "announces_refund order_id ''fp_2'' (record_of (refund_message 4 OrderRefundRequested))"
    by (auto simp: announces_refund_def record_of_def refund_message_def gala_message_def event_record_def)
  have u: "order_unlocked order_id w" using w(2) by (simp add: at_sale_def order_unlocked_def)
  have "issue_tx ''secret'' order_id (pg_now w) (pg w) = Inr (pg w, StatusTicketed)"
    using q by (simp add: issue_tx_def tx_defs one_row_def GetOrderForUpdate_def gala_order_def)
  then obtain w' where w': "run [Reply] w (ticket_Handler ''secret'' (record_of (gala_message 2 TopicOrders OrderPaid))) = Some (w', Inr ())"
    unfolding ticket_Handler_paid[OF r] Issue_def begin_func_def using u by simp
  obtain w'' where w'': "run [Reply] w (refund_Handler (\<lambda>_ _ _. Ret (Inr ())) (record_of (refund_message 4 OrderRefundRequested)))
      = Some (w'', Inr ())"
    unfolding refund_Handler_requested[OF r', simplified] Process_def begin_func_def
    using f by (simp add: run_tx_def GetRefund_def one_row_def gala_refund_def RefundSucceeded_def)
  have "w' = w" "w'' = w"
    using handled_again[of order_id w "gala_order StatusTicketed" "record_of (gala_message 2 TopicOrders OrderPaid)" "''secret''"
        "''fp_2''" "gala_refund ''SUCCEEDED'' (Some 1000)" order_id "record_of (refund_message 4 OrderRefundRequested)"
        "\<lambda>_ _ _. Ret (Inr ())"] q f r r' w' w''
    by (simp_all add: gala_order_def gala_refund_def RefundSucceeded_def) blast+
  then show ?thesis using w(1) w' w'' by blast
qed

text \<open>
  A consumer that notes the records it handles and its commits: the first attempt at the second
  record is answered with an error, and the commit follows the last record.
\<close>

definition noting :: "(string, unit res) prog" where
  "noting = call (\<lambda>log. (log @ ''commit;'', Inr ()))"

definition noting_handler :: "string record_handler" where
  "noting_handler r = call (\<lambda>log. (log @ k_key r @ '';'', Inr ()))"

theorem committed_batch_settled_witness:
  "\<exists>log. run [Reply, Fail, Reply, Reply] [] (consume_round noting retryMax noting_handler
      [record_of (gala_message 1 TopicOrders OrderHeld), record_of (gala_message 2 TopicOrders OrderPaid)])
    = Some (order_id @ '';'' @ order_id @ '';commit;'', Some (retryMax - retryMin, True))
    \<and> handled_in_turn noting_handler
        [record_of (gala_message 1 TopicOrders OrderHeld), record_of (gala_message 2 TopicOrders OrderPaid)] [] log
    \<and> order_id @ '';'' @ order_id @ '';commit;'' = log @ ''commit;''"
proof -
  have r: "run [Reply, Fail, Reply, Reply] [] (consume_round noting retryMax noting_handler
      [record_of (gala_message 1 TopicOrders OrderHeld), record_of (gala_message 2 TopicOrders OrderPaid)])
    = Some (order_id @ '';'' @ order_id @ '';commit;'', Some (retryMax - retryMin, True))"
    by (simp add: consume_round_def process.simps noting_def noting_handler_def record_of_def gala_message_def event_record_def
        retryMin_def retryMax_def IsPermanent_def)
  from committed_batch_settled[OF r] obtain log gs y where "handled_in_turn noting_handler
        [record_of (gala_message 1 TopicOrders OrderHeld), record_of (gala_message 2 TopicOrders OrderPaid)] [] log"
    "run gs log noting = Some (order_id @ '';'' @ order_id @ '';commit;'', y)" "y = Inr ()" by auto
  then show ?thesis using r unfolding noting_def run_call_Some by (auto split: if_splits)
qed

end
